(* ===== verification/Kernel_Prelude.thy ===== *)
theory Kernel_Prelude
  imports Main "HOL-Library.Word"
begin

text \<open>
  Shared vocabulary of the development: the fixed-width integer types of
  \<^verbatim>\<open>stdint.h\<close>, page arithmetic, the page-stride loop that four functions of the kernel
  share, and the word and list lemmas the component theories use.  The collections are
  \<^item> \<open>mem_simps\<close>: read-over-write laws of memory and of the arrays laid out in it;
  \<^item> \<open>page_simps\<close>: facts on page rounding and page indices;
  \<^item> \<open>const_defs\<close>: the macros of the headers.
\<close>

unbundle bit_operations_syntax

named_theorems mem_simps \<open>read-over-write laws\<close>
named_theorems page_simps \<open>page rounding and page indices\<close>
named_theorems const_defs \<open>header constants\<close>

type_synonym u8 = "8 word"
type_synonym u16 = "16 word"
type_synonym u32 = "32 word"
type_synonym u64 = "64 word"

section \<open>Words\<close>

lemma unat_u32_lt [simp]: "unat (a :: u32) < 4294967296"
  using unsigned_less [of a, where ?'a = nat] by simp

lemma unat_u32_of_nat: "n < 4294967296 \<Longrightarrow> unat (of_nat n :: u32) = n"
  by (simp add: unat_of_nat take_bit_eq_mod)

lemma u32_plus_no_wrap: "unat a + unat b < 4294967296 \<Longrightarrow> unat (a + b :: u32) = unat a + unat b"
  by (simp add: unat_plus_if')

lemma u32_minus_no_wrap: "unat b \<le> unat a \<Longrightarrow> unat (a - b :: u32) = unat a - unat b"
  by (simp add: unat_sub_if')

lemma u32_mult_no_wrap: "unat a * unat b < 4294967296 \<Longrightarrow> unat (a * b :: u32) = unat a * unat b"
  by (simp add: unat_word_ariths)

lemma u32_less_iff: "(a :: u32) < b \<longleftrightarrow> unat a < unat b"
  by (rule word_less_nat_alt)

lemma u32_le_iff: "(a :: u32) \<le> b \<longleftrightarrow> unat a \<le> unat b"
  by (rule word_le_nat_alt)

lemma u32_of_nat_unat: "of_nat (unat a) = (a :: u32)"
  by simp

lemma u32_of_nat_inj:
  "m < 4294967296 \<Longrightarrow> n < 4294967296 \<Longrightarrow> (of_nat m :: u32) = of_nat n \<longleftrightarrow> m = n"
  by (metis unat_u32_of_nat)

lemma u32_of_nat_less:
  "m < 4294967296 \<Longrightarrow> n < 4294967296 \<Longrightarrow> (of_nat m :: u32) < of_nat n \<longleftrightarrow> m < n"
  by (simp add: u32_less_iff unat_u32_of_nat)

lemma u32_of_nat_le:
  "m < 4294967296 \<Longrightarrow> n < 4294967296 \<Longrightarrow> (of_nat m :: u32) \<le> of_nat n \<longleftrightarrow> m \<le> n"
  by (simp add: u32_le_iff unat_u32_of_nat)

lemma u32_inc: "(a :: u32) < b \<Longrightarrow> unat (a + 1) = unat a + 1"
proof -
  assume "a < b"
  then have "unat a + 1 < 4294967296"
    using unat_u32_lt [of b] unfolding u32_less_iff by linarith
  then show ?thesis by (simp add: u32_plus_no_wrap)
qed

lemma unat_ucast_u64_u32: "unat (ucast (x :: u64) :: u32) = unat x mod 4294967296"
  by (simp add: unsigned_ucast_eq take_bit_eq_mod)

lemmas u32_nat_simps = unat_u32_of_nat u32_less_iff u32_le_iff unat_div unat_mod
  u32_plus_no_wrap u32_minus_no_wrap u32_mult_no_wrap

section \<open>Pages\<close>

abbreviation PAGE_SIZE :: u32 where
  "PAGE_SIZE \<equiv> 0x1000"

definition page_down :: "u32 \<Rightarrow> u32" where
  "page_down a = a AND NOT 0xFFF"

definition page_up :: "u32 \<Rightarrow> u32" where
  "page_up a = (a + 0xFFF) AND NOT 0xFFF"

definition page_addr :: "nat \<Rightarrow> u32" where
  "page_addr n = of_nat (4096 * n)"

lemma page_down_shift: "page_down a = push_bit 12 (drop_bit 12 a)"
proof -
  have m: "(0xFFF :: u32) = mask 12" by (simp add: mask_eq_exp_minus_1)
  show ?thesis unfolding page_down_def m
    by (rule bit_word_eqI) (auto simp: bit_simps)
qed

lemma unat_page_down: "unat (page_down a) = 4096 * (unat a div 4096)"
proof -
  have "unat (page_down a) = take_bit 32 (push_bit 12 (drop_bit 12 (unat a)))"
    by (simp add: page_down_shift unsigned_push_bit_eq unat_drop_bit_eq)
  also have "push_bit 12 (drop_bit 12 (unat a)) = 4096 * (unat a div 4096)"
    by (simp add: push_bit_eq_mult drop_bit_eq_div)
  also have "take_bit 32 (4096 * (unat a div 4096)) = 4096 * (unat a div 4096)"
  proof -
    have "4096 * (unat a div 4096) \<le> unat a" by simp
    then have "4096 * (unat a div 4096) < 4294967296"
      using unat_u32_lt [of a] by linarith
    then show ?thesis by (simp add: take_bit_eq_mod)
  qed
  finally show ?thesis .
qed

lemma page_up_down: "page_up a = page_down (a + 0xFFF)"
  by (simp add: page_up_def page_down_def)

lemma unat_page_up:
  "unat a \<le> 4294963200 \<Longrightarrow> unat (page_up a) = 4096 * ((unat a + 4095) div 4096)"
  by (simp add: page_up_down unat_page_down u32_plus_no_wrap)

lemma page_up_wraps: "4294963200 < unat a \<Longrightarrow> page_up a = 0"
proof -
  assume a: "4294963200 < unat a"
  have "unat (a + 0xFFF) = unat a + 4095 - 4294967296"
    using a by (simp add: unat_plus_if')
  then have "unat (a + 0xFFF) < 4096"
    using unat_u32_lt [of a] by linarith
  then have "unat (page_up a) = 0"
    by (simp add: page_up_down unat_page_down)
  then show ?thesis by (simp add: unat_eq_zero)
qed

lemma unat_page_addr: "n < 1048576 \<Longrightarrow> unat (page_addr n) = 4096 * n"
  using unat_u32_of_nat [of "4096 * n"] by (simp add: page_addr_def del: of_nat_mult)

lemma page_addr_Suc: "page_addr (Suc n) = page_addr n + PAGE_SIZE"
  by (simp add: page_addr_def algebra_simps)

lemma page_down_page_addr: "page_down a = page_addr (unat a div 4096)"
proof (rule unsigned_word_eqI)
  have "unat a div 4096 < 1048576"
    using unat_u32_lt [of a] by (simp add: div_less_iff_less_mult)
  then show "unat (page_down a) = unat (page_addr (unat a div 4096))"
    by (simp add: unat_page_down unat_page_addr)
qed

lemma page_down_idem [simp]: "page_down (page_down a) = page_down a"
  by (simp add: page_down_def)

lemma page_down_page_up [simp]: "page_down (page_up a) = page_up a"
  by (simp add: page_up_down)

lemma page_down_id: "4096 dvd unat a \<Longrightarrow> page_down a = a"
  by (auto simp: word_unat_eq_iff unat_page_down)

lemma dvd_page_down [simp]: "4096 dvd unat (page_down a)"
  by (simp add: unat_page_down)

lemma dvd_page_up [simp]: "4096 dvd unat (page_up a)"
  by (simp add: page_up_down)

lemma page_addr_add: "page_addr m + page_addr n = page_addr (m + n)"
  by (simp add: page_addr_def algebra_simps)

lemma dvd_page_addr [simp]: "4096 dvd unat (page_addr n)"
proof -
  have "unat (page_addr n) = (4096 * n) mod 4294967296"
    by (simp add: page_addr_def unat_of_nat take_bit_eq_mod del: of_nat_mult)
  then show ?thesis by (simp add: dvd_mod)
qed

lemma page_down_of_page_addr [simp]: "page_down (page_addr n) = page_addr n"
  by (simp add: page_down_id)

lemma page_down_plus [page_simps]: "page_down (page_down a + page_addr n) = page_down a + page_addr n"
  unfolding page_down_page_addr [of a] page_addr_add by (rule page_down_of_page_addr)

lemma page_addr_offset [page_simps]: "page_addr n AND 0xFFF = 0"
proof -
  have m: "(0xFFF :: u32) = mask 12" by (simp add: mask_eq_exp_minus_1)
  have "page_addr n AND 0xFFF = page_down (page_addr n) AND 0xFFF" by simp
  also have "\<dots> = 0" unfolding page_down_shift m by (rule bit_word_eqI) (auto simp: bit_simps)
  finally show ?thesis .
qed

section \<open>The page-stride loop\<close>

text \<open>
  Four functions of the kernel walk a range page by page,
  \<^verbatim>\<open>for (addr = start; addr < end && addr >= start; addr += PAGE_SIZE)\<close>, after rounding
  \<open>end\<close> to a page boundary (\<open>FrameAllocator::mark\<close>, \<open>PageDirectory::identity_map_range\<close>,
  \<open>map_range\<close>, \<open>unmap_range\<close>; the last two have no lower guard, which is \<open>lo = 0\<close>).
  Because the limit is page aligned, the step never wraps before the guard fails, and the
  loop terminates on every input; the limit is aligned once more in the guard, which leaves
  an aligned limit as it is, to make that fact part of the definition.
\<close>

function page_loop :: "u32 \<Rightarrow> u32 \<Rightarrow> (u32 \<Rightarrow> 's \<Rightarrow> 's) \<Rightarrow> u32 \<Rightarrow> 's \<Rightarrow> 's" where
  "page_loop lo hi f addr s =
     (if addr < page_down hi \<and> addr \<ge> lo
      then page_loop lo hi f (addr + PAGE_SIZE) (f addr s) else s)"
  by pat_completeness auto
termination
proof (relation "measure (\<lambda>(lo, hi, f, addr, s). 4294967296 - unat addr)", goal_cases)
  case (2 lo hi f addr s)
  then have "unat addr < 4096 * (unat hi div 4096)"
    by (simp add: u32_less_iff unat_page_down)
  moreover have "unat hi div 4096 \<le> 1048575"
    using unat_u32_lt [of hi] by linarith
  ultimately have "unat addr + 4096 < 4294967296" by linarith
  then show ?case by (simp add: u32_plus_no_wrap)
qed simp

declare page_loop.simps [simp del]

text \<open>The loop is a fold over the page addresses of the range.\<close>

lemma page_loop_fold:
  assumes "unat lo \<le> 4096 * p" "p < 1048576"
  shows "page_loop lo hi f (page_addr p) s = fold f (map page_addr [p..<unat hi div 4096]) s"
  using assms
proof (induction "unat hi div 4096 - p" arbitrary: p s)
  case 0
  then have "\<not> page_addr p < page_down hi"
    by (simp add: u32_less_iff unat_page_addr unat_page_down)
  with 0 show ?case by (simp add: page_loop.simps)
next
  case (Suc k)
  then have less: "p < unat hi div 4096" by linarith
  have hi: "unat hi div 4096 < 1048576"
    using unat_u32_lt [of hi] by (simp add: div_less_iff_less_mult)
  have guard: "page_addr p < page_down hi \<and> page_addr p \<ge> lo"
    using less Suc.prems by (simp add: u32_less_iff u32_le_iff unat_page_addr unat_page_down)
  have "page_loop lo hi f (page_addr p) s = page_loop lo hi f (page_addr (Suc p)) (f (page_addr p) s)"
    using guard by (simp add: page_loop.simps [of lo hi f "page_addr p"] page_addr_Suc)
  also have "\<dots> = fold f (map page_addr [Suc p..<unat hi div 4096]) (f (page_addr p) s)"
    by (rule Suc.hyps) (use Suc less hi in auto)
  also have "\<dots> = fold f (map page_addr [p..<unat hi div 4096]) s"
    using less by (simp add: upt_conv_Cons)
  finally show ?case .
qed

text \<open>Both bounds rounded outwards, as \<open>mark\<close> and \<open>identity_map_range\<close> do.\<close>

lemma page_loop_range:
  "page_loop (page_down a) (page_up b) f (page_down a) s
   = fold f (map page_addr [unat a div 4096..<unat (page_up b) div 4096]) s"
proof -
  have "unat a div 4096 < 1048576"
    using unat_u32_lt [of a] by (simp add: div_less_iff_less_mult)
  then show ?thesis
    unfolding page_down_page_addr [of a] by (intro page_loop_fold) (simp_all add: unat_page_addr)
qed

section \<open>The counting loop\<close>

text \<open>\<^verbatim>\<open>for (uint32_t i = a; i < hi; i++)\<close>: the step never wraps while the guard holds.\<close>

function index_loop :: "u32 \<Rightarrow> (u32 \<Rightarrow> 's \<Rightarrow> 's) \<Rightarrow> u32 \<Rightarrow> 's \<Rightarrow> 's" where
  "index_loop hi f i s = (if i < hi then index_loop hi f (i + 1) (f i s) else s)"
  by pat_completeness auto
termination
proof (relation "measure (\<lambda>(hi, f, i, s). unat hi - unat i)", goal_cases)
  case (2 hi f i s)
  then have "unat i < unat hi" "unat (i + 1) = unat i + 1"
    using u32_inc [of i hi] by (simp_all add: u32_less_iff)
  then show ?case by (simp only: in_measure prod.case)
qed simp

declare index_loop.simps [simp del]

lemma index_loop_fold: "index_loop hi f i s = fold f (map of_nat [unat i..<unat hi]) s"
proof (induction hi f i s rule: index_loop.induct)
  case (1 hi f i s)
  show ?case
  proof (cases "i < hi")
    case True
    with u32_inc [OF True] have "[unat i..<unat hi] = unat i # [unat (i + 1)..<unat hi]"
      by (simp add: upt_conv_Cons u32_less_iff)
    with True 1 show ?thesis by (simp add: index_loop.simps [of hi f i])
  qed (simp add: index_loop.simps [of hi f i] u32_less_iff)
qed

section \<open>Folds\<close>

text \<open>A fold keeps what every step keeps.\<close>

lemma fold_keeps:
  assumes "\<And>x s. x \<in> set xs \<Longrightarrow> P s \<Longrightarrow> P (f x s)" "P s"
  shows "P (fold f xs s)"
  using assms by (induction xs arbitrary: s) auto

section \<open>Searching a list\<close>

lemma find_append_option:
  "List.find P (xs @ ys) = (case List.find P xs of None \<Rightarrow> List.find P ys | Some x \<Rightarrow> Some x)"
  by (induction xs) auto

lemma find_map: "List.find P (map f xs) = map_option f (List.find (\<lambda>x. P (f x)) xs)"
  by (induction xs) auto

text \<open>A search of an interval finds the least index that satisfies the predicate.\<close>

lemma find_upt_Some:
  "List.find P [a..<b] = Some n \<longleftrightarrow> a \<le> n \<and> n < b \<and> P n \<and> (\<forall>k. a \<le> k \<and> k < n \<longrightarrow> \<not> P k)"
proof (induction "b - a" arbitrary: a)
  case 0
  then show ?case by auto
next
  case (Suc d)
  then have "[a..<b] = a # [Suc a..<b]" by (simp add: upt_conv_Cons)
  then show ?case
    using Suc.hyps(1) [of "Suc a"] Suc.hyps(2)
    by (auto simp: not_less_eq_eq le_Suc_eq dest: le_neq_implies_less)
qed

lemma find_upt_None: "List.find P [a..<b] = None \<longleftrightarrow> (\<forall>k. a \<le> k \<and> k < b \<longrightarrow> \<not> P k)"
  by (auto simp: find_None_iff)

section \<open>Signed integers\<close>

text \<open>The type \<^verbatim>\<open>int\<close>: 32 bits, with no value for a result outside its range.\<close>

definition int_ok :: "int \<Rightarrow> bool" where
  "int_ok z \<longleftrightarrow> - 0x80000000 \<le> z \<and> z \<le> 0x7FFFFFFF"

definition int_val :: "int \<Rightarrow> int option" where
  "int_val z = (if int_ok z then Some z else None)"

end
