(* ===== verification/Machine.thy ===== *)
theory Machine
  imports Kernel_Prelude
begin

text \<open>
  The machine the kernel runs on: byte-addressed memory with the little-endian accesses of
  i386, the control registers that \<^verbatim>\<open>arch/x86/cr0\<close>, \<^verbatim>\<open>cr3\<close>, \<^verbatim>\<open>cr4\<close> read
  and write, and port input and output (\<^verbatim>\<open>arch/x86/io\<close>).  A \<open>uint32_t\<close> array is a
  base address: \<open>rd_elem\<close> and \<open>wr_elem\<close> are \<^verbatim>\<open>a[i]\<close> read and written.  Reads over
  writes are decided by \<open>apart4\<close>, and \<open>unchanged_outside\<close> says which bytes an operation
  may touch.
\<close>

section \<open>Memory\<close>

type_synonym memory = "u32 \<Rightarrow> u8"

definition load8 :: "memory \<Rightarrow> u32 \<Rightarrow> u8" where
  "load8 m a = m a"

definition store8 :: "memory \<Rightarrow> u32 \<Rightarrow> u8 \<Rightarrow> memory" where
  "store8 m a v = m(a := v)"

definition load32 :: "memory \<Rightarrow> u32 \<Rightarrow> u32" where
  "load32 m a = ucast (m a) OR push_bit 8 (ucast (m (a + 1)))
     OR push_bit 16 (ucast (m (a + 2))) OR push_bit 24 (ucast (m (a + 3)))"

definition store32 :: "memory \<Rightarrow> u32 \<Rightarrow> u32 \<Rightarrow> memory" where
  "store32 m a v = m(a := ucast v, a + 1 := ucast (drop_bit 8 v),
     a + 2 := ucast (drop_bit 16 v), a + 3 := ucast (drop_bit 24 v))"

definition apart4 :: "u32 \<Rightarrow> u32 \<Rightarrow> bool" where
  "apart4 a b \<longleftrightarrow> 4 \<le> a - b \<and> 4 \<le> b - a"

lemma load32_store32_same: "load32 (store32 m a v) a = v"
proof -
  have "ucast (ucast v :: u8) OR push_bit 8 (ucast (ucast (drop_bit 8 v) :: u8))
     OR push_bit 16 (ucast (ucast (drop_bit 16 v) :: u8))
     OR push_bit 24 (ucast (ucast (drop_bit 24 v) :: u8)) = v" (is "?l = v")
  proof (rule bit_word_eqI)
    fix n assume "n < LENGTH(32)"
    then consider "n < 8" | "8 \<le> n \<and> n < 16" | "16 \<le> n \<and> n < 24" | "24 \<le> n \<and> n < 32"
      by fastforce
    then show "bit ?l n \<longleftrightarrow> bit v n"
      by cases (auto simp: bit_simps)
  qed
  then show ?thesis by (simp add: load32_def store32_def)
qed

lemma apart4_offsets:
  assumes "apart4 a b" "i \<in> {0, 1, 2, 3}" "j \<in> {0, 1, 2, 3}"
  shows "b + j \<noteq> a + i"
proof
  assume "b + j = a + i"
  then have "a - b = j - i" and "b - a = i - j" by (simp_all add: algebra_simps)
  then have "4 \<le> j - i \<and> 4 \<le> i - j" using assms(1) by (simp add: apart4_def)
  with assms(2,3) show False by (auto simp: word_le_nat_alt)
qed

lemma store32_apart:
  "apart4 a b \<Longrightarrow> j \<in> {0, 1, 2, 3} \<Longrightarrow> store32 m a v (b + j) = m (b + j)"
  using apart4_offsets [of a b 0 j] apart4_offsets [of a b 1 j]
    apart4_offsets [of a b 2 j] apart4_offsets [of a b 3 j]
  by (simp add: store32_def)

lemma load32_store32_other:
  "apart4 a b \<Longrightarrow> load32 (store32 m a v) b = load32 m b"
  using store32_apart [of a b 0] store32_apart [of a b 1] store32_apart [of a b 2]
    store32_apart [of a b 3]
  by (simp add: load32_def)

lemma apart4_natI:
  assumes "unat a + 4 \<le> unat b" "unat b + 4 \<le> 4294967296"
  shows "apart4 a b" and "apart4 b a"
  using assms by (auto simp: apart4_def word_le_nat_alt unat_sub_if')

lemma store32_outside:
  assumes "\<not> (unat a \<le> unat x \<and> unat x < unat a + 4)" "unat a + 4 \<le> 4294967296"
  shows "store32 m a v x = m x"
proof -
  have "x \<noteq> a" "x \<noteq> a + 1" "x \<noteq> a + 2" "x \<noteq> a + 3"
    using assms by (auto simp: u32_plus_no_wrap)
  then show ?thesis by (simp add: store32_def)
qed

section \<open>Machine state\<close>

datatype port_write = Out8 u16 u8 | Out16 u16 u16 | Out32 u16 u32

record machine =
  mem :: memory
  cr0 :: u32
  cr3 :: u32
  cr4 :: u32
  port_in :: "u16 \<Rightarrow> u32"
  port_out :: "port_write list"

definition rd8 :: "machine \<Rightarrow> u32 \<Rightarrow> u8" where
  "rd8 s a = load8 (mem s) a"

definition wr8 :: "machine \<Rightarrow> u32 \<Rightarrow> u8 \<Rightarrow> machine" where
  "wr8 s a v = s\<lparr>mem := store8 (mem s) a v\<rparr>"

definition rd32 :: "machine \<Rightarrow> u32 \<Rightarrow> u32" where
  "rd32 s a = load32 (mem s) a"

definition wr32 :: "machine \<Rightarrow> u32 \<Rightarrow> u32 \<Rightarrow> machine" where
  "wr32 s a v = s\<lparr>mem := store32 (mem s) a v\<rparr>"

definition rd64 :: "machine \<Rightarrow> u32 \<Rightarrow> u64" where
  "rd64 s a = ucast (rd32 s a) OR push_bit 32 (ucast (rd32 s (a + 4)))"

definition rd_elem :: "machine \<Rightarrow> u32 \<Rightarrow> u32 \<Rightarrow> u32" where
  "rd_elem s base i = rd32 s (base + 4 * i)"

definition wr_elem :: "machine \<Rightarrow> u32 \<Rightarrow> u32 \<Rightarrow> u32 \<Rightarrow> machine" where
  "wr_elem s base i v = wr32 s (base + 4 * i) v"

definition fill_bytes :: "u32 \<Rightarrow> u32 \<Rightarrow> u8 \<Rightarrow> machine \<Rightarrow> machine" where
  "fill_bytes dest sz v s =
     fold (\<lambda>i s. wr8 s (dest + of_nat i) v) [0..<unat sz] s"

definition zero_memory :: "u32 \<Rightarrow> u32 \<Rightarrow> machine \<Rightarrow> machine" where
  "zero_memory dest sz s = fill_bytes dest sz 0 s"

subsection \<open>Port input and output, control registers\<close>

definition inb :: "machine \<Rightarrow> u16 \<Rightarrow> u8" where
  "inb s port = ucast (port_in s port)"

definition inw :: "machine \<Rightarrow> u16 \<Rightarrow> u16" where
  "inw s port = ucast (port_in s port)"

definition inl :: "machine \<Rightarrow> u16 \<Rightarrow> u32" where
  "inl s port = port_in s port"

definition outb :: "machine \<Rightarrow> u16 \<Rightarrow> u8 \<Rightarrow> machine" where
  "outb s port v = s\<lparr>port_out := port_out s @ [Out8 port v]\<rparr>"

definition outw :: "machine \<Rightarrow> u16 \<Rightarrow> u16 \<Rightarrow> machine" where
  "outw s port v = s\<lparr>port_out := port_out s @ [Out16 port v]\<rparr>"

definition outl :: "machine \<Rightarrow> u16 \<Rightarrow> u32 \<Rightarrow> machine" where
  "outl s port v = s\<lparr>port_out := port_out s @ [Out32 port v]\<rparr>"

definition io_read8 :: "machine \<Rightarrow> u32 \<Rightarrow> u8" where
  "io_read8 s address = inb s (ucast address)"

definition io_write8 :: "machine \<Rightarrow> u32 \<Rightarrow> u8 \<Rightarrow> machine" where
  "io_write8 s address v = outb s (ucast address) v"

definition io_read16 :: "machine \<Rightarrow> u32 \<Rightarrow> u16" where
  "io_read16 s address = inw s (ucast address)"

definition io_write16 :: "machine \<Rightarrow> u32 \<Rightarrow> u16 \<Rightarrow> machine" where
  "io_write16 s address v = outw s (ucast address) v"

definition io_read32 :: "machine \<Rightarrow> u32 \<Rightarrow> u32" where
  "io_read32 s address = inl s (ucast address)"

definition io_write32 :: "machine \<Rightarrow> u32 \<Rightarrow> u32 \<Rightarrow> machine" where
  "io_write32 s address v = outl s (ucast address) v"

definition write_cr0 :: "u32 \<Rightarrow> machine \<Rightarrow> machine" where
  "write_cr0 v s = s\<lparr>cr0 := v\<rparr>"

definition write_cr3 :: "u32 \<Rightarrow> machine \<Rightarrow> machine" where
  "write_cr3 v s = s\<lparr>cr3 := v\<rparr>"

definition write_cr4 :: "u32 \<Rightarrow> machine \<Rightarrow> machine" where
  "write_cr4 v s = s\<lparr>cr4 := v\<rparr>"

subsection \<open>Reads over writes\<close>

lemma wr_fields [simp]:
  "cr0 (wr32 s a v) = cr0 s" "cr3 (wr32 s a v) = cr3 s" "cr4 (wr32 s a v) = cr4 s"
  "port_in (wr32 s a v) = port_in s" "port_out (wr32 s a v) = port_out s"
  "cr0 (wr8 s a w) = cr0 s" "cr3 (wr8 s a w) = cr3 s" "cr4 (wr8 s a w) = cr4 s"
  "port_in (wr8 s a w) = port_in s" "port_out (wr8 s a w) = port_out s"
  by (simp_all add: wr32_def wr8_def)

lemma mem_cr [simp]:
  "mem (write_cr0 v s) = mem s" "mem (write_cr3 v s) = mem s" "mem (write_cr4 v s) = mem s"
  by (simp_all add: write_cr0_def write_cr3_def write_cr4_def)

lemma rd32_cr [simp]:
  "rd32 (write_cr0 v s) a = rd32 s a" "rd32 (write_cr3 v s) a = rd32 s a"
  "rd32 (write_cr4 v s) a = rd32 s a"
  by (simp_all add: rd32_def)

lemma rd32_wr32_same [simp, mem_simps]: "rd32 (wr32 s a v) a = v"
  by (simp add: rd32_def wr32_def load32_store32_same)

lemma rd32_wr32_other [mem_simps]: "apart4 a b \<Longrightarrow> rd32 (wr32 s a v) b = rd32 s b"
  by (simp add: rd32_def wr32_def load32_store32_other)

lemma rd8_wr8 [simp, mem_simps]: "rd8 (wr8 s a v) b = (if b = a then v else rd8 s b)"
  by (simp add: rd8_def wr8_def load8_def store8_def)

lemma mem_fill_bytes:
  "mem (fill_bytes d n v s) x = (if unat (x - d) < unat n then v else mem s x)"
proof -
  have "unat (x - d) < k \<longleftrightarrow> (\<exists>i < k. x = d + of_nat i)" if "k \<le> 4294967296" for k
  proof
    assume "unat (x - d) < k"
    moreover have "x = d + of_nat (unat (x - d))" by simp
    ultimately show "\<exists>i < k. x = d + of_nat i" by blast
  next
    assume "\<exists>i < k. x = d + of_nat i"
    with that show "unat (x - d) < k" by (auto simp: unat_u32_of_nat)
  qed
  moreover have "mem (fold (\<lambda>i s. wr8 s (d + of_nat i) v) [0..<k] s) x
      = (if \<exists>i < k. x = d + of_nat i then v else mem s x)" for k
    by (induction k) (auto simp: wr8_def store8_def less_Suc_eq)
  ultimately show ?thesis
    by (simp add: fill_bytes_def less_imp_le)
qed

lemma fill_bytes_fields [simp]:
  "cr0 (fill_bytes d n v s) = cr0 s" "cr3 (fill_bytes d n v s) = cr3 s"
  "cr4 (fill_bytes d n v s) = cr4 s" "port_in (fill_bytes d n v s) = port_in s"
  "port_out (fill_bytes d n v s) = port_out s"
  unfolding fill_bytes_def by (rule fold_keeps; simp)+

section \<open>What an operation may touch\<close>

definition unchanged_outside :: "nat \<Rightarrow> nat \<Rightarrow> machine \<Rightarrow> machine \<Rightarrow> bool" where
  "unchanged_outside lo hi s t \<longleftrightarrow>
     (\<forall>x. \<not> (lo \<le> unat x \<and> unat x < hi) \<longrightarrow> mem t x = mem s x)"

lemma unchanged_refl [simp]: "unchanged_outside lo hi s s"
  by (simp add: unchanged_outside_def)

lemma unchanged_trans [trans]:
  "unchanged_outside lo hi s t \<Longrightarrow> unchanged_outside lo hi t u \<Longrightarrow> unchanged_outside lo hi s u"
  by (simp add: unchanged_outside_def)

lemma unchanged_mono:
  "unchanged_outside lo hi s t \<Longrightarrow> lo' \<le> lo \<Longrightarrow> hi \<le> hi' \<Longrightarrow> unchanged_outside lo' hi' s t"
  by (auto simp: unchanged_outside_def)

lemma unchanged_wr32:
  "lo \<le> unat a \<Longrightarrow> unat a + 4 \<le> hi \<Longrightarrow> hi \<le> 4294967296 \<Longrightarrow> unchanged_outside lo hi s (wr32 s a v)"
  by (auto simp: unchanged_outside_def wr32_def intro!: store32_outside)

lemma unchanged_wr8:
  "lo \<le> unat a \<Longrightarrow> unat a < hi \<Longrightarrow> unchanged_outside lo hi s (wr8 s a v)"
  by (auto simp: unchanged_outside_def wr8_def store8_def)

lemma unchanged_fill_bytes:
  assumes "lo \<le> unat d" "unat d + unat n \<le> hi" "unat d + unat n \<le> 4294967296"
  shows "unchanged_outside lo hi s (fill_bytes d n v s)"
proof -
  have "lo \<le> unat x \<and> unat x < hi" if "unat (x - d) < unat n" for x
    using that assms by (auto simp: unat_sub_if' split: if_splits)
  then show ?thesis by (auto simp: unchanged_outside_def mem_fill_bytes)
qed

lemma unchanged_write_cr3 [simp]: "unchanged_outside lo hi s (write_cr3 v t) = unchanged_outside lo hi s t"
  by (simp add: unchanged_outside_def)

lemma unchanged_fold:
  assumes "\<And>x s. x \<in> set xs \<Longrightarrow> unchanged_outside lo hi s (f x s)"
  shows "unchanged_outside lo hi s (fold f xs s)"
  using assms by (induction xs arbitrary: s) (auto intro: unchanged_trans)

lemma rd32_unchanged:
  assumes "unchanged_outside lo hi s t" "unat b + 4 \<le> lo \<or> hi \<le> unat b" "unat b + 4 \<le> 4294967296"
  shows "rd32 t b = rd32 s b"
proof -
  have "mem t (b + j) = mem s (b + j)" if "j \<in> {0, 1, 2, 3}" for j
  proof -
    from that have j: "unat j \<le> 3" by auto
    with assms(3) have "unat (b + j) = unat b + unat j" by (simp add: u32_plus_no_wrap)
    with j assms(1,2) show ?thesis by (auto simp: unchanged_outside_def)
  qed
  from this [of 0] this [of 1] this [of 2] this [of 3] show ?thesis
    by (simp add: rd32_def load32_def)
qed

lemma rd32_zeroed:
  assumes "unat d \<le> unat a" "unat a + 4 \<le> unat d + unat n" "unat d + unat n \<le> 4294967296"
  shows "rd32 (zero_memory d n s) a = 0"
proof -
  have "mem (zero_memory d n s) (a + j) = 0" if "j \<in> {0, 1, 2, 3}" for j
  proof -
    from that have j: "unat j \<le> 3" by auto
    with assms have "unat (a + j) = unat a + unat j" by (simp add: u32_plus_no_wrap)
    with j assms have "unat (a + j - d) < unat n" by (simp add: u32_minus_no_wrap)
    then show ?thesis by (simp add: zero_memory_def mem_fill_bytes)
  qed
  from this [of 0] this [of 1] this [of 2] this [of 3] show ?thesis
    by (simp add: rd32_def load32_def)
qed

section \<open>Bytes in memory\<close>

primrec store_bytes :: "u32 \<Rightarrow> u8 list \<Rightarrow> machine \<Rightarrow> machine" where
  "store_bytes a [] s = s"
| "store_bytes a (c # cs) s = store_bytes (a + 1) cs (wr8 s a c)"

definition load_bytes :: "machine \<Rightarrow> u32 \<Rightarrow> nat \<Rightarrow> u8 list" where
  "load_bytes s a n = map (\<lambda>i. rd8 s (a + of_nat i)) [0..<n]"

lemma load_bytes_Suc: "load_bytes s a (Suc n) = rd8 s a # load_bytes s (a + 1) n"
  unfolding load_bytes_def upt_conv_Cons [OF zero_less_Suc] map_Suc_upt [symmetric]
  by (simp add: o_def algebra_simps)

lemma load_bytes_append: "load_bytes s a (i + j) = load_bytes s a i @ load_bytes s (a + of_nat i) j"
  by (induction i arbitrary: a) (simp_all add: load_bytes_Suc load_bytes_def [of _ _ 0] algebra_simps)

lemma load_bytes_0 [simp]: "load_bytes s a 0 = []"
  by (simp add: load_bytes_def)

lemma store_bytes_unchanged:
  assumes "lo \<le> unat a" "unat a + length cs \<le> hi" "hi \<le> 4294967296"
  shows "unchanged_outside lo hi s (store_bytes a cs s)"
  using assms
proof (induction cs arbitrary: a s)
  case (Cons c cs)
  have w: "unchanged_outside lo hi s (wr8 s a c)" using Cons.prems by (intro unchanged_wr8) simp_all
  show ?case
  proof (cases "cs = []")
    case False
    with Cons.prems have "unat (a + 1) = unat a + 1" by (cases cs) (simp_all add: u32_plus_no_wrap)
    with Cons show ?thesis using unchanged_trans [OF w] by simp
  qed (use w in simp)
qed simp

lemma load_store_bytes:
  assumes "unat a + length cs \<le> 4294967296"
  shows "load_bytes (store_bytes a cs s) a (length cs) = cs"
  using assms
proof (induction cs arbitrary: a s)
  case (Cons c cs)
  show ?case
  proof (cases "cs = []")
    case False
    with Cons.prems have a: "unat (a + 1) = unat a + 1" by (cases cs) (simp_all add: u32_plus_no_wrap)
    with Cons.prems have "unchanged_outside (unat a + 1) 4294967296 (wr8 s a c) (store_bytes (a + 1) cs (wr8 s a c))"
      by (intro store_bytes_unchanged) simp_all
    then have "rd8 (store_bytes (a + 1) cs (wr8 s a c)) a = c"
      by (simp add: unchanged_outside_def rd8_def wr8_def load8_def store8_def)
    with a Cons show ?thesis by (simp add: load_bytes_Suc)
  qed (simp add: load_bytes_Suc)
qed (simp add: load_bytes_def)

lemma store_bytes_fields [simp]:
  "port_in (store_bytes a cs s) = port_in s" "port_out (store_bytes a cs s) = port_out s"
  "cr0 (store_bytes a cs s) = cr0 s" "cr3 (store_bytes a cs s) = cr3 s" "cr4 (store_bytes a cs s) = cr4 s"
  by (induction cs arbitrary: a s) simp_all

lemma load_bytes_unchanged:
  assumes "unchanged_outside lo hi s s'" "unat a + n \<le> lo \<or> hi \<le> unat a" "unat a + n \<le> 4294967296"
  shows "load_bytes s' a n = load_bytes s a n"
proof -
  have "rd8 s' (a + of_nat i) = rd8 s (a + of_nat i)" if "i < n" for i
  proof -
    have "unat (a + of_nat i) = unat a + i"
      using that assms(3) by (subst u32_plus_no_wrap) (simp_all add: unat_u32_of_nat)
    with that assms show ?thesis by (auto simp: unchanged_outside_def rd8_def load8_def)
  qed
  then show ?thesis by (simp add: load_bytes_def)
qed

section \<open>Arrays of 32-bit words\<close>

text \<open>
  The contract of a C array: reading an element gives the last value written to it, and
  writing one leaves the others alone.  An array occupies \<open>4 * len\<close> bytes from \<open>base\<close> and
  must not wrap around the address space.
\<close>

locale dword_array =
  fixes base :: u32 and len :: nat
  assumes fits: "unat base + 4 * len \<le> 4294967296"
begin

lemma unat_elem: "unat i < len \<Longrightarrow> unat (base + 4 * i) = unat base + 4 * unat i"
  using fits by (simp add: u32_plus_no_wrap u32_mult_no_wrap)

lemma elem_apart: "unat i < len \<Longrightarrow> unat j < len \<Longrightarrow> i \<noteq> j \<Longrightarrow> apart4 (base + 4 * i) (base + 4 * j)"
proof -
  assume ij: "unat i < len" "unat j < len" "i \<noteq> j"
  then have "unat i < unat j \<or> unat j < unat i"
    by (metis linorder_neqE_nat word_unat_eq_iff)
  then show ?thesis
    using ij fits apart4_natI(1) [of "base + 4 * i" "base + 4 * j"]
      apart4_natI(2) [of "base + 4 * j" "base + 4 * i"]
    by (auto simp: unat_elem)
qed

lemma rd_wr_elem:
  "unat i < len \<Longrightarrow> unat j < len \<Longrightarrow>
   rd_elem (wr_elem s base i v) base j = (if j = i then v else rd_elem s base j)"
  using elem_apart [of i j] by (auto simp: rd_elem_def wr_elem_def rd32_wr32_other)

lemma unchanged_wr_elem:
  "unat i < len \<Longrightarrow> unchanged_outside (unat base) (unat base + 4 * len) s (wr_elem s base i v)"
  unfolding wr_elem_def using fits by (intro unchanged_wr32) (simp_all add: unat_elem)

lemma rd_fold_wr_elem:
  assumes "n \<le> len" "j < len"
  shows "rd_elem (fold (\<lambda>i s. wr_elem s base (of_nat i) (g i)) [0..<n] s) base (of_nat j)
    = (if j < n then g j else rd_elem s base (of_nat j))"
proof -
  have b: "len < 4294967296" using fits by linarith
  show ?thesis
    using assms(1)
  proof (induction n)
    case (Suc n)
    then have n: "n < len" by simp
    with b have u: "unat (of_nat n :: u32) < len" by (simp add: unat_u32_of_nat)
    have j: "unat (of_nat j :: u32) < len" using assms(2) b by (simp add: unat_u32_of_nat)
    have "(of_nat j :: u32) = of_nat n \<longleftrightarrow> j = n"
      using assms(2) n b by (intro u32_of_nat_inj) auto
    with Suc n show ?case by (auto simp: rd_wr_elem [OF u j] less_Suc_eq)
  qed simp
qed

lemma rd_elem_unchanged:
  assumes "unchanged_outside lo hi s t" "unat base + 4 * len \<le> lo \<or> hi \<le> unat base" "unat i < len"
  shows "rd_elem t base i = rd_elem s base i"
  unfolding rd_elem_def using assms fits
  by (intro rd32_unchanged [OF assms(1)]) (auto simp: unat_elem)

end

text \<open>A machine with cleared memory and registers, for concrete runs.\<close>

definition blank_machine :: machine where
  "blank_machine = \<lparr>mem = (\<lambda>_. 0), cr0 = 0, cr3 = 0, cr4 = 0, port_in = (\<lambda>_. 0), port_out = []\<rparr>"

end
