(* ===== verification/Bitmap.thy ===== *)
theory Bitmap
  imports Machine
begin

text \<open>
  Bitmaps over arrays of 32-bit words, the data structure that the frame allocator and the
  virtual memory manager share.  \<open>bit_mask k\<close> is \<^verbatim>\<open>1 << k\<close>; the three operations are
  the statements of \<open>FrameAllocator::mark_used\<close>, \<open>mark_free\<close> and the test in
  \<open>VMM::find_free_range\<close>, at a frame or page index.  The contract is the locale
  \<open>bitmap_ops\<close>; \<open>dword_bitmap\<close> shows that memory implements it.
\<close>

definition bit_mask :: "u32 \<Rightarrow> u32" where
  "bit_mask k = push_bit (unat k) 1"

definition bm_test :: "machine \<Rightarrow> u32 \<Rightarrow> u32 \<Rightarrow> bool" where
  "bm_test s base i \<longleftrightarrow> (rd_elem s base (i div 32) AND bit_mask (i mod 32)) \<noteq> 0"

definition bm_set :: "machine \<Rightarrow> u32 \<Rightarrow> u32 \<Rightarrow> machine" where
  "bm_set s base i =
     wr_elem s base (i div 32) (rd_elem s base (i div 32) OR bit_mask (i mod 32))"

definition bm_clear :: "machine \<Rightarrow> u32 \<Rightarrow> u32 \<Rightarrow> machine" where
  "bm_clear s base i =
     wr_elem s base (i div 32) (rd_elem s base (i div 32) AND NOT (bit_mask (i mod 32)))"

section \<open>The contract\<close>

locale bitmap_ops =
  fixes test :: "'s \<Rightarrow> u32 \<Rightarrow> bool"
    and mark :: "'s \<Rightarrow> u32 \<Rightarrow> 's"
    and unmark :: "'s \<Rightarrow> u32 \<Rightarrow> 's"
    and n :: nat
  assumes test_mark: "unat i < n \<Longrightarrow> unat j < n \<Longrightarrow> test (mark s i) j \<longleftrightarrow> j = i \<or> test s j"
    and test_unmark: "unat i < n \<Longrightarrow> unat j < n \<Longrightarrow> test (unmark s i) j \<longleftrightarrow> j \<noteq> i \<and> test s j"
begin

lemma test_mark_all:
  assumes "\<forall>i \<in> set is. unat i < n" "unat j < n"
  shows "test (fold (\<lambda>i s. mark s i) is s) j \<longleftrightarrow> j \<in> set is \<or> test s j"
  using assms by (induction "is" arbitrary: s) (auto simp: test_mark)

lemma test_unmark_all:
  assumes "\<forall>i \<in> set is. unat i < n" "unat j < n"
  shows "test (fold (\<lambda>i s. unmark s i) is s) j \<longleftrightarrow> j \<notin> set is \<and> test s j"
  using assms by (induction "is" arbitrary: s) (auto simp: test_unmark)

text \<open>Marking and unmarking the same indices gives back the bits, if they were clear.\<close>

lemma unmark_mark:
  assumes "\<forall>i \<in> set is. unat i < n \<and> \<not> test s i" "unat j < n"
  shows "test (fold (\<lambda>i s. unmark s i) is (fold (\<lambda>i s. mark s i) is s)) j \<longleftrightarrow> test s j"
  using assms by (auto simp: test_unmark_all test_mark_all)

end

section \<open>The implementation in memory\<close>

lemma bm_test_bit: "bm_test s base i \<longleftrightarrow> bit (rd_elem s base (i div 32)) (unat i mod 32)"
proof -
  have "(w AND push_bit k 1) = (if bit w k then push_bit k 1 else 0)" for w :: u32 and k
    by (rule bit_word_eqI) (auto simp: bit_simps bit_1_iff)
  moreover have "\<not> 32 \<le> unat i mod 32" by (simp add: not_le)
  ultimately show ?thesis by (simp add: bm_test_def bit_mask_def unat_mod)
qed

lemma u32_div_mod_eq: "(j :: u32) = i \<longleftrightarrow> j div 32 = i div 32 \<and> unat j mod 32 = unat i mod 32"
proof
  assume "j div 32 = i div 32 \<and> unat j mod 32 = unat i mod 32"
  then have "unat j div 32 = unat i div 32" "unat j mod 32 = unat i mod 32"
    by (simp_all add: word_unat_eq_iff unat_div)
  then have "unat j = unat i" by (metis div_mult_mod_eq)
  then show "j = i" by (simp add: word_unat_eq_iff)
qed simp

locale dword_bitmap = dword_array
begin

lemma word_index: "unat (i :: u32) < 32 * len \<Longrightarrow> unat (i div 32) < len"
  by (simp add: unat_div div_less_iff_less_mult mult.commute)

lemma bm_test_set:
  "unat i < 32 * len \<Longrightarrow> unat j < 32 * len \<Longrightarrow>
   bm_test (bm_set s base i) base j \<longleftrightarrow> j = i \<or> bm_test s base j"
  by (auto simp: bm_test_bit bm_set_def rd_wr_elem word_index bit_mask_def bit_simps bit_1_iff unat_mod
      u32_div_mod_eq [of j i])

lemma bm_test_clear:
  "unat i < 32 * len \<Longrightarrow> unat j < 32 * len \<Longrightarrow>
   bm_test (bm_clear s base i) base j \<longleftrightarrow> j \<noteq> i \<and> bm_test s base j"
  by (auto simp: bm_test_bit bm_clear_def rd_wr_elem word_index bit_mask_def bit_simps bit_1_iff unat_mod
      u32_div_mod_eq [of j i])

lemma bm_unchanged:
  assumes "unat i < 32 * len"
  shows "unchanged_outside (unat base) (unat base + 4 * len) s (bm_set s base i)"
    and "unchanged_outside (unat base) (unat base + 4 * len) s (bm_clear s base i)"
  by (simp_all add: bm_set_def bm_clear_def unchanged_wr_elem word_index assms)

lemma bm_test_unchanged:
  assumes "unchanged_outside lo hi s t" "unat base + 4 * len \<le> lo \<or> hi \<le> unat base"
    "unat i < 32 * len"
  shows "bm_test t base i \<longleftrightarrow> bm_test s base i"
  unfolding bm_test_def by (simp add: rd_elem_unchanged [OF assms(1,2) word_index [OF assms(3)]])

end

sublocale dword_bitmap \<subseteq> bitmap_ops "\<lambda>s. bm_test s base" "\<lambda>s. bm_set s base" "\<lambda>s. bm_clear s base" "32 * len"
  by unfold_locales (simp_all add: bm_test_set bm_test_clear)

lemma bm_fields [simp]:
  "cr0 (bm_set s b i) = cr0 s" "cr3 (bm_set s b i) = cr3 s" "cr4 (bm_set s b i) = cr4 s"
  "port_in (bm_set s b i) = port_in s" "port_out (bm_set s b i) = port_out s"
  "cr0 (bm_clear s b i) = cr0 s" "cr3 (bm_clear s b i) = cr3 s" "cr4 (bm_clear s b i) = cr4 s"
  "port_in (bm_clear s b i) = port_in s" "port_out (bm_clear s b i) = port_out s"
  by (simp_all add: bm_set_def bm_clear_def wr_elem_def)

end
