(* ===== verification/Paging.thy ===== *)
theory Paging
  imports Machine
begin

text \<open>
  \<^verbatim>\<open>arch/x86/paging\<close>: the two-level page tables.  The kernel keeps one page directory and
  the 1024 page tables in a fixed place, so under the invariant \<open>pd_wf\<close> the tables are one
  array of \<open>2 ^ 20\<close> entries.  \<open>walk\<close> is the translation the processor does with them; the
  theorems say what \<open>init\<close>, \<open>identity_map_range\<close>, \<open>map_range\<close> and \<open>unmap_range\<close> do to it.
\<close>

abbreviation PAGE_TABLE_COUNT :: u32 where "PAGE_TABLE_COUNT \<equiv> 1024"
abbreviation PAGE_TABLES_BASE :: u32 where "PAGE_TABLES_BASE \<equiv> 0x100000"
abbreviation PG_NOTPRESENT :: u32 where "PG_NOTPRESENT \<equiv> 0x00"
abbreviation PG_PRESENT :: u32 where "PG_PRESENT \<equiv> 0x01"
abbreviation PG_WRITE :: u32 where "PG_WRITE \<equiv> 0x02"

record page_directory =
  entries :: u32

section \<open>Operations\<close>

definition pd_init :: "u32 \<Rightarrow> machine \<Rightarrow> page_directory \<times> machine" where
  "pd_init dir_addr s =
     (let pd = \<lparr>entries = dir_addr\<rparr>;
          s = zero_memory (entries pd) PAGE_SIZE s;
          s = zero_memory PAGE_TABLES_BASE (PAGE_TABLE_COUNT * PAGE_SIZE) s;
          s = fold (\<lambda>i s. wr_elem s (entries pd) (of_nat i)
                 ((PAGE_TABLES_BASE + of_nat i * PAGE_SIZE) OR PG_PRESENT OR PG_WRITE))
               [0..<unat PAGE_TABLE_COUNT] s
      in (pd, s))"

definition page_table_of :: "page_directory \<Rightarrow> u32 \<Rightarrow> machine \<Rightarrow> u32" where
  "page_table_of pd virt s = rd_elem s (entries pd) (drop_bit 22 virt) AND NOT 0xFFF"

definition set_pte :: "page_directory \<Rightarrow> u32 \<Rightarrow> u32 \<Rightarrow> machine \<Rightarrow> machine" where
  "set_pte pd virt e s =
     wr_elem s (page_table_of pd virt s) (drop_bit 12 virt AND 0x3FF) e"

definition get_pte :: "page_directory \<Rightarrow> u32 \<Rightarrow> machine \<Rightarrow> u32" where
  "get_pte pd virt s = rd_elem s (page_table_of pd virt s) (drop_bit 12 virt AND 0x3FF)"

definition identity_map_range :: "page_directory \<Rightarrow> u32 \<Rightarrow> u32 \<Rightarrow> machine \<Rightarrow> machine" where
  "identity_map_range pd start end s =
     (let start = page_down start; end = page_up end
      in page_loop start end
           (\<lambda>addr s. set_pte pd addr (addr OR PG_PRESENT OR PG_WRITE) s) start s)"

definition pd_enable :: "page_directory \<Rightarrow> machine \<Rightarrow> machine" where
  "pd_enable pd s =
     (let s = write_cr3 (entries pd) s;
          s = write_cr0 (cr0 s OR 0x80000000) s
      in write_cr4 (cr4 s AND NOT 0x10) s)"

definition map_range :: "page_directory \<Rightarrow> u32 \<Rightarrow> u32 \<Rightarrow> u32 \<Rightarrow> machine \<Rightarrow> machine" where
  "map_range pd virt_start phys_start sz s =
     (let virt_start = page_down virt_start; phys_start = page_down phys_start;
          sz = page_up sz; virt_end = virt_start + sz
      in snd (page_loop 0 virt_end
                (\<lambda>virt (phys, s).
                   (phys + PAGE_SIZE, set_pte pd virt (phys OR PG_PRESENT OR PG_WRITE) s))
                virt_start (phys_start, s)))"

definition unmap_range :: "page_directory \<Rightarrow> u32 \<Rightarrow> u32 \<Rightarrow> machine \<Rightarrow> machine" where
  "unmap_range pd virt_start sz s =
     (let virt_start = page_down virt_start; sz = page_up sz;
          virt_end = virt_start + sz;
          s = page_loop 0 virt_end (\<lambda>virt s. set_pte pd virt PG_NOTPRESENT s) virt_start s
      in write_cr3 (entries pd) s)"

section \<open>Address translation\<close>

definition walk :: "machine \<Rightarrow> page_directory \<Rightarrow> u32 \<Rightarrow> u32 option" where
  "walk s pd va =
     (let pde = rd_elem s (entries pd) (drop_bit 22 va)
      in if pde AND PG_PRESENT = 0 then None
         else let pte = rd_elem s (pde AND NOT 0xFFF) (drop_bit 12 va AND 0x3FF)
              in if pte AND PG_PRESENT = 0 then None
                 else Some ((pte AND NOT 0xFFF) OR (va AND 0xFFF)))"

definition dir_placed :: "u32 \<Rightarrow> bool" where
  "dir_placed d \<longleftrightarrow> unat d + 4096 \<le> 0x100000 \<or> 0x500000 \<le> unat d \<and> unat d + 4096 \<le> 4294967296"

definition pd_wf :: "machine \<Rightarrow> page_directory \<Rightarrow> bool" where
  "pd_wf s pd \<longleftrightarrow> dir_placed (entries pd) \<and>
     (\<forall>i \<in> set [0..<1024]. rd_elem s (entries pd) (of_nat i)
        = (PAGE_TABLES_BASE + of_nat i * PAGE_SIZE) OR PG_PRESENT OR PG_WRITE)"

definition pte :: "machine \<Rightarrow> u32 \<Rightarrow> u32" where
  "pte s va = rd_elem s PAGE_TABLES_BASE (drop_bit 12 va)"

interpretation tables: dword_array PAGE_TABLES_BASE "2 ^ 20"
  by unfold_locales simp

lemma unat_vpn: "unat (drop_bit 12 (va :: u32)) = unat va div 4096"
  by (simp add: drop_bit_eq_div unat_div)

lemma vpn_bound: "unat (drop_bit 12 (va :: u32)) < 2 ^ 20"
  using unat_u32_lt [of va] by (simp add: unat_vpn div_less_iff_less_mult)

lemma unat_pde_idx: "unat (drop_bit 22 (va :: u32)) = unat va div 4194304"
  by (simp add: drop_bit_eq_div unat_div)

lemma pde_idx_bound: "unat (drop_bit 22 (va :: u32)) < 1024"
  using unat_u32_lt [of va] by (simp add: unat_pde_idx div_less_iff_less_mult)

lemma page_down_flags: "page_down (a OR PG_PRESENT OR PG_WRITE) = page_down a"
  by (simp add: page_down_def bit.conj_disj_distrib2)

lemma flags_present: "(a OR PG_PRESENT OR PG_WRITE) AND PG_PRESENT = 1"
  by (simp add: bit.conj_disj_distrib2)

lemma flags_3 [page_simps]: "page_down (a OR 3) = page_down a" "(a OR 3) AND 1 = 1"
  using page_down_flags [of a] flags_present [of a] by simp_all

lemma page_down_offset [page_simps]: "page_down a OR (a AND 0xFFF) = a"
proof -
  have "(a AND NOT 0xFFF) OR (a AND 0xFFF) = a AND (NOT 0xFFF OR 0xFFF)"
    by (simp only: bit.conj_disj_distrib)
  then show ?thesis by (simp add: page_down_def)
qed

lemma and_FFF: "unat (w AND 0xFFF :: u32) = unat w mod 4096"
proof -
  have "(0xFFF :: u32) = mask 12" by (simp add: mask_eq_exp_minus_1)
  then show ?thesis by (simp only: take_bit_eq_mask [symmetric] unsigned_take_bit_eq take_bit_eq_mod) (simp add: unat_mod)
qed

lemma unat_page_or:
  assumes "f < 1048576"
  shows "unat (page_addr f OR (w AND 0xFFF)) = 4096 * f + unat w mod 4096"
proof -
  let ?a = "of_nat (4096 * f + unat w mod 4096) :: u32"
  have lt: "4096 * f + unat w mod 4096 < 4294967296"
    using assms mod_less_divisor [of 4096 "unat w"] by linarith
  have a: "unat ?a = 4096 * f + unat w mod 4096" by (rule unat_u32_of_nat [OF lt])
  have "?a AND 0xFFF = w AND 0xFFF" by (simp only: word_unat_eq_iff and_FFF a) simp
  moreover have "page_down ?a = page_addr f" by (simp only: page_down_page_addr a) simp
  ultimately show ?thesis using page_down_offset [of ?a] a by simp
qed

lemma vpn_split: "drop_bit 12 va = drop_bit 22 va * 1024 + (drop_bit 12 va AND 0x3FF)" for va :: u32
proof -
  have m: "(0x3FF :: u32) = mask 10" by (simp add: mask_eq_exp_minus_1)
  have "drop_bit 12 va AND 0x3FF = drop_bit 12 va mod 1024"
    unfolding m by (simp flip: take_bit_eq_mask add: take_bit_eq_mod)
  moreover have "drop_bit 22 va = drop_bit 12 va div 1024"
  proof -
    have "drop_bit 22 va = drop_bit 10 (drop_bit 12 va)" by simp
    then show ?thesis by (simp only: drop_bit_eq_div [of 10]) simp
  qed
  ultimately show ?thesis by (simp add: div_mult_mod_eq)
qed

text \<open>Under the invariant the page tables are one array, indexed by the page number.\<close>

lemma pd_wf_table:
  assumes "pd_wf s pd"
  shows "page_table_of pd va s = PAGE_TABLES_BASE + drop_bit 22 va * PAGE_SIZE"
proof -
  let ?i = "unat (drop_bit 22 va)"
  have i: "?i \<in> set [0..<1024]" using pde_idx_bound [of va] by simp
  have "rd_elem s (entries pd) (drop_bit 22 va)
      = (PAGE_TABLES_BASE + drop_bit 22 va * PAGE_SIZE) OR PG_PRESENT OR PG_WRITE"
    using assms i unfolding pd_wf_def by (metis u32_of_nat_unat)
  then have "page_table_of pd va s = page_down (PAGE_TABLES_BASE + drop_bit 22 va * PAGE_SIZE)"
    unfolding page_table_of_def by (simp only: page_down_flags flip: page_down_def)
  also have "\<dots> = PAGE_TABLES_BASE + drop_bit 22 va * PAGE_SIZE"
    using pde_idx_bound [of va]
    by (intro page_down_id) (simp add: u32_plus_no_wrap u32_mult_no_wrap)
  finally show ?thesis .
qed

lemma pd_wf_elem:
  assumes "pd_wf s pd"
  shows "page_table_of pd va s + 4 * (drop_bit 12 va AND 0x3FF) = PAGE_TABLES_BASE + 4 * drop_bit 12 va"
  by (subst (2) vpn_split) (simp add: pd_wf_table [OF assms] algebra_simps)

lemma set_pte_eq: "pd_wf s pd \<Longrightarrow> set_pte pd va e s = wr_elem s PAGE_TABLES_BASE (drop_bit 12 va) e"
  by (simp add: set_pte_def wr_elem_def pd_wf_elem)

lemma get_pte_eq: "pd_wf s pd \<Longrightarrow> get_pte pd va s = pte s va"
  by (simp add: get_pte_def pte_def rd_elem_def pd_wf_elem)


lemma pte_unchanged:
  assumes "unchanged_outside lo hi s t" "0x500000 \<le> lo \<or> hi \<le> 0x100000"
  shows "pte t w = pte s w"
  using tables.rd_elem_unchanged [OF assms(1), of "drop_bit 12 w"] assms(2) unat_u32_lt [of w]
  by (simp add: pte_def unat_vpn div_less_iff_less_mult)

lemma pd_wf_unchanged:
  assumes "pd_wf s pd" "unchanged_outside lo hi s t"
    "unat (entries pd) + 4096 \<le> lo \<or> hi \<le> unat (entries pd)"
  shows "pd_wf t pd"
proof -
  from assms(1) have "dword_array (entries pd) 1024"
    by unfold_locales (auto simp: pd_wf_def dir_placed_def)
  then have "rd_elem t (entries pd) (of_nat i) = rd_elem s (entries pd) (of_nat i)"
    if "i < 1024" for i
    using that assms(2,3) by (intro dword_array.rd_elem_unchanged) (auto simp: unat_u32_of_nat)
  with assms(1) show ?thesis by (auto simp: pd_wf_def)
qed

lemma set_pte_unchanged:
  "pd_wf s pd \<Longrightarrow> unchanged_outside 0x100000 0x500000 s (set_pte pd va e s)"
  using tables.unchanged_wr_elem [OF vpn_bound] by (simp add: set_pte_eq)

lemma set_pte_wf: "pd_wf s pd \<Longrightarrow> pd_wf (set_pte pd va e s) pd"
  by (rule pd_wf_unchanged [OF _ set_pte_unchanged]) (auto simp: pd_wf_def dir_placed_def)

lemma pte_set_pte:
  "pd_wf s pd \<Longrightarrow> pte (set_pte pd va e s) w = (if unat w div 4096 = unat va div 4096 then e else pte s w)"
  using tables.rd_wr_elem [OF vpn_bound vpn_bound, of s va e w]
  by (simp add: set_pte_eq pte_def word_unat_eq_iff [of "drop_bit 12 w"] unat_vpn)

lemma set_pte_fields [simp]:
  "cr0 (set_pte pd va e s) = cr0 s" "cr3 (set_pte pd va e s) = cr3 s"
  "cr4 (set_pte pd va e s) = cr4 s" "port_in (set_pte pd va e s) = port_in s"
  "port_out (set_pte pd va e s) = port_out s"
  by (simp_all add: set_pte_def wr_elem_def)

lemma walk_pte:
  assumes "pd_wf s pd"
  shows "walk s pd va = (if pte s va AND PG_PRESENT = 0 then None
           else Some (page_down (pte s va) OR (va AND 0xFFF)))"
proof -
  have "unat (drop_bit 22 va) \<in> set [0..<1024]" using pde_idx_bound [of va] by simp
  then have "rd_elem s (entries pd) (drop_bit 22 va) AND PG_PRESENT = 1"
    using assms unfolding pd_wf_def by (metis flags_present u32_of_nat_unat)
  then show ?thesis
    using get_pte_eq [OF assms, of va]
    by (simp add: walk_def Let_def get_pte_def page_table_of_def page_down_def)
qed

section \<open>The contract of a page mapper\<close>

text \<open>
  What a client of the page tables relies on: setting the entry of a page changes that
  page's entry only, and keeps the mapper well formed.  The range operations are folds of
  it, proved here once.
\<close>

locale page_mapper =
  fixes setp :: "u32 \<Rightarrow> u32 \<Rightarrow> 's \<Rightarrow> 's"
    and getp :: "'s \<Rightarrow> u32 \<Rightarrow> u32"
    and wf :: "'s \<Rightarrow> bool"
  assumes setp_wf: "wf s \<Longrightarrow> wf (setp v e s)"
    and getp_setp: "wf s \<Longrightarrow>
      getp (setp v e s) w = (if unat w div 4096 = unat v div 4096 then e else getp s w)"
begin

lemma fold_setp:
  assumes "wf s" "q \<le> 1048576"
  shows "wf (fold (\<lambda>v s. setp v (g v) s) (map page_addr [p..<q]) s) \<and>
    getp (fold (\<lambda>v s. setp v (g v) s) (map page_addr [p..<q]) s) w =
      (if p \<le> unat w div 4096 \<and> unat w div 4096 < q then g (page_down w) else getp s w)"
  using assms(2)
proof (induction q)
  case 0
  with assms(1) show ?case by simp
next
  case (Suc q)
  show ?case
  proof (cases "p \<le> q")
    case True
    have "unat (page_addr q) div 4096 = q" using Suc.prems by (simp add: unat_page_addr)
    with True Suc show ?thesis
      by (auto simp: setp_wf getp_setp page_down_page_addr less_Suc_eq)
  next
    case False
    with assms(1) show ?thesis by auto
  qed
qed

lemma fold_setp_pair:
  assumes "wf s" "q \<le> 1048576"
  shows "fst (fold (\<lambda>v (r, s). (r + PAGE_SIZE, setp v (g r) s)) (map page_addr [p..<q]) (r, s))
      = r + page_addr (q - p) \<and>
    wf (snd (fold (\<lambda>v (r, s). (r + PAGE_SIZE, setp v (g r) s)) (map page_addr [p..<q]) (r, s))) \<and>
    getp (snd (fold (\<lambda>v (r, s). (r + PAGE_SIZE, setp v (g r) s)) (map page_addr [p..<q]) (r, s))) w =
      (if p \<le> unat w div 4096 \<and> unat w div 4096 < q
       then g (r + page_addr (unat w div 4096 - p)) else getp s w)"
  using assms(2)
proof (induction q)
  case 0
  with assms(1) show ?case by (simp add: page_addr_def)
next
  case (Suc q)
  show ?case
  proof (cases "p \<le> q")
    case True
    have "unat (page_addr q) div 4096 = q" using Suc.prems by (simp add: unat_page_addr)
    with True Suc show ?thesis
      by (auto simp: setp_wf getp_setp Suc_diff_le page_addr_Suc less_Suc_eq split_beta add.assoc)
  next
    case False
    with assms(1) show ?thesis by (auto simp: page_addr_def)
  qed
qed

end

interpretation pm: page_mapper "set_pte pd" pte "\<lambda>s. pd_wf s pd" for pd
  by unfold_locales (simp_all add: set_pte_wf pte_set_pte)

section \<open>What the operations do to the page tables\<close>

lemma identity_map_fold:
  "identity_map_range pd a b s =
     fold (\<lambda>v s. set_pte pd v (v OR PG_PRESENT OR PG_WRITE) s)
       (map page_addr [unat a div 4096..<unat (page_up b) div 4096]) s"
  by (simp add: identity_map_range_def page_loop_range)

lemma page_count_bound: "unat (a :: u32) div 4096 \<le> 1048576"
  using unat_u32_lt [of a] by linarith

lemma identity_map_wf: "pd_wf s pd \<Longrightarrow> pd_wf (identity_map_range pd a b s) pd"
  by (simp add: identity_map_fold pm.fold_setp page_count_bound)

lemma identity_map_pte:
  assumes "pd_wf s pd" "unat b \<le> 4294963200"
  shows "pte (identity_map_range pd a b s) w =
    (if unat a div 4096 \<le> unat w div 4096 \<and> unat w div 4096 < (unat b + 4095) div 4096
     then page_down w OR PG_PRESENT OR PG_WRITE else pte s w)"
  using pm.fold_setp [OF assms(1) page_count_bound [of "page_up b"],
      of "\<lambda>v. v OR PG_PRESENT OR PG_WRITE" "unat a div 4096" w] assms(2)
  by (simp add: identity_map_fold unat_page_up)

lemma fold_unchanged_wf:
  assumes "pd_wf s pd" "\<And>x s. pd_wf s pd \<Longrightarrow> pd_wf (f x s) pd"
    "\<And>x s. pd_wf s pd \<Longrightarrow> unchanged_outside 0x100000 0x500000 s (f x s)"
  shows "unchanged_outside 0x100000 0x500000 s (fold f xs s)"
  using assms(1)
proof (induction xs arbitrary: s)
  case (Cons x xs)
  have "unchanged_outside 0x100000 0x500000 (f x s) (fold f xs (f x s))"
    by (rule Cons.IH) (rule assms(2) [OF Cons.prems])
  with assms(3) [OF Cons.prems] show ?case by (auto intro: unchanged_trans)
qed simp

lemma identity_map_unchanged:
  "pd_wf s pd \<Longrightarrow> unchanged_outside 0x100000 0x500000 s (identity_map_range pd a b s)"
  unfolding identity_map_fold
  by (rule fold_unchanged_wf) (auto intro: set_pte_wf set_pte_unchanged)

text \<open>The page range of \<open>map_range\<close> and \<open>unmap_range\<close>, when it ends below 4 GiB.\<close>

definition range_fits :: "u32 \<Rightarrow> u32 \<Rightarrow> bool" where
  "range_fits virt sz \<longleftrightarrow> unat sz \<le> 4294963200 \<and>
     4096 * (unat virt div 4096) + 4096 * ((unat sz + 4095) div 4096) < 4294967296"

definition in_pages :: "u32 \<Rightarrow> u32 \<Rightarrow> u32 \<Rightarrow> bool" where
  "in_pages virt sz w \<longleftrightarrow> unat virt div 4096 \<le> unat w div 4096 \<and>
     unat w div 4096 < unat virt div 4096 + (unat sz + 4095) div 4096"

lemma range_end:
  assumes "range_fits virt sz"
  shows "unat (page_down virt + page_up sz) div 4096 = unat virt div 4096 + (unat sz + 4095) div 4096"
proof -
  have "unat (page_down virt + page_up sz)
      = 4096 * (unat virt div 4096) + 4096 * ((unat sz + 4095) div 4096)"
    using assms unfolding range_fits_def by (simp add: u32_plus_no_wrap unat_page_down unat_page_up)
  then show ?thesis by simp
qed

lemma page_loop_from:
  "page_loop 0 hi f (page_down a) s = fold f (map page_addr [unat a div 4096..<unat hi div 4096]) s"
proof -
  have "unat a div 4096 < 1048576"
    using unat_u32_lt [of a] by (simp add: div_less_iff_less_mult)
  then show ?thesis unfolding page_down_page_addr by (intro page_loop_fold) simp_all
qed

lemma map_range_fold:
  "map_range pd virt phys sz s = snd (fold
     (\<lambda>v (r, s). (r + PAGE_SIZE, set_pte pd v (r OR PG_PRESENT OR PG_WRITE) s))
     (map page_addr [unat virt div 4096..<unat (page_down virt + page_up sz) div 4096])
     (page_down phys, s))"
  by (simp add: map_range_def page_loop_from)

lemma map_range_wf: "pd_wf s pd \<Longrightarrow> pd_wf (map_range pd virt phys sz s) pd"
  by (simp add: map_range_fold pm.fold_setp_pair page_count_bound)

lemma map_range_pte:
  assumes "pd_wf s pd" "range_fits virt sz"
  shows "pte (map_range pd virt phys sz s) w =
    (if in_pages virt sz w
     then (page_down phys + page_addr (unat w div 4096 - unat virt div 4096)) OR PG_PRESENT OR PG_WRITE
     else pte s w)"
  using pm.fold_setp_pair [OF assms(1) page_count_bound [of "page_down virt + page_up sz"],
      of "\<lambda>r. r OR PG_PRESENT OR PG_WRITE" "unat virt div 4096" "page_down phys" w]
  by (simp add: map_range_fold range_end [OF assms(2)] in_pages_def)

lemma map_range_unchanged:
  assumes "pd_wf s pd"
  shows "unchanged_outside 0x100000 0x500000 s (map_range pd virt phys sz s)"
proof -
  have "pd_wf (snd (fold (\<lambda>v (r, s). (r + PAGE_SIZE, set_pte pd v (g r) s)) vs (r, s))) pd \<and>
    unchanged_outside 0x100000 0x500000 s
      (snd (fold (\<lambda>v (r, s). (r + PAGE_SIZE, set_pte pd v (g r) s)) vs (r, s)))" for g vs r
    using assms
    by (induction vs arbitrary: r s) (auto intro: set_pte_wf unchanged_trans [OF set_pte_unchanged])
  then show ?thesis by (simp add: map_range_fold)
qed

lemma unmap_range_fold:
  "unmap_range pd virt sz s = write_cr3 (entries pd) (fold (\<lambda>v s. set_pte pd v PG_NOTPRESENT s)
     (map page_addr [unat virt div 4096..<unat (page_down virt + page_up sz) div 4096]) s)"
  by (simp add: unmap_range_def page_loop_from)

lemma pte_write_cr3 [simp]: "pte (write_cr3 v s) w = pte s w"
  by (simp add: pte_def rd_elem_def)

lemma pd_wf_write_cr3 [simp]: "pd_wf (write_cr3 v s) pd = pd_wf s pd"
  by (simp add: pd_wf_def rd_elem_def)

lemma unmap_range_wf: "pd_wf s pd \<Longrightarrow> pd_wf (unmap_range pd virt sz s) pd"
  by (simp add: unmap_range_fold pm.fold_setp page_count_bound)

lemma unmap_range_pte:
  assumes "pd_wf s pd" "range_fits virt sz"
  shows "pte (unmap_range pd virt sz s) w = (if in_pages virt sz w then PG_NOTPRESENT else pte s w)"
  using pm.fold_setp [OF assms(1) page_count_bound [of "page_down virt + page_up sz"],
      of "\<lambda>v. PG_NOTPRESENT" "unat virt div 4096" w]
  by (simp add: unmap_range_fold range_end [OF assms(2)] in_pages_def)

lemma unmap_range_unchanged:
  "pd_wf s pd \<Longrightarrow> unchanged_outside 0x100000 0x500000 s (unmap_range pd virt sz s)"
  unfolding unmap_range_fold unchanged_write_cr3
  by (rule fold_unchanged_wf) (auto intro: set_pte_wf set_pte_unchanged)

subsection \<open>Initialisation\<close>

lemma pd_init_eq:
  "pd_init d s = (\<lparr>entries = d\<rparr>,
     fold (\<lambda>i s. wr_elem s d (of_nat i) ((PAGE_TABLES_BASE + of_nat i * PAGE_SIZE) OR PG_PRESENT OR PG_WRITE))
       [0..<1024] (zero_memory PAGE_TABLES_BASE 0x400000 (zero_memory d PAGE_SIZE s)))"
  by (simp add: pd_init_def)

lemma dir_array: "dir_placed d \<Longrightarrow> dword_array d 1024"
  by unfold_locales (auto simp: dir_placed_def)

lemma pd_init_wf:
  assumes "dir_placed d"
  shows "pd_wf (snd (pd_init d s)) (fst (pd_init d s))"
  using assms
  by (auto simp: pd_wf_def pd_init_eq dword_array.rd_fold_wr_elem [OF dir_array [OF assms]])

lemma pd_init_pte:
  assumes "dir_placed d"
  shows "pte (snd (pd_init d s)) va = 0"
proof -
  let ?z = "zero_memory PAGE_TABLES_BASE 0x400000 (zero_memory d PAGE_SIZE s)"
  have "unchanged_outside (unat d) (unat d + 4 * 1024) ?z (snd (pd_init d s))"
    unfolding pd_init_eq snd_conv
    by (intro unchanged_fold dword_array.unchanged_wr_elem [OF dir_array [OF assms]])
      (simp add: unat_u32_of_nat)
  then have "pte (snd (pd_init d s)) va = pte ?z va"
    unfolding pte_def using assms vpn_bound [of va]
    by (intro tables.rd_elem_unchanged) (auto simp: dir_placed_def)
  also have "\<dots> = 0"
    unfolding pte_def rd_elem_def using tables.unat_elem [OF vpn_bound, of va] vpn_bound [of va]
    by (intro rd32_zeroed) simp_all
  finally show ?thesis .
qed

lemma fst_pd_init [simp]: "fst (pd_init d s) = \<lparr>entries = d\<rparr>"
  by (simp add: pd_init_eq)

lemma pd_init_unchanged:
  assumes "dir_placed d" "unat d \<le> 0x100000"
  shows "unchanged_outside (unat d) 0x500000 s (snd (pd_init d s))"
proof -
  let ?z = "zero_memory PAGE_TABLES_BASE 0x400000 (zero_memory d PAGE_SIZE s)"
  have "unchanged_outside (unat d) 0x500000 s (zero_memory d PAGE_SIZE s)"
    unfolding zero_memory_def using assms by (intro unchanged_fill_bytes) (auto simp: dir_placed_def)
  also have "unchanged_outside (unat d) 0x500000 (zero_memory d PAGE_SIZE s) ?z"
    unfolding zero_memory_def using assms(2) by (intro unchanged_fill_bytes) auto
  also have "unchanged_outside (unat d) 0x500000 ?z (snd (pd_init d s))"
    unfolding pd_init_eq snd_conv using assms
    by (intro unchanged_fold unchanged_mono [OF dword_array.unchanged_wr_elem [OF dir_array [OF assms(1)]]])
      (auto simp: unat_u32_of_nat dir_placed_def)
  finally show ?thesis .
qed

text \<open>The tables as the kernel first sets them up, for concrete runs.\<close>

definition boot_pd :: page_directory where
  "boot_pd = \<lparr>entries = 0x9C000\<rparr>"

definition boot_tables :: machine where
  "boot_tables = snd (pd_init 0x9C000 blank_machine)"

lemma boot_tables_wf: "pd_wf boot_tables boot_pd"
  using pd_init_wf [of "0x9C000" blank_machine]
  by (simp add: boot_tables_def boot_pd_def dir_placed_def)

section \<open>Properties\<close>

text \<open>
  \<open>PageDirectory::init\<close> on a directory placed outside the page tables establishes the
  page-directory invariant, and no virtual address is mapped afterwards.
\<close>

theorem pd_init_spec:
  assumes "dir_placed d"
  shows "pd_wf (snd (pd_init d s)) (fst (pd_init d s)) \<and>
    walk (snd (pd_init d s)) (fst (pd_init d s)) va = None"
  using pd_init_wf [OF assms] by (simp add: walk_pte pd_init_pte [OF assms])

theorem pd_init_spec_witness:
  "dir_placed 0x9C000 \<and>
   walk (snd (pd_init 0x9C000 blank_machine)) (fst (pd_init 0x9C000 blank_machine)) 0xC0000000 = None"
proof -
  have h: "dir_placed 0x9C000" by (simp add: dir_placed_def)
  show ?thesis using h pd_init_spec [OF h] by blast
qed

text \<open>
  \<open>identity_map_range(start, end)\<close>, for an \<open>end\<close> of at most \<open>0xFFFFF000\<close>, makes every
  address of the pages that meet the range translate to itself, leaves every other
  translation and every byte outside the page tables alone, and keeps the invariant.
\<close>

theorem identity_map_range_walk:
  assumes "pd_wf s pd" "unat b \<le> 0xFFFFF000"
  shows "pd_wf (identity_map_range pd a b s) pd \<and>
    unchanged_outside 0x100000 0x500000 s (identity_map_range pd a b s) \<and>
    walk (identity_map_range pd a b s) pd w =
      (if unat a div 4096 \<le> unat w div 4096 \<and> unat w div 4096 < (unat b + 4095) div 4096
       then Some w else walk s pd w)"
  using assms
  by (simp add: identity_map_wf identity_map_unchanged walk_pte identity_map_pte page_simps)

theorem identity_map_range_walk_witness:
  "pd_wf boot_tables boot_pd \<and>
   walk (identity_map_range boot_pd 0 0x100000 boot_tables) boot_pd 0xB8123 = Some 0xB8123"
  using boot_tables_wf identity_map_range_walk [OF boot_tables_wf, of "0x100000" 0 "0xB8123"]
  by simp

text \<open>
  Any \<open>end\<close> above \<open>0xFFFFF000\<close>, in particular the clamped end \<open>0xFFFFFFFF\<close> of a region
  that reaches 4 GiB, rounds up to 0, and \<open>identity_map_range\<close> maps nothing at all.
\<close>

theorem identity_map_range_wraps:
  assumes "0xFFFFF000 < unat b"
  shows "identity_map_range pd a b s = s"
  using assms by (simp add: identity_map_fold page_up_wraps)

theorem identity_map_range_wraps_witness:
  "0xFFFFF000 < unat (0xFFFFFFFF :: u32) \<and>
   identity_map_range boot_pd 0xF0000000 0xFFFFFFFF boot_tables = boot_tables"
  using identity_map_range_wraps [of "0xFFFFFFFF" boot_pd "0xF0000000" boot_tables] by simp

text \<open>
  C15. \<open>map_range(virt, phys, size)\<close>, for a range that ends below 4 GiB, maps the \<open>k\<close>-th page
  of the virtual range to the \<open>k\<close>-th page of the physical one, leaves every other
  translation and every byte outside the page tables alone, and keeps the invariant.
\<close>

theorem map_range_walk:
  assumes "pd_wf s pd" "range_fits virt sz"
  shows "pd_wf (map_range pd virt phys sz s) pd \<and>
    unchanged_outside 0x100000 0x500000 s (map_range pd virt phys sz s) \<and>
    walk (map_range pd virt phys sz s) pd w =
      (if in_pages virt sz w
       then Some ((page_down phys + page_addr (unat w div 4096 - unat virt div 4096)) OR (w AND 0xFFF))
       else walk s pd w)"
  using assms
  by (simp add: map_range_wf map_range_unchanged walk_pte map_range_pte page_simps)

theorem map_range_walk_witness:
  "pd_wf boot_tables boot_pd \<and> range_fits 0xC0000000 0x400000 \<and>
   walk (map_range boot_pd 0xC0000000 0 0x400000 boot_tables) boot_pd 0xC00B8123 = Some 0xB8123"
proof -
  have h: "range_fits 0xC0000000 0x400000" by (simp add: range_fits_def)
  show ?thesis
    using boot_tables_wf h map_range_walk [OF boot_tables_wf h, of 0 "0xC00B8123"]
    by (simp add: in_pages_def page_addr_def page_down_def)
qed

text \<open>
  C16. \<open>unmap_range\<close> removes the translation of every page of the range and of no other page,
  keeps the invariant and the memory outside the page tables, and reloads CR3.
\<close>

theorem unmap_range_walk:
  assumes "pd_wf s pd" "range_fits virt sz"
  shows "pd_wf (unmap_range pd virt sz s) pd \<and>
    unchanged_outside 0x100000 0x500000 s (unmap_range pd virt sz s) \<and>
    cr3 (unmap_range pd virt sz s) = entries pd \<and>
    walk (unmap_range pd virt sz s) pd w = (if in_pages virt sz w then None else walk s pd w)"
  using assms
  by (simp add: unmap_range_wf unmap_range_unchanged walk_pte unmap_range_pte)
    (simp add: unmap_range_def write_cr3_def Let_def)

theorem unmap_range_walk_witness:
  "walk (map_range boot_pd 0xC0000000 0 0x2000 boot_tables) boot_pd 0xC0000123 = Some 0x123 \<and>
   walk (unmap_range boot_pd 0xC0000000 0x1000 (map_range boot_pd 0xC0000000 0 0x2000 boot_tables))
     boot_pd 0xC0000123 = None"
proof -
  let ?s = "map_range boot_pd 0xC0000000 0 0x2000 boot_tables"
  have wf: "pd_wf ?s boot_pd" by (rule map_range_wf [OF boot_tables_wf])
  have h: "range_fits 0xC0000000 0x1000" by (simp add: range_fits_def)
  have "pte ?s 0xC0000123 = 3"
    using map_range_pte [OF boot_tables_wf, of "0xC0000000" "0x2000"]
    by (simp add: range_fits_def in_pages_def page_addr_def page_down_def)
  then show ?thesis
    using unmap_range_walk [OF wf h, of "0xC0000123"] walk_pte [OF wf, of "0xC0000123"]
    by (simp add: in_pages_def page_down_def)
qed

end
