(* ===== verification/Memory_Map.thy ===== *)
theory Memory_Map
  imports Paging
begin

text \<open>
  \<^verbatim>\<open>arch/x86/memory/memory_map\<close> and the boot information it reads: the E820 table, an
  array of packed 20-byte entries left in low memory by the boot loader.  The table is read
  from memory entry by entry, as the code does; \<open>usable_frame\<close> is the set of page frames
  that an entry contributes after the rounding of the code.
\<close>

abbreviation BIOS_BASE :: u32 where "BIOS_BASE \<equiv> 0x000000"
abbreviation PAGE_BASE :: u32 where "PAGE_BASE \<equiv> 0x100000"
abbreviation BITMAP_BASE :: u32 where "BITMAP_BASE \<equiv> 0x500000"
abbreviation KERNEL_VMA :: u32 where "KERNEL_VMA \<equiv> 0xC0000000"
abbreviation HIGHEST_USABLE_ADDR :: u32 where "HIGHEST_USABLE_ADDR \<equiv> 0xFFFFFFFF"
abbreviation E820_TYPE_USABLE :: u32 where "E820_TYPE_USABLE \<equiv> 1"

record e820_entry =
  e820_base :: u64
  e820_length :: u64
  e820_type :: u32

record memory_map =
  mm_entries :: u32
  mm_count :: u32

definition mm_init :: "u32 \<Rightarrow> u32 \<Rightarrow> memory_map" where
  "mm_init table entry_count = \<lparr>mm_entries = table, mm_count = entry_count\<rparr>"

definition read_e820 :: "machine \<Rightarrow> u32 \<Rightarrow> e820_entry" where
  "read_e820 s p =
     \<lparr>e820_base = rd64 s p, e820_length = rd64 s (p + 8), e820_type = rd32 s (p + 16)\<rparr>"

definition mm_entry :: "machine \<Rightarrow> memory_map \<Rightarrow> nat \<Rightarrow> e820_entry" where
  "mm_entry s mm i = read_e820 s (mm_entries mm + 20 * of_nat i)"

definition clamp :: "u64 \<Rightarrow> u32" where
  "clamp addr = (if addr > ucast HIGHEST_USABLE_ADDR then HIGHEST_USABLE_ADDR else ucast addr)"

definition map_usable_entry :: "memory_map \<Rightarrow> page_directory \<Rightarrow> nat \<Rightarrow> machine \<Rightarrow> machine" where
  "map_usable_entry mm pd i s =
     (let entry = mm_entry s mm i
      in if e820_type entry \<noteq> E820_TYPE_USABLE then s
         else let base = ucast (e820_base entry);
                  end64 = e820_base entry + e820_length entry;
                  end = clamp end64
              in identity_map_range pd base end s)"

definition identity_map_usable :: "memory_map \<Rightarrow> page_directory \<Rightarrow> machine \<Rightarrow> machine" where
  "identity_map_usable mm pd s = fold (map_usable_entry mm pd) [0..<unat (mm_count mm)] s"

section \<open>Specification\<close>

definition usable_frame :: "e820_entry \<Rightarrow> nat \<Rightarrow> bool" where
  "usable_frame e n \<longleftrightarrow> e820_type e = E820_TYPE_USABLE \<and>
     unat (ucast (e820_base e) :: u32) div 4096 \<le> n \<and>
     n < unat (page_up (clamp (e820_base e + e820_length e))) div 4096"

text \<open>The table lies below 1 MiB, where the second stage of the boot loader puts it.\<close>

definition mm_low :: "memory_map \<Rightarrow> bool" where
  "mm_low mm \<longleftrightarrow> unat (mm_entries mm) + 20 * unat (mm_count mm) \<le> 0x100000"

lemma clamp_small: "unat x \<le> 0xFFFFFFFF \<Longrightarrow> unat (clamp x) = unat x"
  by (simp add: clamp_def word_less_nat_alt unat_ucast_u64_u32)

lemma clamp_large: "0xFFFFFFFF < unat x \<Longrightarrow> clamp x = HIGHEST_USABLE_ADDR"
  by (simp add: clamp_def word_less_nat_alt)

lemma mm_entry_addr:
  assumes "mm_low mm" "i < unat (mm_count mm)"
  shows "unat (mm_entries mm + 20 * of_nat i) = unat (mm_entries mm) + 20 * i"
    and "unat (mm_entries mm) + 20 * i + 20 \<le> 0x100000"
proof -
  show b: "unat (mm_entries mm) + 20 * i + 20 \<le> 0x100000"
    using assms by (simp add: mm_low_def)
  have "unat (20 * of_nat i :: u32) = 20 * i"
    using b by (simp add: u32_mult_no_wrap unat_u32_of_nat)
  with b show "unat (mm_entries mm + 20 * of_nat i) = unat (mm_entries mm) + 20 * i"
    by (simp add: u32_plus_no_wrap)
qed

lemma mm_entry_unchanged:
  assumes "unchanged_outside lo hi s t" "unat (mm_entries mm) + 20 * unat (mm_count mm) \<le> lo"
    "mm_low mm" "i < unat (mm_count mm)"
  shows "mm_entry t mm i = mm_entry s mm i"
proof -
  let ?p = "mm_entries mm + 20 * of_nat i"
  have p: "unat ?p + 20 \<le> lo" "unat ?p + 20 \<le> 0x100000"
    using mm_entry_addr [OF assms(3,4)] assms(2,4) by simp_all
  have "rd32 t (?p + j) = rd32 s (?p + j)" if "unat j \<le> 16" for j
    using p that assms(2) by (intro rd32_unchanged [OF assms(1)]) (simp_all add: u32_plus_no_wrap)
  from this [of 0] this [of 4] this [of 8] this [of 12] this [of 16]
  show ?thesis by (simp add: mm_entry_def read_e820_def rd64_def add.assoc)
qed

lemma map_usable_entry_walk:
  assumes "pd_wf s pd"
  shows "pd_wf (map_usable_entry mm pd i s) pd \<and>
    unchanged_outside 0x100000 0x500000 s (map_usable_entry mm pd i s) \<and>
    walk (map_usable_entry mm pd i s) pd w =
      (if usable_frame (mm_entry s mm i) (unat w div 4096) then Some w else walk s pd w)"
proof (cases "e820_type (mm_entry s mm i) = E820_TYPE_USABLE")
  case True
  let ?e = "mm_entry s mm i"
  let ?b = "clamp (e820_base ?e + e820_length ?e)"
  have "map_usable_entry mm pd i s = identity_map_range pd (ucast (e820_base ?e)) ?b s"
    using True by (simp add: map_usable_entry_def Let_def)
  moreover have "walk (identity_map_range pd (ucast (e820_base ?e)) ?b s) pd w =
      (if usable_frame ?e (unat w div 4096) then Some w else walk s pd w)"
    using pm.fold_setp [OF assms page_count_bound [of "page_up ?b"],
        of "\<lambda>v. v OR PG_PRESENT OR PG_WRITE" "unat (ucast (e820_base ?e) :: u32) div 4096" w] True
    by (simp add: assms identity_map_wf walk_pte identity_map_fold usable_frame_def page_simps)
  ultimately show ?thesis
    using assms by (simp add: identity_map_wf identity_map_unchanged)
next
  case False
  with assms show ?thesis by (simp add: map_usable_entry_def usable_frame_def)
qed

lemma map_usable_prefix:
  assumes "pd_wf s pd" "mm_low mm" "k \<le> unat (mm_count mm)"
  shows "pd_wf (fold (map_usable_entry mm pd) [0..<k] s) pd \<and>
    unchanged_outside 0x100000 0x500000 s (fold (map_usable_entry mm pd) [0..<k] s) \<and>
    walk (fold (map_usable_entry mm pd) [0..<k] s) pd w =
      (if \<exists>i < k. usable_frame (mm_entry s mm i) (unat w div 4096) then Some w else walk s pd w)"
  using assms(3)
proof (induction k)
  case 0
  with assms(1) show ?case by simp
next
  case (Suc k)
  let ?t = "fold (map_usable_entry mm pd) [0..<k] s"
  from Suc have IH: "pd_wf ?t pd" "unchanged_outside 0x100000 0x500000 s ?t" by auto
  have e: "mm_entry ?t mm k = mm_entry s mm k"
    using Suc.prems assms(2) by (intro mm_entry_unchanged [OF IH(2)]) (auto simp: mm_low_def)
  have "unchanged_outside 0x100000 0x500000 s (map_usable_entry mm pd k ?t)"
    using map_usable_entry_walk [OF IH(1)] by (blast intro: unchanged_trans [OF IH(2)])
  with Suc show ?case
    using map_usable_entry_walk [OF IH(1), of mm k w] by (auto simp: e less_Suc_eq)
qed

section \<open>Properties\<close>

text \<open>
  \<open>MemoryMap::identity_map_usable\<close> makes an address translate to itself if its page meets
  a usable E820 entry (as the code rounds and clamps it), and leaves every other translation
  alone; it writes the page tables only.
\<close>

theorem identity_map_usable_walk:
  assumes "pd_wf s pd" "mm_low mm"
  shows "pd_wf (identity_map_usable mm pd s) pd \<and>
    unchanged_outside 0x100000 0x500000 s (identity_map_usable mm pd s) \<and>
    walk (identity_map_usable mm pd s) pd w =
      (if \<exists>i < unat (mm_count mm). usable_frame (mm_entry s mm i) (unat w div 4096)
       then Some w else walk s pd w)"
  unfolding identity_map_usable_def
  by (rule map_usable_prefix [OF assms order_refl])

text \<open>
  A boot image for concrete runs: one usable entry of 2 MiB at 6 MiB, at address \<open>0x8000\<close>.
\<close>

definition boot_map :: memory_map where
  "boot_map = mm_init 0x8000 1"

definition e820_machine :: machine where
  "e820_machine = blank_machine\<lparr>mem := (\<lambda>_. 0)(0x8002 := 0x60, 0x800A := 0x20, 0x8010 := 1)\<rparr>"

lemma boot_map_fields [simp]: "mm_entries boot_map = 0x8000" "mm_count boot_map = 1"
  by (simp_all add: boot_map_def mm_init_def)

lemma boot_map_low: "mm_low boot_map"
  by (simp add: mm_low_def boot_map_def mm_init_def)

lemma e820_machine_entry:
  "mm_entry e820_machine boot_map 0 =
     \<lparr>e820_base = 0x600000, e820_length = 0x200000, e820_type = E820_TYPE_USABLE\<rparr>"
  by (simp add: mm_entry_def read_e820_def e820_machine_def boot_map_def mm_init_def rd64_def rd32_def
      load32_def)

theorem identity_map_usable_walk_witness:
  "pd_wf (snd (pd_init 0x9C000 e820_machine)) boot_pd \<and> mm_low boot_map \<and>
   walk (identity_map_usable boot_map boot_pd (snd (pd_init 0x9C000 e820_machine))) boot_pd 0x7FFABC
     = Some 0x7FFABC"
proof -
  let ?s = "snd (pd_init 0x9C000 e820_machine)"
  have d: "dir_placed 0x9C000" by (simp add: dir_placed_def)
  have wf: "pd_wf ?s boot_pd" using pd_init_wf [OF d] by (simp add: boot_pd_def)
  have "mm_entry ?s boot_map 0 = mm_entry e820_machine boot_map 0"
    by (rule mm_entry_unchanged [OF pd_init_unchanged [OF d] _ boot_map_low])
      (simp_all add: boot_map_def mm_init_def)
  then have "usable_frame (mm_entry ?s boot_map 0) (unat (0x7FFABC :: u32) div 4096)"
    by (simp add: e820_machine_entry usable_frame_def clamp_def unat_page_up)
  then show ?thesis
    using wf boot_map_low identity_map_usable_walk [OF wf boot_map_low, of "0x7FFABC"]
    by (auto simp: boot_map_def mm_init_def)
qed

end
