(* ===== verification/Frame_Alloc.thy ===== *)
theory Frame_Alloc
  imports Bitmap Memory_Map
begin

text \<open>
  \<^verbatim>\<open>arch/x86/memory/frame_alloc\<close>: the physical page-frame allocator.  One bit per frame,
  1 for used, in a bitmap placed at \<open>BITMAP_BASE\<close>.  \<open>fa_used\<close> reads the bitmap as a set of
  frame numbers; the interface \<open>frame_provider\<close> is what the heap and the virtual memory
  manager rely on.
\<close>

record frame_allocator =
  bitmap :: u32
  total_frames :: u32
  bitmap_size :: u32

section \<open>Operations\<close>

definition get_frame_number :: "u32 \<Rightarrow> u32" where
  "get_frame_number addr = addr div PAGE_SIZE"

definition fa_mark_used :: "frame_allocator \<Rightarrow> u32 \<Rightarrow> machine \<Rightarrow> machine" where
  "fa_mark_used fa addr s = bm_set s (bitmap fa) (get_frame_number addr)"

definition fa_mark_free :: "frame_allocator \<Rightarrow> u32 \<Rightarrow> machine \<Rightarrow> machine" where
  "fa_mark_free fa addr s = bm_clear s (bitmap fa) (get_frame_number addr)"

definition fa_mark :: "frame_allocator \<Rightarrow> u32 \<Rightarrow> u32 \<Rightarrow> bool \<Rightarrow> machine \<Rightarrow> machine" where
  "fa_mark fa start end mark_free s =
     (let start = page_down start; end = page_up end
      in page_loop start end
           (\<lambda>addr s. if mark_free then fa_mark_free fa addr s else fa_mark_used fa addr s) start s)"

definition mark_range_used :: "frame_allocator \<Rightarrow> u32 \<Rightarrow> u32 \<Rightarrow> machine \<Rightarrow> machine" where
  "mark_range_used fa start end s = fa_mark fa start end False s"

definition mark_range_free :: "frame_allocator \<Rightarrow> u32 \<Rightarrow> u32 \<Rightarrow> machine \<Rightarrow> machine" where
  "mark_range_free fa start end s = fa_mark fa start end True s"

definition free_frame :: "frame_allocator \<Rightarrow> u32 \<Rightarrow> machine \<Rightarrow> machine" where
  "free_frame fa addr s = fa_mark_free fa addr s"

text \<open>The inner and the outer loop of \<open>alloc_frame\<close>.\<close>

function first_free_bit :: "u32 \<Rightarrow> u32 \<Rightarrow> u32 option" where
  "first_free_bit w j =
     (if j < 32 then if w AND bit_mask j = 0 then Some j else first_free_bit w (j + 1) else None)"
  by pat_completeness auto
termination
  by (relation "measure (\<lambda>(w, j). 32 - unat j)") (auto simp: u32_less_iff u32_plus_no_wrap)

function alloc_frame_from :: "frame_allocator \<Rightarrow> u32 \<Rightarrow> machine \<Rightarrow> u32 \<times> machine" where
  "alloc_frame_from fa i s =
     (if i < bitmap_size fa div 4
      then if rd_elem s (bitmap fa) i = 0xFFFFFFFF then alloc_frame_from fa (i + 1) s
           else case first_free_bit (rd_elem s (bitmap fa) i) 0 of
                  Some j \<Rightarrow> ((i * 32 + j) * PAGE_SIZE,
                            wr_elem s (bitmap fa) i (rd_elem s (bitmap fa) i OR bit_mask j))
                | None \<Rightarrow> alloc_frame_from fa (i + 1) s
      else (0, s))"
  by pat_completeness auto
termination
  by (relation "measure (\<lambda>(fa, i, s). unat (bitmap_size fa div 4) - unat i)")
    (auto simp: u32_inc u32_less_iff)

declare first_free_bit.simps [simp del] alloc_frame_from.simps [simp del]

definition alloc_frame :: "frame_allocator \<Rightarrow> machine \<Rightarrow> u32 \<times> machine" where
  "alloc_frame fa s = alloc_frame_from fa 0 s"

definition fa_clamp :: "u64 \<Rightarrow> u32" where
  "fa_clamp addr = (if addr > ucast HIGHEST_USABLE_ADDR then HIGHEST_USABLE_ADDR else ucast addr)"

definition highest_usable :: "memory_map \<Rightarrow> machine \<Rightarrow> u32" where
  "highest_usable mm s =
     fold (\<lambda>i highest.
             let entry = mm_entry s mm i
             in if e820_type entry \<noteq> 1 then highest
                else let end64 = e820_base entry + e820_length entry; end32 = fa_clamp end64
                     in if end32 > highest then end32 else highest)
       [0..<unat (mm_count mm)] 0"

definition free_usable_entry :: "memory_map \<Rightarrow> frame_allocator \<Rightarrow> nat \<Rightarrow> machine \<Rightarrow> machine" where
  "free_usable_entry mm fa i s =
     (let entry = mm_entry s mm i
      in if e820_type entry \<noteq> 1 then s
         else mark_range_free fa (ucast (e820_base entry)) (fa_clamp (e820_base entry + e820_length entry)) s)"

definition fa_init :: "memory_map \<Rightarrow> machine \<Rightarrow> frame_allocator \<times> machine" where
  "fa_init mm s =
     (let highest_addr = highest_usable mm s;
          frames = highest_addr div PAGE_SIZE;
          bytes = (frames + 7) div 8;
          fa = \<lparr>bitmap = BITMAP_BASE, total_frames = frames, bitmap_size = bytes\<rparr>;
          s = fill_bytes (bitmap fa) bytes 0xFF s;
          s = fold (free_usable_entry mm fa) [0..<unat (mm_count mm)] s;
          s = mark_range_used fa BIOS_BASE PAGE_BASE s;
          s = mark_range_used fa PAGE_BASE BITMAP_BASE s;
          s = mark_range_used fa BITMAP_BASE (BITMAP_BASE + bytes) s
      in (fa, s))"

text \<open>The class has its own copy of the \<^verbatim>\<open>clamp\<close> of \<^verbatim>\<open>MemoryMap\<close>.\<close>

lemma fa_clamp_eq [simp]: "fa_clamp = clamp"
  by (rule ext) (simp add: fa_clamp_def clamp_def)

section \<open>The bitmap as a set of frames\<close>

interpretation frames: dword_bitmap BITMAP_BASE 32768
  by unfold_locales simp

definition fa_used :: "machine \<Rightarrow> nat \<Rightarrow> bool" where
  "fa_used s n \<longleftrightarrow> bm_test s BITMAP_BASE (of_nat n)"

definition scanned :: "frame_allocator \<Rightarrow> nat" where
  "scanned fa = 32 * (unat (bitmap_size fa) div 4)"

definition fa_wf :: "frame_allocator \<Rightarrow> bool" where
  "fa_wf fa \<longleftrightarrow> bitmap fa = BITMAP_BASE \<and> unat (bitmap_size fa) \<le> 131072"

text \<open>
  Where the scanned part of the bitmap ends; it is at most 128 KiB, and the bit of frame 0 is in it.
\<close>

definition fa_words :: "frame_allocator \<Rightarrow> nat" where
  "fa_words fa = max 1 (unat (bitmap_size fa) div 4)"

definition fa_end :: "frame_allocator \<Rightarrow> nat" where
  "fa_end fa = 0x500000 + 4 * fa_words fa"

lemma fa_words_bounds:
  "fa_wf fa \<Longrightarrow> fa_words fa \<le> 32768" "scanned fa \<le> 32 * fa_words fa" "0 < fa_words fa"
  by (auto simp: fa_wf_def fa_words_def scanned_def)

lemma fa_end_bounds: "fa_wf fa \<Longrightarrow> 0x500000 < fa_end fa \<and> fa_end fa \<le> 0x520000"
  using fa_words_bounds [of fa] by (simp add: fa_end_def)

lemma fa_bitmap: "fa_wf fa \<Longrightarrow> dword_bitmap BITMAP_BASE (fa_words fa)"
  using fa_words_bounds(1) [of fa] unfolding dword_bitmap_def dword_array_def by simp

lemma fa_used_unchanged:
  assumes "fa_wf fa" "unchanged_outside lo hi s t" "fa_end fa \<le> lo \<or> hi \<le> 0x500000" "n < scanned fa \<or> n = 0"
  shows "fa_used t n \<longleftrightarrow> fa_used s n"
proof -
  have n: "n < 32 * fa_words fa" using fa_words_bounds(2,3) [of fa] assms(4) by auto
  then have "unat (of_nat n :: u32) = n" using fa_words_bounds(1) [OF assms(1)] by (simp add: unat_u32_of_nat)
  with n dword_bitmap.bm_test_unchanged [OF fa_bitmap [OF assms(1)] assms(2), of "of_nat n"] assms(3)
  show ?thesis by (simp add: fa_used_def fa_end_def)
qed

lemma frame_number: "unat (get_frame_number a) = unat a div 4096"
  by (simp add: get_frame_number_def unat_div)

lemma frame_bound: "unat (a :: u32) div 4096 < 1048576"
  using unat_u32_lt [of a] by (simp add: div_less_iff_less_mult)

lemma fa_used_mark:
  assumes "fa_wf fa" "n < 1048576"
  shows "fa_used (fa_mark_used fa a s) n \<longleftrightarrow> n = unat a div 4096 \<or> fa_used s n"
    and "fa_used (fa_mark_free fa a s) n \<longleftrightarrow> n \<noteq> unat a div 4096 \<and> fa_used s n"
proof -
  have n: "unat (of_nat n :: u32) = n" using assms(2) by (simp add: unat_u32_of_nat)
  have "(of_nat n :: u32) = get_frame_number a \<longleftrightarrow> n = unat a div 4096"
    by (simp add: word_unat_eq_iff frame_number n)
  then show "fa_used (fa_mark_used fa a s) n \<longleftrightarrow> n = unat a div 4096 \<or> fa_used s n"
    "fa_used (fa_mark_free fa a s) n \<longleftrightarrow> n \<noteq> unat a div 4096 \<and> fa_used s n"
    using assms frame_bound [of a]
    by (simp_all add: fa_used_def fa_mark_used_def fa_mark_free_def fa_wf_def
        frames.bm_test_set frames.bm_test_clear frame_number n)
qed

lemma fa_used_range:
  assumes "fa_wf fa" "n < 1048576" "q \<le> 1048576"
  shows "fa_used (fold (fa_mark_used fa) (map page_addr [p..<q]) s) n \<longleftrightarrow> (p \<le> n \<and> n < q) \<or> fa_used s n"
    and "fa_used (fold (fa_mark_free fa) (map page_addr [p..<q]) s) n \<longleftrightarrow> \<not> (p \<le> n \<and> n < q) \<and> fa_used s n"
  using assms(3)
  by (induction q) (auto simp: fa_used_mark [OF assms(1,2)] unat_page_addr less_Suc_eq)

lemma fa_used_mark_range:
  assumes "fa_wf fa" "n < 1048576"
  shows "fa_used (mark_range_used fa a b s) n \<longleftrightarrow>
      (unat a div 4096 \<le> n \<and> n < unat (page_up b) div 4096) \<or> fa_used s n"
    and "fa_used (mark_range_free fa a b s) n \<longleftrightarrow>
      \<not> (unat a div 4096 \<le> n \<and> n < unat (page_up b) div 4096) \<and> fa_used s n"
  using fa_used_range [OF assms page_count_bound]
  by (simp_all add: mark_range_used_def mark_range_free_def fa_mark_def page_loop_range)

section \<open>The allocation loop\<close>

lemma bit_mask_test: "unat j < 32 \<Longrightarrow> (w AND bit_mask j = 0) \<longleftrightarrow> \<not> bit w (unat j)"
proof -
  assume "unat j < 32"
  then have "\<not> 32 \<le> unat j" by simp
  moreover have "(w AND push_bit k 1) = (if bit w k then push_bit k 1 else 0)" for k
    by (rule bit_word_eqI) (auto simp: bit_simps bit_1_iff)
  ultimately show ?thesis by (simp add: bit_mask_def)
qed

lemma first_free_bit_find:
  "first_free_bit w j = map_option of_nat (List.find (\<lambda>k. \<not> bit w k) [unat j..<32])"
proof (induction w j rule: first_free_bit.induct)
  case (1 w j)
  show ?case
  proof (cases "j < 32")
    case True
    then have j: "unat j < 32" by (simp add: u32_less_iff)
    then have "[unat j..<32] = unat j # [Suc (unat j)..<32]" by (rule upt_conv_Cons)
    then show ?thesis
      using 1 True by (auto simp: first_free_bit.simps [of w j] bit_mask_test [OF j] u32_inc)
  next
    case False
    then show ?thesis by (simp add: first_free_bit.simps [of w j] u32_less_iff)
  qed
qed

lemma all_bits_set: "(w :: u32) = 0xFFFFFFFF \<longleftrightarrow> (\<forall>k < 32. bit w k)"
proof -
  have m: "(0xFFFFFFFF :: u32) = mask 32" by (simp add: mask_eq_exp_minus_1)
  show ?thesis
    unfolding m bit_eq_iff by (auto simp: bit_mask_iff dest: bit_imp_le_length)
qed

text \<open>Bit \<open>k\<close> of word \<open>i\<close> is frame \<open>32 * i + k\<close>.\<close>

lemma fa_used_word:
  assumes "k < 32" "unat i < 32768"
  shows "bit (rd_elem s BITMAP_BASE i) k \<longleftrightarrow> fa_used s (32 * unat i + k)"
proof -
  have u: "unat (of_nat (32 * unat i + k) :: u32) = 32 * unat i + k"
    using assms by (intro unat_u32_of_nat) linarith
  have "(of_nat (32 * unat i + k) :: u32) div 32 = i"
    using assms(1) by (simp add: word_unat_eq_iff unat_div u del: of_nat_add of_nat_mult)
  moreover have "(32 * unat i + k) mod 32 = k" using assms(1) by simp
  ultimately show ?thesis
    by (simp add: fa_used_def bm_test_bit u del: of_nat_add of_nat_mult)
qed

lemma find_word:
  assumes "unat i < 32768"
  shows "List.find (\<lambda>n. \<not> fa_used s n) [32 * unat i..<32 * unat i + 32]
    = map_option (\<lambda>k. 32 * unat i + k) (List.find (\<lambda>k. \<not> bit (rd_elem s BITMAP_BASE i) k) [0..<32])"
proof -
  have "[32 * unat i..<32 * unat i + 32] = map (\<lambda>k. 32 * unat i + k) [0..<32]"
    using map_add_upt [of "32 * unat i" 32] by (simp add: add.commute)
  moreover have "List.find (\<lambda>k. \<not> fa_used s (32 * unat i + k)) [0..<32]
      = List.find (\<lambda>k. \<not> bit (rd_elem s BITMAP_BASE i) k) [0..<32]"
    by (rule find_cong) (auto simp: fa_used_word assms)
  ultimately show ?thesis by (simp add: find_map)
qed

definition alloc_result :: "nat option \<Rightarrow> machine \<Rightarrow> u32 \<times> machine" where
  "alloc_result r s = (case r of None \<Rightarrow> (0, s) | Some n \<Rightarrow> (page_addr n, bm_set s BITMAP_BASE (of_nat n)))"

lemma alloc_hit:
  assumes "k < 32" "unat i < 32768"
  shows "((i * 32 + of_nat k) * PAGE_SIZE,
      wr_elem s BITMAP_BASE i (rd_elem s BITMAP_BASE i OR bit_mask (of_nat k)))
    = alloc_result (Some (32 * unat i + k)) s"
proof -
  let ?n = "of_nat (32 * unat i + k) :: u32"
  have u: "unat ?n = 32 * unat i + k"
    using assms by (intro unat_u32_of_nat) linarith
  have "?n div 32 = i" "?n mod 32 = of_nat k"
    using assms(1) by (simp_all add: word_unat_eq_iff unat_div unat_mod u unat_u32_of_nat del: of_nat_add of_nat_mult)
  then have "wr_elem s BITMAP_BASE i (rd_elem s BITMAP_BASE i OR bit_mask (of_nat k)) = bm_set s BITMAP_BASE ?n"
    by (simp add: bm_set_def)
  moreover have "(i * 32 + of_nat k) * PAGE_SIZE = page_addr (32 * unat i + k)"
    by (simp add: page_addr_def algebra_simps)
  ultimately show ?thesis by (simp add: alloc_result_def)
qed

lemma alloc_frame_from_find:
  assumes "fa_wf fa" "unat i \<le> unat (bitmap_size fa) div 4"
  shows "alloc_frame_from fa i s
    = alloc_result (List.find (\<lambda>n. \<not> fa_used s n) [32 * unat i..<scanned fa]) s"
  using assms
proof (induction fa i s rule: alloc_frame_from.induct)
  case (1 fa i s)
  have b: "bitmap fa = BITMAP_BASE" using 1 by (simp add: fa_wf_def)
  have sz: "unat (bitmap_size fa div 4) = unat (bitmap_size fa) div 4" by (simp add: unat_div)
  show ?case
  proof (cases "i < bitmap_size fa div 4")
    case False
    with 1 have "32 * unat i = scanned fa" by (simp add: u32_less_iff sz scanned_def)
    with False show ?thesis by (simp add: alloc_frame_from.simps [of fa i s] alloc_result_def)
  next
    case True
    then have lt: "unat i < unat (bitmap_size fa) div 4" by (simp add: u32_less_iff sz)
    then have i: "unat i < 32768" using "1.prems" unfolding fa_wf_def by linarith
    have i1: "unat (i + 1) = unat i + 1" using True by (rule u32_inc)
    then have next_i: "32 * unat (i + 1) = 32 * unat i + 32" by simp
    let ?w = "rd_elem s BITMAP_BASE i"
    let ?free = "\<lambda>n. \<not> fa_used s n"
    have "[32 * unat i..<scanned fa] = [32 * unat i..<32 * unat i + 32] @ [32 * unat (i + 1)..<scanned fa]"
      using lt upt_add_eq_append [of "32 * unat i" "32 * unat i + 32" "scanned fa - (32 * unat i + 32)"]
      by (simp add: next_i scanned_def)
    then have split: "List.find ?free [32 * unat i..<scanned fa] =
        (case List.find (\<lambda>k. \<not> bit ?w k) [0..<32] of
           None \<Rightarrow> List.find ?free [32 * unat (i + 1)..<scanned fa] | Some k \<Rightarrow> Some (32 * unat i + k))"
      by (simp add: find_append_option find_word [OF i] split: option.split)
    show ?thesis
    proof (cases "List.find (\<lambda>k. \<not> bit ?w k) [0..<32]")
      case None
      then have "?w = 0xFFFFFFFF" by (auto simp: all_bits_set find_None_iff)
      then have "alloc_frame_from fa i s = alloc_frame_from fa (i + 1) s"
        using True by (simp add: alloc_frame_from.simps [of fa i s] b)
      also have "\<dots> = alloc_result (List.find ?free [32 * unat (i + 1)..<scanned fa]) s"
        using "1.prems" True lt \<open>?w = 0xFFFFFFFF\<close> i1 b by (intro "1.IH"(1)) auto
      finally show ?thesis using None by (simp add: split)
    next
      case (Some k)
      then have k: "k < 32" "\<not> bit ?w k" by (auto simp: find_Some_iff)
      then have "?w \<noteq> 0xFFFFFFFF" by (auto simp: all_bits_set)
      moreover have "first_free_bit ?w 0 = Some (of_nat k)" using Some by (simp add: first_free_bit_find)
      ultimately show ?thesis
        using True Some alloc_hit [OF k(1) i] by (simp add: alloc_frame_from.simps [of fa i s] b split)
    qed
  qed
qed

lemma alloc_frame_find:
  "fa_wf fa \<Longrightarrow> alloc_frame fa s = alloc_result (List.find (\<lambda>n. \<not> fa_used s n) [0..<scanned fa]) s"
  using alloc_frame_from_find [of fa 0 s] by (simp add: alloc_frame_def)

lemma scanned_bound: "fa_wf fa \<Longrightarrow> scanned fa \<le> 1048576"
  unfolding fa_wf_def scanned_def by linarith

lemma fa_used_bm_set:
  assumes "n < 1048576" "k < 1048576"
  shows "fa_used (bm_set s BITMAP_BASE (of_nat n)) k \<longleftrightarrow> k = n \<or> fa_used s k"
  using assms by (simp add: fa_used_def frames.bm_test_set unat_u32_of_nat u32_of_nat_inj)

lemma alloc_frame_cases:
  assumes "fa_wf fa"
  obtains (full) "\<forall>n < scanned fa. fa_used s n" "alloc_frame fa s = (0, s)"
  | (frame) n where "n < scanned fa" "\<not> fa_used s n" "\<forall>k < n. fa_used s k"
      "alloc_frame fa s = (page_addr n, bm_set s BITMAP_BASE (of_nat n))"
proof (cases "List.find (\<lambda>n. \<not> fa_used s n) [0..<scanned fa]")
  case None
  then have "\<forall>n < scanned fa. fa_used s n" by (simp add: find_upt_None)
  moreover have "alloc_frame fa s = (0, s)"
    using None by (simp add: alloc_frame_find [OF assms] alloc_result_def)
  ultimately show thesis by (rule full)
next
  case (Some n)
  then have "n < scanned fa" "\<not> fa_used s n" "\<forall>k < n. fa_used s k" by (auto simp: find_upt_Some)
  moreover have "alloc_frame fa s = (page_addr n, bm_set s BITMAP_BASE (of_nat n))"
    using Some by (simp add: alloc_frame_find [OF assms] alloc_result_def)
  ultimately show thesis by (rule frame)
qed

lemma alloc_frame_unchanged:
  assumes "fa_wf fa"
  shows "unchanged_outside 0x500000 (fa_end fa) s (snd (alloc_frame fa s))"
  using assms
proof (cases rule: alloc_frame_cases [of fa s])
  case (frame n)
  have "unat (of_nat n :: u32) = n" using frame(1) scanned_bound [OF assms] by (simp add: unat_u32_of_nat)
  with frame fa_words_bounds(2) [of fa] dword_bitmap.bm_unchanged(1) [OF fa_bitmap [OF assms], of "of_nat n" s]
  show ?thesis by (simp add: fa_end_def)
qed simp_all

lemma free_frame_unchanged:
  "fa_wf fa \<Longrightarrow> unat a div 4096 < scanned fa \<Longrightarrow> unchanged_outside 0x500000 (fa_end fa) s (free_frame fa a s)"
  using dword_bitmap.bm_unchanged(2) [OF fa_bitmap, of fa "get_frame_number a" s] fa_words_bounds(2) [of fa]
  by (simp add: free_frame_def fa_mark_free_def fa_wf_def frame_number fa_end_def)

section \<open>Initialisation\<close>

lemma highest_usable_frames: "unat ((highest_usable mm s div PAGE_SIZE + 7) div 8) \<le> 131072"
proof -
  have "unat (highest_usable mm s) div 4096 \<le> 1048575"
    using frame_bound [of "highest_usable mm s"] by linarith
  then show ?thesis by (simp add: unat_div u32_plus_no_wrap)
qed

lemma fa_init_wf: "fa_wf (fst (fa_init mm s))"
  using highest_usable_frames [of mm s] by (simp add: fa_init_def fa_wf_def Let_def)

text \<open>Filling the bitmap with \<open>0xFF\<close> bytes marks every scanned frame used.\<close>

lemma rd32_filled:
  assumes "unat d \<le> unat a" "unat a + 4 \<le> unat d + unat n" "unat d + unat n \<le> 4294967296"
  shows "rd32 (fill_bytes d n 0xFF s) a = 0xFFFFFFFF"
proof -
  have "mem (fill_bytes d n 0xFF s) (a + j) = 0xFF" if "j \<in> {0, 1, 2, 3}" for j
  proof -
    from that have j: "unat j \<le> 3" by auto
    with assms have "unat (a + j) = unat a + unat j" by (simp add: u32_plus_no_wrap)
    with j assms have "unat (a + j - d) < unat n" by (simp add: u32_minus_no_wrap)
    then show ?thesis by (simp add: mem_fill_bytes)
  qed
  from this [of 0] this [of 1] this [of 2] this [of 3] show ?thesis
    by (simp add: rd32_def load32_def)
qed

lemma fa_used_filled:
  assumes "unat bytes \<le> 131072" "n < 32 * (unat bytes div 4)"
  shows "fa_used (fill_bytes BITMAP_BASE bytes 0xFF s) n"
proof -
  let ?i = "of_nat (n div 32) :: u32"
  have q: "n div 32 < unat bytes div 4" using assms(2) by (simp add: div_less_iff_less_mult mult.commute)
  with assms(1) have i: "unat ?i = n div 32" "n div 32 < 32768" by (auto simp: unat_u32_of_nat)
  have "rd_elem (fill_bytes BITMAP_BASE bytes 0xFF s) BITMAP_BASE ?i = 0xFFFFFFFF"
    unfolding rd_elem_def using q i assms(1) frames.unat_elem [of ?i]
    by (intro rd32_filled) auto
  then have "bit (rd_elem (fill_bytes BITMAP_BASE bytes 0xFF s) BITMAP_BASE ?i) (n mod 32)"
    by (simp add: all_bits_set)
  then show ?thesis using fa_used_word [of "n mod 32" ?i] i by simp
qed

lemma mark_range_unchanged:
  assumes "fa_wf fa"
  shows "unchanged_outside 0x500000 0x520000 s (mark_range_used fa a b s)"
    and "unchanged_outside 0x500000 0x520000 s (mark_range_free fa a b s)"
proof -
  have "unchanged_outside 0x500000 0x520000 s (fa_mark_used fa v s)"
    "unchanged_outside 0x500000 0x520000 s (fa_mark_free fa v s)" for v s
    using frames.bm_unchanged [of "get_frame_number v" s] frame_bound [of v] assms
    by (simp_all add: fa_mark_used_def fa_mark_free_def fa_wf_def frame_number)
  then show "unchanged_outside 0x500000 0x520000 s (mark_range_used fa a b s)"
    "unchanged_outside 0x500000 0x520000 s (mark_range_free fa a b s)"
    by (simp_all add: mark_range_used_def mark_range_free_def fa_mark_def page_loop_range unchanged_fold)
qed

lemma free_usable_entry_used:
  assumes "fa_wf fa" "n < 1048576"
  shows "fa_used (free_usable_entry mm fa i s) n \<longleftrightarrow> \<not> usable_frame (mm_entry s mm i) n \<and> fa_used s n"
  using fa_used_mark_range [OF assms]
  by (simp add: free_usable_entry_def usable_frame_def Let_def)

lemma free_usable_prefix:
  assumes "fa_wf fa" "n < 1048576" "mm_low mm" "k \<le> unat (mm_count mm)"
  shows "unchanged_outside 0x500000 0x520000 s (fold (free_usable_entry mm fa) [0..<k] s) \<and>
    (fa_used (fold (free_usable_entry mm fa) [0..<k] s) n \<longleftrightarrow>
      \<not> (\<exists>i < k. usable_frame (mm_entry s mm i) n) \<and> fa_used s n)"
  using assms(4)
proof (induction k)
  case (Suc k)
  let ?t = "fold (free_usable_entry mm fa) [0..<k] s"
  from Suc have IH: "unchanged_outside 0x500000 0x520000 s ?t" by simp
  have e: "mm_entry ?t mm k = mm_entry s mm k"
    using Suc.prems assms(3) by (intro mm_entry_unchanged [OF IH]) (auto simp: mm_low_def)
  have "unchanged_outside 0x500000 0x520000 ?t (free_usable_entry mm fa k ?t)"
    by (simp add: free_usable_entry_def Let_def mark_range_unchanged [OF assms(1)])
  with Suc unchanged_trans [OF IH] show ?case
    by (auto simp: free_usable_entry_used [OF assms(1,2)] e less_Suc_eq)
qed simp

text \<open>The frames below the end of the bitmap: the first megabyte, the page tables, the bitmap.\<close>

definition reserved_frames :: "frame_allocator \<Rightarrow> nat" where
  "reserved_frames fa = 0x500 + (unat (bitmap_size fa) + 4095) div 4096"

lemma fa_init_snd:
  "fa = fst (fa_init mm s) \<Longrightarrow> snd (fa_init mm s) =
    mark_range_used fa BITMAP_BASE (BITMAP_BASE + bitmap_size fa)
      (mark_range_used fa PAGE_BASE BITMAP_BASE (mark_range_used fa BIOS_BASE PAGE_BASE
        (fold (free_usable_entry mm fa) [0..<unat (mm_count mm)]
          (fill_bytes BITMAP_BASE (bitmap_size fa) 0xFF s))))"
  by (simp add: fa_init_def Let_def)

lemma fa_init_used:
  assumes "mm_low mm" "n < scanned (fst (fa_init mm s))"
  shows "fa_used (snd (fa_init mm s)) n \<longleftrightarrow>
    n < reserved_frames (fst (fa_init mm s)) \<or>
    \<not> (\<exists>i < unat (mm_count mm). usable_frame (mm_entry s mm i) n)"
proof -
  let ?fa = "fst (fa_init mm s)"
  let ?b = "bitmap_size ?fa"
  let ?f = "fill_bytes BITMAP_BASE ?b 0xFF s"
  let ?u = "fold (free_usable_entry mm ?fa) [0..<unat (mm_count mm)] ?f"
  have wf: "fa_wf ?fa" by (rule fa_init_wf)
  then have b: "unat ?b \<le> 131072" by (simp add: fa_wf_def)
  have n: "n < 1048576" using assms(2) scanned_bound [OF wf] by simp
  note fa_init_snd [OF refl, of mm s]
  moreover have "unat (BITMAP_BASE + ?b) = 0x500000 + unat ?b" using b by (simp add: u32_plus_no_wrap)
  ultimately have "fa_used (snd (fa_init mm s)) n \<longleftrightarrow> n < reserved_frames ?fa \<or> fa_used ?u n"
    using b by (auto simp: fa_used_mark_range [OF wf n] unat_page_up reserved_frames_def)
  also have "fa_used ?u n \<longleftrightarrow> \<not> (\<exists>i < unat (mm_count mm). usable_frame (mm_entry ?f mm i) n)"
    using free_usable_prefix [OF wf n assms(1) order_refl, of ?f] fa_used_filled [OF b, of n s] assms(2)
    by (simp add: scanned_def)
  also have "\<dots> \<longleftrightarrow> \<not> (\<exists>i < unat (mm_count mm). usable_frame (mm_entry s mm i) n)"
  proof -
    have "unchanged_outside 0x500000 0x520000 s ?f"
      using b by (intro unchanged_fill_bytes) auto
    from mm_entry_unchanged [OF this _ assms(1)] assms(1) show ?thesis by (auto simp: mm_low_def)
  qed
  finally show ?thesis .
qed

lemma fa_init_free:
  assumes "mm_low mm" "n < scanned (fst (fa_init mm s))"
  shows "\<not> fa_used (snd (fa_init mm s)) n \<longleftrightarrow>
    reserved_frames (fst (fa_init mm s)) \<le> n \<and>
    (\<exists>i < unat (mm_count mm). usable_frame (mm_entry s mm i) n)"
  using fa_init_used [OF assms] not_le by blast

lemma fa_init_unchanged:
  assumes "mm_low mm"
  shows "unchanged_outside 0x500000 0x520000 s (snd (fa_init mm s))"
proof -
  let ?fa = "fst (fa_init mm s)"
  let ?f = "fill_bytes BITMAP_BASE (bitmap_size ?fa) 0xFF s"
  have wf: "fa_wf ?fa" by (rule fa_init_wf)
  have "unchanged_outside 0x500000 0x520000 s ?f"
    using wf by (intro unchanged_fill_bytes) (auto simp: fa_wf_def)
  also have "unchanged_outside 0x500000 0x520000 ?f
      (fold (free_usable_entry mm ?fa) [0..<unat (mm_count mm)] ?f)"
    using free_usable_prefix [OF wf _ assms order_refl, of 0] by simp
  also have "unchanged_outside 0x500000 0x520000
      (fold (free_usable_entry mm ?fa) [0..<unat (mm_count mm)] ?f) (snd (fa_init mm s))"
    unfolding fa_init_snd [OF refl, of mm s]
    by (rule unchanged_trans [OF mark_range_unchanged(1) [OF wf]
          unchanged_trans [OF mark_range_unchanged(1) [OF wf] mark_range_unchanged(1) [OF wf]]])
  finally show ?thesis .
qed

text \<open>
  The memory that \<open>init\<close> writes: the bytes of the bitmap, the word of one frame more when the
  highest address is not a multiple of the page size, and the words of the reserved frames.
\<close>

definition touched_words :: "frame_allocator \<Rightarrow> nat" where
  "touched_words fa = max 41 (unat (total_frames fa) div 32 + 1)"

definition fa_touched :: "frame_allocator \<Rightarrow> nat" where
  "fa_touched fa = 0x500000 + 4 * touched_words fa"

lemma mark_range_within:
  assumes "bitmap fa = BITMAP_BASE" "unat (page_up b) div 4096 \<le> 32 * W" "W \<le> 40000"
  shows "unchanged_outside 0x500000 (0x500000 + 4 * W) s (mark_range_used fa a b s)"
    "unchanged_outside 0x500000 (0x500000 + 4 * W) s (mark_range_free fa a b s)"
proof -
  have bm: "dword_bitmap BITMAP_BASE W" using assms(3) unfolding dword_bitmap_def dword_array_def by simp
  have "unchanged_outside 0x500000 (0x500000 + 4 * W) s (fa_mark_used fa v s)"
    "unchanged_outside 0x500000 (0x500000 + 4 * W) s (fa_mark_free fa v s)"
    if v: "v \<in> set (map page_addr [unat a div 4096..<unat (page_up b) div 4096])" for v s
  proof -
    obtain f where f: "v = page_addr f" "f < unat (page_up b) div 4096" using v by auto
    have "f < 1048576" using f(2) frame_bound [of "page_up b"] by simp
    then have "unat (get_frame_number v) < 32 * W"
      using f assms(2) by (simp add: frame_number unat_page_addr)
    from dword_bitmap.bm_unchanged [OF bm this, of s]
    show "unchanged_outside 0x500000 (0x500000 + 4 * W) s (fa_mark_used fa v s)"
      "unchanged_outside 0x500000 (0x500000 + 4 * W) s (fa_mark_free fa v s)"
      by (simp_all add: fa_mark_used_def fa_mark_free_def assms(1))
  qed
  then show "unchanged_outside 0x500000 (0x500000 + 4 * W) s (mark_range_used fa a b s)"
    "unchanged_outside 0x500000 (0x500000 + 4 * W) s (mark_range_free fa a b s)"
    by (simp_all only: mark_range_used_def mark_range_free_def fa_mark_def page_loop_range Let_def if_True if_False
        unchanged_fold)
qed

lemma highest_bound:
  assumes "i < unat (mm_count mm)" "e820_type (mm_entry s mm i) = 1"
  shows "clamp (e820_base (mm_entry s mm i) + e820_length (mm_entry s mm i)) \<le> highest_usable mm s"
proof -
  let ?f = "\<lambda>i highest. let entry = mm_entry s mm i
             in if e820_type entry \<noteq> 1 then highest
                else let end64 = e820_base entry + e820_length entry; end32 = fa_clamp end64
                     in if end32 > highest then end32 else highest"
  have grow: "h \<le> fold ?f xs h" for xs h
  proof (induction xs arbitrary: h)
    case (Cons x xs)
    have "h \<le> ?f x h" by (auto simp: Let_def intro: less_imp_le)
    also note Cons.IH [of "?f x h"]
    finally show ?case by (simp only: fold_simps)
  qed simp
  have "clamp (e820_base (mm_entry s mm i) + e820_length (mm_entry s mm i)) \<le> fold ?f xs h" if "i \<in> set xs" for xs h
    using that
  proof (induction xs arbitrary: h)
    case (Cons x xs)
    show ?case
    proof (cases "x = i")
      case True
      have "clamp (e820_base (mm_entry s mm i) + e820_length (mm_entry s mm i)) \<le> ?f x h"
        using assms(2) True by (simp add: Let_def not_less)
      also note grow [of "?f x h" xs]
      finally show ?thesis by (simp only: fold_simps)
    next
      case False
      with Cons show ?thesis by (simp only: fold_simps set_simps insert_iff) blast
    qed
  qed simp
  then show ?thesis using assms(1) by (simp add: highest_usable_def)
qed

lemma page_up_frame:
  assumes "unat c \<le> unat h"
  shows "unat (page_up c) div 4096 \<le> unat h div 4096 + 1"
proof (cases "unat c \<le> 4294963200")
  case True
  have "(unat c + 4095) div 4096 \<le> (unat h + 4096) div 4096" using assms by (intro div_le_mono) simp
  with True show ?thesis by (simp add: unat_page_up)
qed (simp add: page_up_wraps)

lemma fa_init_touched:
  assumes "mm_low mm"
  shows "unchanged_outside 0x500000 (fa_touched (fst (fa_init mm s))) s (snd (fa_init mm s))"
proof -
  let ?fa = "fst (fa_init mm s)" let ?W = "touched_words ?fa" let ?h = "highest_usable mm s"
  let ?f = "fill_bytes BITMAP_BASE (bitmap_size ?fa) 0xFF s"
  have wf: "fa_wf ?fa" by (rule fa_init_wf)
  then have b: "bitmap ?fa = BITMAP_BASE" "unat (bitmap_size ?fa) \<le> 131072" by (simp_all add: fa_wf_def)
  have tot: "unat (total_frames ?fa) = unat ?h div 4096" by (simp add: fa_init_def Let_def unat_div)
  have h: "unat ?h div 4096 < 1048576" by (rule frame_bound)
  have size: "unat (bitmap_size ?fa) = (unat ?h div 4096 + 7) div 8"
    using h by (simp add: fa_init_def Let_def unat_div u32_plus_no_wrap)
  have W: "?W \<le> 40000" "unat ?h div 4096 + 1 \<le> 32 * ?W" "41 \<le> ?W" using h by (auto simp: touched_words_def tot)
  have "unchanged_outside 0x500000 (0x500000 + 4 * ?W) s ?f"
    using size b(2) W(2) by (intro unchanged_fill_bytes) auto
  also have "unchanged_outside 0x500000 (0x500000 + 4 * ?W) ?f (fold (free_usable_entry mm ?fa) [0..<unat (mm_count mm)] ?f)"
  proof -
    have "unchanged_outside 0x500000 (0x500000 + 4 * ?W) ?f (fold (free_usable_entry mm ?fa) [0..<k] ?f)"
      if "k \<le> unat (mm_count mm)" for k using that
    proof (induction k)
      case (Suc k)
      let ?t = "fold (free_usable_entry mm ?fa) [0..<k] ?f"
      have "unchanged_outside 0x500000 0x520000 s ?f" using b(2) by (intro unchanged_fill_bytes) auto
      then have st: "unchanged_outside 0x500000 0x520000 s ?t"
        using free_usable_prefix [OF wf _ assms, of 0 k ?f] Suc.prems by (auto intro: unchanged_trans)
      have e: "mm_entry ?t mm k = mm_entry s mm k"
        using Suc.prems assms by (intro mm_entry_unchanged [OF st]) (auto simp: mm_low_def)
      have "unchanged_outside 0x500000 (0x500000 + 4 * ?W) ?t (free_usable_entry mm ?fa k ?t)"
      proof (cases "e820_type (mm_entry s mm k) = 1")
        case True
        let ?c = "clamp (e820_base (mm_entry s mm k) + e820_length (mm_entry s mm k))"
        have "unat ?c \<le> unat ?h" using highest_bound [OF _ True] Suc.prems by (simp add: u32_le_iff)
        then have "unat (page_up ?c) div 4096 \<le> unat ?h div 4096 + 1" by (rule page_up_frame)
        then have "unat (page_up ?c) div 4096 \<le> 32 * ?W" using W(2) by linarith
        from mark_range_within(2) [OF b(1) this W(1)] True show ?thesis by (simp add: free_usable_entry_def e Let_def)
      qed (simp add: free_usable_entry_def e)
      with Suc show ?case by (auto intro: unchanged_trans)
    qed simp
    then show ?thesis by blast
  qed
  also have "unchanged_outside 0x500000 (0x500000 + 4 * ?W)
      (fold (free_usable_entry mm ?fa) [0..<unat (mm_count mm)] ?f) (snd (fa_init mm s))"
  proof -
    have "unat (BITMAP_BASE + bitmap_size ?fa) = 0x500000 + unat (bitmap_size ?fa)" using b(2) by (simp add: u32_plus_no_wrap)
    then have e: "unat (page_up (BITMAP_BASE + bitmap_size ?fa)) div 4096 \<le> 32 * ?W"
      using b(2) W(3) by (simp add: unat_page_up)
    have p: "unat (page_up PAGE_BASE) div 4096 \<le> 32 * ?W" "unat (page_up BITMAP_BASE) div 4096 \<le> 32 * ?W"
      using W(3) by (simp_all add: unat_page_up)
    note m = mark_range_within(1) [OF b(1) _ W(1)]
    show ?thesis
      unfolding fa_init_snd [OF refl, of mm s]
      by (rule unchanged_trans [OF m [OF p(1)] unchanged_trans [OF m [OF p(2)] m [OF e]]])
  qed
  finally show ?thesis by (simp add: fa_touched_def)
qed

section \<open>The contract of a frame provider\<close>

primrec alloc_many :: "('s \<Rightarrow> u32 \<times> 's) \<Rightarrow> nat \<Rightarrow> 's \<Rightarrow> u32 list \<times> 's" where
  "alloc_many alloc 0 s = ([], s)"
| "alloc_many alloc (Suc k) s =
     (let (a, s) = alloc s; (as, s) = alloc_many alloc k s in (a # as, s))"

lemma alloc_many_unchanged:
  "fa_wf fa \<Longrightarrow> unchanged_outside 0x500000 (fa_end fa) s (snd (alloc_many (alloc_frame fa) m s))"
proof (induction m arbitrary: s)
  case (Suc m)
  then show ?case
    using unchanged_trans [OF alloc_frame_unchanged Suc.IH] by (simp add: split_beta)
qed simp

text \<open>
  \<open>Heap::init\<close> and \<open>VMM::init\<close> allocate in a loop and keep the first address (the heap also
  the last one); both loops are \<open>alloc_many\<close>.
\<close>

lemma alloc_loop_rest:
  "0 < i \<Longrightarrow> fold (\<lambda>i (first, last, s). let (last, s) = alloc s in (if i = 0 then last else first, last, s))
     [i..<i + k] (x, y, s) = (x, last (y # fst (alloc_many alloc k s)), snd (alloc_many alloc k s))"
proof (induction k arbitrary: i y s)
  case (Suc k)
  have "[i..<i + Suc k] = i # [Suc i..<Suc i + k]" by (simp add: upt_conv_Cons del: upt_Suc)
  then show ?case
    using Suc.IH [of "Suc i"] Suc.prems
    by (cases "alloc s"; cases "alloc_many alloc k (snd (alloc s))") (simp del: upt_Suc)
qed simp

lemma alloc_loop_first_last:
  assumes "0 < m"
  shows "fold (\<lambda>i (first, last, s). let (last, s) = alloc s in (if i = 0 then last else first, last, s))
     [0..<m] (x, y, s)
   = (hd (fst (alloc_many alloc m s)), last (fst (alloc_many alloc m s)), snd (alloc_many alloc m s))"
proof -
  obtain k where m: "m = Suc k" using assms by (cases m) auto
  have "[0..<m] = 0 # [1..<1 + k]" by (simp add: m upt_conv_Cons del: upt_Suc)
  then show ?thesis
    using alloc_loop_rest [of 1 alloc k]
    by (cases "alloc s"; cases "alloc_many alloc k (snd (alloc s))") (simp add: m del: upt_Suc)
qed

lemma alloc_loop_first:
  assumes "0 < m"
  shows "fold (\<lambda>i (first, s). let (frame, s) = alloc s in (if i = 0 then frame else first, s)) [0..<m] (x, s)
   = (hd (fst (alloc_many alloc m s)), snd (alloc_many alloc m s))"
proof -
  have "fold (\<lambda>i (first, s). let (frame, s) = alloc s in (if i = 0 then frame else first, s)) is (x, s)
     = (\<lambda>(first, last, s). (first, s))
         (fold (\<lambda>i (first, last, s). let (last, s) = alloc s in (if i = 0 then last else first, last, s)) is (x, y, s))"
    for "is" y
  proof (induction "is" arbitrary: x y s)
    case (Cons i "is")
    then show ?case by (cases "alloc s") simp
  qed simp
  from this [of "[0..<m]" x] show ?thesis
    unfolding alloc_loop_first_last [OF assms] by simp
qed

locale frame_provider =
  fixes alloc :: "'s \<Rightarrow> u32 \<times> 's"
    and free :: "u32 \<Rightarrow> 's \<Rightarrow> 's"
    and used :: "'s \<Rightarrow> nat \<Rightarrow> bool"
    and cap :: nat
    and ok :: "'s \<Rightarrow> bool"
  assumes ok_zero: "ok s \<Longrightarrow> cap \<le> 1048576 \<and> used s 0"
    and alloc_full: "ok s \<Longrightarrow> \<forall>n < cap. used s n \<Longrightarrow> alloc s = (0, s)"
    and alloc_least: "ok s \<Longrightarrow> n < cap \<Longrightarrow> \<not> used s n \<Longrightarrow> \<forall>k < n. used s k \<Longrightarrow>
      fst (alloc s) = page_addr n \<and> ok (snd (alloc s)) \<and>
      (\<forall>k < cap. used (snd (alloc s)) k \<longleftrightarrow> k = n \<or> used s k)"
    and free_used: "ok s \<Longrightarrow> n < cap \<Longrightarrow> n \<noteq> 0 \<Longrightarrow>
      ok (free (page_addr n) s) \<and> (\<forall>k < cap. used (free (page_addr n) s) k \<longleftrightarrow> k \<noteq> n \<and> used s k)"
begin

lemma page_addr_nonzero: "ok s \<Longrightarrow> n < cap \<Longrightarrow> n \<noteq> 0 \<Longrightarrow> page_addr n \<noteq> 0"
  using ok_zero [of s] unat_page_addr [of n] by (auto simp flip: unat_eq_zero)

lemma least_free:
  assumes "ok s" "\<exists>n < cap. \<not> used s n"
  obtains n where "n < cap" "\<not> used s n" "\<forall>k < n. used s k" "n \<noteq> 0"
proof -
  let ?n = "LEAST n. \<not> used s n"
  from assms(2) obtain m where m: "m < cap" "\<not> used s m" by blast
  have "\<not> used s ?n" using m(2) by (rule LeastI)
  moreover have "?n < cap" using Least_le [of "\<lambda>n. \<not> used s n" m] m by simp
  moreover have "\<forall>k < ?n. used s k" using not_less_Least by blast
  moreover from this calculation have "?n \<noteq> 0" using ok_zero [OF assms(1)] by metis
  ultimately show thesis using that by blast
qed

text \<open>A null result means that no frame was free, and only that.\<close>

lemma alloc_null_iff:
  assumes "ok s"
  shows "fst (alloc s) = 0 \<longleftrightarrow> (\<forall>n < cap. used s n)"
proof
  assume null: "fst (alloc s) = 0"
  show "\<forall>n < cap. used s n"
  proof (rule ccontr)
    assume "\<not> (\<forall>n < cap. used s n)"
    then obtain n where "n < cap" "\<not> used s n" "\<forall>k < n. used s k" "n \<noteq> 0"
      using least_free [OF assms] by blast
    then show False
      using null alloc_least [OF assms] page_addr_nonzero [OF assms] by metis
  qed
qed (simp add: alloc_full [OF assms])

text \<open>Frames allocated one after the other are the least free ones, in order.\<close>

lemma alloc_many_least:
  assumes "ok s" "sorted_wrt (<) fs" "\<forall>f \<in> set fs. f < cap" "\<forall>f \<in> set fs. \<forall>k \<le> f. \<not> used s k \<longleftrightarrow> k \<in> set fs"
  shows "fst (alloc_many alloc (length fs) s) = map page_addr fs \<and> ok (snd (alloc_many alloc (length fs) s)) \<and>
    (\<forall>k < cap. used (snd (alloc_many alloc (length fs) s)) k \<longleftrightarrow> k \<in> set fs \<or> used s k)"
  using assms
proof (induction fs arbitrary: s)
  case (Cons f fs)
  let ?t = "snd (alloc s)"
  have above: "\<forall>g \<in> set fs. f < g" using Cons.prems(2) by simp
  have "f < cap" "\<not> used s f" using Cons.prems(3,4) by auto
  moreover have "used s k" if "k < f" for k
  proof -
    have "k \<notin> set (f # fs)" using that above by auto
    then show ?thesis using Cons.prems(4) that by (metis less_imp_le list.set_intros(1))
  qed
  ultimately have a: "fst (alloc s) = page_addr f" "ok ?t" "\<forall>k < cap. used ?t k \<longleftrightarrow> k = f \<or> used s k"
    using alloc_least [OF Cons.prems(1)] by auto
  have "\<not> used ?t k \<longleftrightarrow> k \<in> set fs" if "g \<in> set fs" "k \<le> g" for g k
  proof -
    have "k < cap" "\<not> used s k \<longleftrightarrow> k = f \<or> k \<in> set fs" using Cons.prems(3,4) that by auto
    moreover have "f \<notin> set fs" using above by blast
    ultimately show ?thesis using a(3) by metis
  qed
  then have "fst (alloc_many alloc (length fs) ?t) = map page_addr fs \<and> ok (snd (alloc_many alloc (length fs) ?t)) \<and>
      (\<forall>k < cap. used (snd (alloc_many alloc (length fs) ?t)) k \<longleftrightarrow> k \<in> set fs \<or> used ?t k)"
    using Cons.prems a(2) by (intro Cons.IH) simp_all
  then show ?case using a by (auto simp: split_beta)
qed simp

lemma alloc_many_run:
  assumes "ok s" "n + m \<le> cap" "\<forall>k < n. used s k" "\<forall>k. n \<le> k \<and> k < n + m \<longrightarrow> \<not> used s k"
  shows "fst (alloc_many alloc m s) = map page_addr [n..<n + m] \<and> ok (snd (alloc_many alloc m s)) \<and>
    (\<forall>k < cap. used (snd (alloc_many alloc m s)) k \<longleftrightarrow> (n \<le> k \<and> k < n + m) \<or> used s k)"
proof -
  have "\<forall>f \<in> set [n..<n + m]. \<forall>k \<le> f. \<not> used s k \<longleftrightarrow> k \<in> set [n..<n + m]"
    using assms(3,4) by (auto simp: not_less [symmetric])
  with alloc_many_least [OF assms(1), of "[n..<n + m]"] assms(2) show ?thesis by simp
qed

text \<open>Giving the frame back restores the set of used frames.\<close>

lemma alloc_free:
  assumes "ok s" "fst (alloc s) \<noteq> 0" "k < cap"
  shows "used (free (fst (alloc s)) (snd (alloc s))) k \<longleftrightarrow> used s k"
proof -
  obtain n where n: "n < cap" "\<not> used s n" "\<forall>k < n. used s k" "n \<noteq> 0"
    using assms(2) least_free [OF assms(1)] alloc_null_iff [OF assms(1)] by blast
  with alloc_least [OF assms(1)] free_used [of "snd (alloc s)" n] assms(3) show ?thesis by auto
qed

end

definition fa_ok :: "frame_allocator \<Rightarrow> machine \<Rightarrow> bool" where
  "fa_ok fa s \<longleftrightarrow> fa_wf fa \<and> fa_used s 0"

lemma alloc_frame_least:
  assumes "fa_ok fa s" "n < scanned fa" "\<not> fa_used s n" "\<forall>k < n. fa_used s k"
  shows "alloc_frame fa s = (page_addr n, bm_set s BITMAP_BASE (of_nat n))"
proof -
  have wf: "fa_wf fa" using assms(1) by (simp add: fa_ok_def)
  then show ?thesis
  proof (cases rule: alloc_frame_cases [of fa s])
    case (frame m)
    then have "m = n" using assms by (meson linorder_neqE_nat)
    with frame show ?thesis by simp
  qed (use assms in auto)
qed

interpretation fp: frame_provider "alloc_frame fa" "free_frame fa" fa_used "scanned fa" "fa_ok fa" for fa
proof (unfold_locales, goal_cases)
  case (1 s)
  then show ?case using scanned_bound [of fa] by (simp add: fa_ok_def)
next
  case (2 s)
  then have "fa_wf fa" by (simp add: fa_ok_def)
  then show ?case by (cases rule: alloc_frame_cases [of fa s]) (use 2 in auto)
next
  case (3 s n)
  then have "n < 1048576" "scanned fa \<le> 1048576" using scanned_bound [of fa] by (auto simp: fa_ok_def)
  with 3 alloc_frame_least [OF 3] show ?case by (auto simp: fa_used_bm_set fa_ok_def)
next
  case (4 s n)
  then have b: "n < 1048576" "scanned fa \<le> 1048576" "fa_wf fa"
    using scanned_bound [of fa] by (auto simp: fa_ok_def)
  with 4 show ?case
    by (auto simp: free_frame_def fa_used_mark [OF b(3)] unat_page_addr fa_ok_def)
qed

section \<open>Runs of the allocator\<close>

text \<open>
  A run from \<open>s0\<close>: successful allocations, and frees of frames that are outstanding.  The
  last argument is the set of outstanding frames.
\<close>

inductive fa_run :: "frame_allocator \<Rightarrow> machine \<Rightarrow> machine \<Rightarrow> u32 set \<Rightarrow> bool" for fa s0 where
  fa_start: "fa_run fa s0 s0 {}"
| fa_alloc: "fa_run fa s0 s A \<Longrightarrow> alloc_frame fa s = (a, t) \<Longrightarrow> a \<noteq> 0 \<Longrightarrow> fa_run fa s0 t (insert a A)"
| fa_free: "fa_run fa s0 s A \<Longrightarrow> a \<in> A \<Longrightarrow> fa_run fa s0 (free_frame fa a s) (A - {a})"

lemma page_addr_inj: "m < 1048576 \<Longrightarrow> n < 1048576 \<Longrightarrow> page_addr m = page_addr n \<longleftrightarrow> m = n"
  by (metis mult_cancel1 unat_page_addr zero_neq_numeral)

lemma alloc_frame_success:
  assumes "fa_ok fa s" "alloc_frame fa s = (a, t)" "a \<noteq> 0"
  obtains n where "n < scanned fa" "n \<noteq> 0" "\<not> fa_used s n" "a = page_addr n" "fa_ok fa t"
    "\<forall>k < scanned fa. fa_used t k \<longleftrightarrow> k = n \<or> fa_used s k"
proof -
  obtain n where "n < scanned fa" "\<not> fa_used s n" "\<forall>k < n. fa_used s k" "n \<noteq> 0"
    using assms fp.least_free [OF assms(1)] fp.alloc_null_iff [OF assms(1)] by (metis fst_conv)
  with fp.alloc_least [OF assms(1)] assms(2) that show thesis by fastforce
qed

definition fa_inv :: "frame_allocator \<Rightarrow> machine \<Rightarrow> machine \<Rightarrow> u32 set \<Rightarrow> bool" where
  "fa_inv fa s0 s A \<longleftrightarrow> fa_ok fa s \<and>
     (\<forall>a \<in> A. \<exists>n < scanned fa. n \<noteq> 0 \<and> a = page_addr n \<and> \<not> fa_used s0 n) \<and>
     (\<forall>n < scanned fa. fa_used s n \<longleftrightarrow> fa_used s0 n \<or> page_addr n \<in> A)"

lemma fa_run_inv:
  assumes "fa_run fa s0 s A" "fa_ok fa s0"
  shows "fa_inv fa s0 s A"
  using assms
proof (induction rule: fa_run.induct)
  case fa_start
  then show ?case by (simp add: fa_inv_def)
next
  case (fa_alloc s A a t)
  then have inv: "fa_inv fa s0 s A" by blast
  have ok: "fa_ok fa s" using inv by (simp add: fa_inv_def)
  obtain n where n: "n < scanned fa" "n \<noteq> 0" "\<not> fa_used s n" "a = page_addr n" "fa_ok fa t"
      "\<forall>k < scanned fa. fa_used t k \<longleftrightarrow> k = n \<or> fa_used s k"
    using alloc_frame_success [OF ok fa_alloc.hyps(2,3)] by blast
  have "page_addr k = a \<longleftrightarrow> k = n" if "k < scanned fa" for k
    using that n fp.ok_zero [OF ok] by (simp add: page_addr_inj)
  with n inv show ?case by (auto simp: fa_inv_def)
next
  case (fa_free s A a)
  then have inv: "fa_inv fa s0 s A" by blast
  then obtain n where n: "n < scanned fa" "n \<noteq> 0" "a = page_addr n" "\<not> fa_used s0 n"
    using fa_free.hyps(2) by (auto simp: fa_inv_def)
  have ok: "fa_ok fa s" using inv by (simp add: fa_inv_def)
  have "page_addr k = a \<longleftrightarrow> k = n" if "k < scanned fa" for k
    using that n fp.ok_zero [OF ok] by (simp add: page_addr_inj)
  with n inv fp.free_used [OF ok n(1,2)] show ?case by (auto simp: fa_inv_def)
qed

lemma fa_init_ok:
  assumes "mm_low mm" "0 < scanned (fst (fa_init mm s))"
  shows "fa_ok (fst (fa_init mm s)) (snd (fa_init mm s))"
  using fa_init_used [OF assms] by (simp add: fa_ok_def fa_init_wf reserved_frames_def)

subsection \<open>A concrete allocator\<close>

definition boot_fa :: frame_allocator where
  "boot_fa = \<lparr>bitmap = BITMAP_BASE, total_frames = 0x800, bitmap_size = 0x100\<rparr>"

definition boot_frames :: machine where
  "boot_frames = snd (fa_init boot_map e820_machine)"

lemma boot_fa_init: "fa_init boot_map e820_machine = (boot_fa, boot_frames)"
proof -
  have "highest_usable boot_map e820_machine = 0x800000"
    using e820_machine_entry by (simp add: highest_usable_def boot_map_def mm_init_def clamp_def)
  then have "fst (fa_init boot_map e820_machine) = boot_fa"
    by (simp add: fa_init_def Let_def boot_fa_def)
  then show ?thesis by (simp add: boot_frames_def prod_eq_iff)
qed

lemma boot_frames_used: "n < 2048 \<Longrightarrow> fa_used boot_frames n \<longleftrightarrow> n < 0x600"
  using fa_init_used [OF boot_map_low, of n e820_machine] e820_machine_entry
  by (auto simp: boot_fa_init boot_fa_def scanned_def reserved_frames_def usable_frame_def clamp_def
      unat_page_up)

lemma boot_fa_ok: "fa_ok boot_fa boot_frames"
  by (simp add: fa_ok_def fa_wf_def boot_frames_used) (simp add: boot_fa_def)

lemma boot_fa_end: "fa_end boot_fa = 0x500100"
  by (simp add: fa_end_def fa_words_def boot_fa_def)

lemma boot_alloc: "alloc_frame boot_fa boot_frames = (0x600000, bm_set boot_frames BITMAP_BASE 0x600)"
  using alloc_frame_least [OF boot_fa_ok, of "0x600"] boot_frames_used
  by (simp add: scanned_def boot_fa_def page_addr_def)

text \<open>The same allocator state beside a page directory.\<close>

definition boot_memory :: machine where
  "boot_memory = snd (pd_init 0x9C000 boot_frames)"

lemma boot_memory_wf: "pd_wf boot_memory boot_pd"
  using pd_init_wf [of "0x9C000" boot_frames]
  by (simp add: boot_memory_def boot_pd_def dir_placed_def)

lemma boot_memory_used: "n < 2048 \<Longrightarrow> fa_used boot_memory n \<longleftrightarrow> n < 0x600"
  using fa_used_unchanged [OF _ pd_init_unchanged [of "0x9C000" boot_frames], of boot_fa n] boot_frames_used [of n] boot_fa_ok
  by (simp add: boot_memory_def dir_placed_def fa_ok_def scanned_def boot_fa_def)

lemma boot_memory_ok: "fa_ok boot_fa boot_memory"
  by (simp add: fa_ok_def fa_wf_def boot_memory_used) (simp add: boot_fa_def)

section \<open>Properties\<close>

text \<open>
  C5. \<open>alloc_frame\<close> is first fit: it returns the address of the least free frame among the
  frames it scans, marks that frame used and no other, and touches the bitmap only; it
  returns 0 and changes nothing exactly when no scanned frame is free.
\<close>

theorem alloc_frame_first_fit:
  assumes "fa_ok fa s"
  shows "if \<forall>n < scanned fa. fa_used s n then alloc_frame fa s = (0, s)
    else \<exists>n < scanned fa. \<not> fa_used s n \<and> (\<forall>k < n. fa_used s k) \<and>
      fst (alloc_frame fa s) = page_addr n \<and> page_addr n \<noteq> 0 \<and>
      (\<forall>k < scanned fa. fa_used (snd (alloc_frame fa s)) k \<longleftrightarrow> k = n \<or> fa_used s k) \<and>
      unchanged_outside 0x500000 0x520000 s (snd (alloc_frame fa s))"
proof (cases "\<forall>n < scanned fa. fa_used s n")
  case True
  with fp.alloc_full [OF assms] show ?thesis by simp
next
  case False
  then obtain n where n: "n < scanned fa" "\<not> fa_used s n" "\<forall>k < n. fa_used s k" "n \<noteq> 0"
    using fp.least_free [OF assms] by blast
  moreover have "unchanged_outside 0x500000 0x520000 s (snd (alloc_frame fa s))"
    using assms fa_end_bounds [of fa] by (auto simp: fa_ok_def intro: unchanged_mono [OF alloc_frame_unchanged])
  ultimately show ?thesis
    using False fp.alloc_least [OF assms n(1,2,3)] fp.page_addr_nonzero [OF assms n(1,4)] by auto
qed

theorem alloc_frame_first_fit_witness:
  "fa_ok boot_fa boot_frames \<and> \<not> fa_used boot_frames 0x600 \<and>
   (\<exists>n < 2048. \<not> fa_used boot_frames n \<and> fst (alloc_frame boot_fa boot_frames) = page_addr n)"
proof -
  have sc: "scanned boot_fa = 2048" by (simp add: scanned_def boot_fa_def)
  have free: "\<not> fa_used boot_frames 0x600" by (simp add: boot_frames_used)
  have "\<not> (\<forall>n < scanned boot_fa. fa_used boot_frames n)"
    using free by (auto simp: sc intro: exI [of _ "0x600"])
  with alloc_frame_first_fit [OF boot_fa_ok] have
    "\<exists>n < scanned boot_fa. \<not> fa_used boot_frames n \<and> fst (alloc_frame boot_fa boot_frames) = page_addr n"
    by (metis (mono_tags, lifting))
  with boot_fa_ok free show ?thesis by (simp add: sc)
qed

text \<open>
  C12. After \<open>init\<close>, a scanned frame is free exactly when it meets a usable E820 entry (as the
  code rounds it) and lies above the first megabyte, the page tables and the bitmap; only
  the bitmap area is written.
\<close>

theorem fa_init_spec:
  assumes "mm_low mm" "fa_init mm s = (fa, t)"
  shows "fa_wf fa \<and> unchanged_outside 0x500000 0x520000 s t \<and>
    (\<forall>n < scanned fa. \<not> fa_used t n \<longleftrightarrow>
       reserved_frames fa \<le> n \<and> (\<exists>i < unat (mm_count mm). usable_frame (mm_entry s mm i) n))"
  using fa_init_wf [of mm s] fa_init_unchanged [OF assms(1), of s] fa_init_free [OF assms(1), of _ s] assms(2)
  by auto

theorem fa_init_spec_witness:
  "mm_low boot_map \<and> fa_init boot_map e820_machine = (boot_fa, boot_frames) \<and> \<not> fa_used boot_frames 0x7FF"
proof -
  have "usable_frame (mm_entry e820_machine boot_map 0) 0x7FF"
    by (simp add: e820_machine_entry usable_frame_def clamp_def unat_page_up)
  then show ?thesis
    using boot_map_low boot_fa_init fa_init_spec [OF boot_map_low boot_fa_init]
    by (auto simp: scanned_def boot_fa_def reserved_frames_def)
qed

text \<open>
  C13. In every run of allocations and frees after \<open>init\<close>, a frame that \<open>alloc_frame\<close> returns
  is not outstanding already, meets a usable E820 entry, and is not in the first megabyte,
  the page tables or the bitmap.
\<close>

theorem alloc_frame_safe:
  assumes "mm_low mm" "fa_init mm s = (fa, s0)" "fa_run fa s0 t A"
    "alloc_frame fa t = (a, u)" "a \<noteq> 0"
  shows "a \<notin> A \<and> (\<exists>n. a = page_addr n \<and> reserved_frames fa \<le> n \<and>
    (\<exists>i < unat (mm_count mm). usable_frame (mm_entry s mm i) n))"
proof -
  have wf: "fa_wf fa" using fa_init_wf [of mm s] assms(2) by simp
  have pos: "0 < scanned fa"
  proof (rule ccontr)
    assume "\<not> 0 < scanned fa"
    then have "alloc_frame fa t = (0, t)" by (simp add: alloc_frame_find [OF wf] alloc_result_def)
    with assms(4,5) show False by simp
  qed
  then have "fa_ok fa s0" using fa_init_ok [OF assms(1), of s] assms(2) by simp
  with assms(3) have inv: "fa_inv fa s0 t A" by (rule fa_run_inv)
  then have ok: "fa_ok fa t" by (simp add: fa_inv_def)
  obtain n where n: "n < scanned fa" "\<not> fa_used t n" "a = page_addr n"
    using alloc_frame_success [OF ok assms(4,5)] by blast
  then have "a \<notin> A" "\<not> fa_used s0 n" using inv by (auto simp: fa_inv_def)
  with n fa_init_free [OF assms(1), of n s] assms(2) show ?thesis by auto
qed

theorem alloc_frame_safe_witness:
  "fa_run boot_fa boot_frames boot_frames {} \<and>
   alloc_frame boot_fa boot_frames = (0x600000, bm_set boot_frames BITMAP_BASE 0x600) \<and>
   (\<exists>n. 0x600000 = page_addr n \<and> reserved_frames boot_fa \<le> n)"
  using fa_run.fa_start [of boot_fa boot_frames] boot_alloc
    alloc_frame_safe [OF boot_map_low boot_fa_init fa_run.fa_start boot_alloc] by auto

text \<open>
  Freeing the frame just allocated restores the state of every scanned frame.
\<close>

theorem alloc_free_frame:
  assumes "fa_ok fa s" "alloc_frame fa s = (a, t)" "a \<noteq> 0" "k < scanned fa"
  shows "fa_used (free_frame fa a t) k \<longleftrightarrow> fa_used s k"
  using fp.alloc_free [OF assms(1) _ assms(4)] assms(2,3) by simp

theorem alloc_free_frame_witness:
  "alloc_frame boot_fa boot_frames = (0x600000, bm_set boot_frames BITMAP_BASE 0x600) \<and>
   \<not> fa_used (free_frame boot_fa 0x600000 (bm_set boot_frames BITMAP_BASE 0x600)) 0x600"
  using boot_alloc alloc_free_frame [OF boot_fa_ok boot_alloc, of "0x600"] boot_frames_used [of "0x600"]
  by (simp add: scanned_def boot_fa_def)

text \<open>
  C37. A usable E820 entry whose end lies above \<open>0xFFFFF000\<close>, so also every entry that reaches
  4 GiB, contributes no free frame: the rounded end wraps to 0 and the marking loop does not
  run.
\<close>

theorem free_usable_entry_wraps:
  assumes "0xFFFFF000 < unat (e820_base (mm_entry s mm i) + e820_length (mm_entry s mm i))"
  shows "free_usable_entry mm fa i s = s"
proof -
  let ?hi = "clamp (e820_base (mm_entry s mm i) + e820_length (mm_entry s mm i))"
  have "0xFFFFF000 < unat ?hi"
    using assms
    by (cases "unat (e820_base (mm_entry s mm i) + e820_length (mm_entry s mm i)) \<le> 0xFFFFFFFF")
      (simp_all add: clamp_small clamp_large)
  then have "unat (page_up ?hi) = 0" by (simp add: page_up_wraps)
  then show ?thesis
    by (simp add: free_usable_entry_def Let_def mark_range_free_def fa_mark_def page_loop_range)
qed

text \<open>A usable entry of 16 MiB below 4 GiB.\<close>

definition high_e820_machine :: machine where
  "high_e820_machine = blank_machine\<lparr>mem := (\<lambda>_. 0)(0x8003 := 0xFF, 0x800B := 0x01, 0x8010 := 1)\<rparr>"

theorem free_usable_entry_wraps_witness:
  "e820_type (mm_entry high_e820_machine boot_map 0) = E820_TYPE_USABLE \<and>
   free_usable_entry boot_map boot_fa 0 high_e820_machine = high_e820_machine"
proof -
  have e: "mm_entry high_e820_machine boot_map 0 =
      \<lparr>e820_base = 0xFF000000, e820_length = 0x1000000, e820_type = E820_TYPE_USABLE\<rparr>"
    by (simp add: mm_entry_def read_e820_def high_e820_machine_def boot_map_def mm_init_def rd64_def
        rd32_def load32_def)
  show ?thesis
    using free_usable_entry_wraps [of high_e820_machine boot_map 0 boot_fa] by (simp add: e)
qed

text \<open>
  The scan covers whole 32-bit words of the bitmap only: it can miss up to 31 of the
  tracked frames at the top of memory, and looks at no more than 7 frames beyond them.
\<close>

theorem fa_scan_bounds:
  "unat (total_frames (fst (fa_init mm s))) \<le> scanned (fst (fa_init mm s)) + 31 \<and>
   scanned (fst (fa_init mm s)) \<le> unat (total_frames (fst (fa_init mm s))) + 7"
proof -
  let ?f = "highest_usable mm s div PAGE_SIZE"
  have "unat ?f \<le> 1048575"
    using frame_bound [of "highest_usable mm s"] by (simp add: unat_div)
  then have "unat ((?f + 7) div 8) = (unat ?f + 7) div 8" by (simp add: unat_div u32_plus_no_wrap)
  then show ?thesis by (simp add: fa_init_def Let_def scanned_def) linarith
qed

end
