(* ===== verification/Kernel_Heap.thy ===== *)
theory Kernel_Heap
  imports Frame_Alloc
begin

text \<open>
  \<^verbatim>\<open>arch/x86/memory/heap\<close>: the kernel heap, a list of contiguous blocks threaded through
  memory by 12-byte headers (\<open>size\<close> at offset 0, \<open>free\<close> at 4, \<open>next\<close> at 8).  The list walks
  are \<^theory_text>\<open>partial_function (option)\<close>s, since on arbitrary memory the list may be cyclic.
  The abstract heap is the list of block sizes and free flags; the refinement lemmas show
  that on a well-formed heap the walks return and do what the list operations do.
\<close>

abbreviation MIN_SPLIT :: u32 where "MIN_SPLIT \<equiv> 16"
abbreviation HEADER_SIZE :: u32 where "HEADER_SIZE \<equiv> 12"

record heap =
  head :: u32
  total_size :: u32

section \<open>Block headers\<close>

definition hdr_size :: "machine \<Rightarrow> u32 \<Rightarrow> u32" where
  "hdr_size s b = rd32 s b"

definition hdr_free :: "machine \<Rightarrow> u32 \<Rightarrow> bool" where
  "hdr_free s b \<longleftrightarrow> rd8 s (b + 4) \<noteq> 0"

definition hdr_next :: "machine \<Rightarrow> u32 \<Rightarrow> u32" where
  "hdr_next s b = rd32 s (b + 8)"

definition set_size :: "u32 \<Rightarrow> u32 \<Rightarrow> machine \<Rightarrow> machine" where
  "set_size b v s = wr32 s b v"

definition set_free :: "u32 \<Rightarrow> bool \<Rightarrow> machine \<Rightarrow> machine" where
  "set_free b v s = wr8 s (b + 4) (if v then 1 else 0)"

definition set_next :: "u32 \<Rightarrow> u32 \<Rightarrow> machine \<Rightarrow> machine" where
  "set_next b v s = wr32 s (b + 8) v"

section \<open>Operations\<close>

definition heap_init :: "frame_allocator \<Rightarrow> page_directory \<Rightarrow> u32 \<Rightarrow> machine \<Rightarrow> heap \<times> machine" where
  "heap_init fa pd num_pages s =
     (let (heap_start, heap_end, s) =
            fold (\<lambda>i (heap_start, heap_end, s).
                    let (heap_end, s) = alloc_frame fa s
                    in (if i = 0 then heap_end else heap_start, heap_end, s))
              [0..<unat num_pages] (0, 0, s);
          s = identity_map_range pd heap_start (heap_end + PAGE_SIZE) s;
          total = (heap_end + PAGE_SIZE) - heap_start;
          h = \<lparr>head = heap_start, total_size = total\<rparr>;
          s = set_size (head h) (total - HEADER_SIZE) s;
          s = set_free (head h) True s;
          s = set_next (head h) 0 s
      in (h, s))"

partial_function (option) alloc_from :: "u32 \<Rightarrow> u32 \<Rightarrow> machine \<Rightarrow> (u32 \<times> machine) option" where
  "alloc_from sz block s =
     (if block = 0 then Some (0, s)
      else if \<not> hdr_free s block \<or> hdr_size s block < sz
      then alloc_from sz (hdr_next s block) s
      else if hdr_size s block \<ge> sz + HEADER_SIZE + MIN_SPLIT
      then let newBlock = block + HEADER_SIZE + sz;
               s = set_free newBlock True s;
               s = set_next newBlock (hdr_next s block) s;
               s = set_size newBlock ((hdr_size s block - sz) - HEADER_SIZE) s;
               s = set_size block sz s;
               s = set_free block False s;
               s = set_next block newBlock s
           in Some (block + HEADER_SIZE, s)
      else Some (block + HEADER_SIZE, set_free block False s))"

definition heap_alloc :: "heap \<Rightarrow> u32 \<Rightarrow> machine \<Rightarrow> (u32 \<times> machine) option" where
  "heap_alloc h sz s = alloc_from sz (head h) s"

partial_function (option) merge_block :: "u32 \<Rightarrow> machine \<Rightarrow> machine option" where
  "merge_block current s =
     (if hdr_free s current \<and> hdr_next s current \<noteq> 0 \<and> hdr_free s (hdr_next s current)
      then let s = set_size current
                     (hdr_size s current + (HEADER_SIZE + hdr_size s (hdr_next s current))) s;
               s = set_next current (hdr_next s (hdr_next s current)) s
           in merge_block current s
      else Some s)"

partial_function (option) merge_from :: "u32 \<Rightarrow> machine \<Rightarrow> machine option" where
  "merge_from current s =
     (if current = 0 then Some s
      else Option.bind (merge_block current s) (\<lambda>s. merge_from (hdr_next s current) s))"

definition heap_free :: "heap \<Rightarrow> u32 \<Rightarrow> machine \<Rightarrow> machine option" where
  "heap_free h ptr s =
     (if ptr = 0 then Some s
      else let block = ptr - HEADER_SIZE; s = set_free block True s
           in merge_from (head h) s)"

text \<open>The global instance \<open>kernel_heap\<close>, zero-initialised, and the wrappers around it.\<close>

definition kernel_heap :: heap where
  "kernel_heap = \<lparr>head = 0, total_size = 0\<rparr>"

definition kmalloc :: "heap \<Rightarrow> u32 \<Rightarrow> machine \<Rightarrow> (u32 \<times> machine) option" where
  "kmalloc kh sz s = heap_alloc kh sz s"

definition kfree :: "heap \<Rightarrow> u32 \<Rightarrow> machine \<Rightarrow> machine option" where
  "kfree kh ptr s = heap_free kh ptr s"

section \<open>The abstract heap\<close>

type_synonym blocks = "(nat \<times> bool) list"

definition span :: "blocks \<Rightarrow> nat" where
  "span bs = sum_list (map (\<lambda>b. 12 + fst b) bs)"

fun alloc_blocks :: "nat \<Rightarrow> nat \<Rightarrow> blocks \<Rightarrow> (nat \<times> blocks) option" where
  "alloc_blocks n a [] = None"
| "alloc_blocks n a ((sz, fr) # bs) =
     (if \<not> fr \<or> sz < n
      then map_option (\<lambda>(p, bs). (p, (sz, fr) # bs)) (alloc_blocks n (a + 12 + sz) bs)
      else if n + 28 \<le> sz then Some (a + 12, (n, False) # (sz - n - 12, True) # bs)
      else Some (a + 12, (sz, False) # bs))"

fun free_block :: "nat \<Rightarrow> nat \<Rightarrow> blocks \<Rightarrow> blocks" where
  "free_block p a [] = []"
| "free_block p a ((sz, fr) # bs) =
     (if p = a + 12 then (sz, True) # bs else (sz, fr) # free_block p (a + 12 + sz) bs)"

fun merge_blocks :: "blocks \<Rightarrow> blocks" where
  "merge_blocks ((s1, f1) # (s2, f2) # bs) =
     (if f1 \<and> f2 then merge_blocks ((s1 + 12 + s2, True) # bs)
      else (s1, f1) # merge_blocks ((s2, f2) # bs))"
| "merge_blocks bs = bs"

fun payloads :: "nat \<Rightarrow> blocks \<Rightarrow> (nat \<times> nat) list" where
  "payloads a [] = []"
| "payloads a ((sz, fr) # bs) = (if fr then [] else [(a + 12, sz)]) @ payloads (a + 12 + sz) bs"

fun used_bytes :: "nat \<Rightarrow> blocks \<Rightarrow> nat set" where
  "used_bytes a [] = {}"
| "used_bytes a ((sz, fr) # bs) =
     (if fr then {} else {a + 12..<a + 12 + sz}) \<union> used_bytes (a + 12 + sz) bs"

fun heap_list :: "machine \<Rightarrow> nat \<Rightarrow> blocks \<Rightarrow> bool" where
  "heap_list s a [] \<longleftrightarrow> True"
| "heap_list s a ((sz, fr) # bs) \<longleftrightarrow>
     hdr_size s (of_nat a) = of_nat sz \<and> hdr_free s (of_nat a) = fr \<and>
     hdr_next s (of_nat a) = (if bs = [] then 0 else of_nat (a + 12 + sz)) \<and>
     heap_list s (a + 12 + sz) bs"

definition heap_inv :: "machine \<Rightarrow> heap \<Rightarrow> blocks \<Rightarrow> bool" where
  "heap_inv s h bs \<longleftrightarrow> bs \<noteq> [] \<and> head h \<noteq> 0 \<and> span bs = unat (total_size h) \<and>
     unat (head h) + span bs < 4294967296 \<and> span bs + 28 < 4294967296 \<and>
     heap_list s (unat (head h)) bs"

definition heap_frame :: "nat \<Rightarrow> blocks \<Rightarrow> machine \<Rightarrow> machine \<Rightarrow> bool" where
  "heap_frame a bs s t \<longleftrightarrow>
     (\<forall>x. unat x < a \<or> a + span bs \<le> unat x \<or> unat x \<in> used_bytes a bs \<longrightarrow> mem t x = mem s x)"

section \<open>Header fields\<close>

lemma hdr_cong:
  assumes "\<And>x. unat b \<le> unat x \<Longrightarrow> unat x < unat b + 12 \<Longrightarrow> mem t x = mem s x"
    and "unat b + 12 \<le> 4294967296"
  shows "hdr_size t b = hdr_size s b" "hdr_free t b = hdr_free s b" "hdr_next t b = hdr_next s b"
proof -
  have eq: "mem t (b + j) = mem s (b + j)" if "unat j < 12" for j
    using that assms(2) by (intro assms(1)) (simp_all add: u32_plus_no_wrap)
  show "hdr_size t b = hdr_size s b"
    using eq [of 0] eq [of 1] eq [of 2] eq [of 3] by (simp add: hdr_size_def rd32_def load32_def)
  show "hdr_free t b = hdr_free s b"
    using eq [of 4] by (simp add: hdr_free_def rd8_def load8_def)
  show "hdr_next t b = hdr_next s b"
    using eq [of 8] eq [of 9] eq [of 10] eq [of 11]
    by (simp add: hdr_next_def rd32_def load32_def add.assoc)
qed

lemma hdr_parts:
  assumes "unat b + 12 \<le> 4294967296"
  shows "apart4 b (b + 8)" "apart4 (b + 8) b" "unat (b + 4) = unat b + 4" "unat (b + 8) = unat b + 8"
  using assms apart4_natI [of b "b + 8"] by (simp_all add: u32_plus_no_wrap)

lemma hdr_set_same [mem_simps]:
  assumes "unat b + 12 \<le> 4294967296"
  shows "hdr_size (set_size b v s) b = v"
    "hdr_free (set_size b v s) b = hdr_free s b"
    "hdr_next (set_size b v s) b = hdr_next s b"
    "hdr_size (set_free b f s) b = hdr_size s b"
    "hdr_free (set_free b f s) b = f"
    "hdr_next (set_free b f s) b = hdr_next s b"
    "hdr_size (set_next b v s) b = hdr_size s b"
    "hdr_free (set_next b v s) b = hdr_free s b"
    "hdr_next (set_next b v s) b = v"
proof -
  note [simp] = hdr_parts [OF assms]
  have bytes: "rd8 (wr32 s a v) (b + 4) = rd8 s (b + 4)" if "a = b \<or> a = b + 8" for a
    using that assms store32_outside [of a "b + 4" "mem s" v]
    by (auto simp: rd8_def load8_def wr32_def)
  have words: "rd32 (wr8 s (b + 4) w) a = rd32 s a" if "a = b \<or> a = b + 8" for a w
    using that assms unchanged_wr8 [of "unat b + 4" "b + 4" "unat b + 5" s w]
    by (intro rd32_unchanged) auto
  show "hdr_size (set_size b v s) b = v" "hdr_free (set_size b v s) b = hdr_free s b"
    "hdr_next (set_size b v s) b = hdr_next s b" "hdr_size (set_next b v s) b = hdr_size s b"
    "hdr_free (set_next b v s) b = hdr_free s b" "hdr_next (set_next b v s) b = v"
    by (simp_all add: hdr_size_def hdr_free_def hdr_next_def set_size_def set_next_def bytes
        rd32_wr32_other)
  show "hdr_size (set_free b f s) b = hdr_size s b" "hdr_free (set_free b f s) b = f"
    "hdr_next (set_free b f s) b = hdr_next s b"
    by (simp_all add: hdr_size_def hdr_free_def hdr_next_def set_free_def words)
qed

lemma mem_set_hdr [mem_simps]:
  assumes "unat b + 12 \<le> 4294967296" "unat x < unat b \<or> unat b + 12 \<le> unat x"
  shows "mem (set_size b v s) x = mem s x" "mem (set_free b f s) x = mem s x"
    "mem (set_next b v s) x = mem s x"
  using assms hdr_parts [OF assms(1)]
  by (auto simp: set_size_def set_free_def set_next_def wr32_def wr8_def store8_def
      intro!: store32_outside)

lemma hdr_set_other [mem_simps]:
  assumes "unat b + 12 \<le> unat c \<or> unat c + 12 \<le> unat b"
    "unat b + 12 \<le> 4294967296" "unat c + 12 \<le> 4294967296"
  shows "hdr_size (set_size b v s) c = hdr_size s c"
    "hdr_free (set_size b v s) c = hdr_free s c"
    "hdr_next (set_size b v s) c = hdr_next s c"
    "hdr_size (set_free b f s) c = hdr_size s c"
    "hdr_free (set_free b f s) c = hdr_free s c"
    "hdr_next (set_free b f s) c = hdr_next s c"
    "hdr_size (set_next b v s) c = hdr_size s c"
    "hdr_free (set_next b v s) c = hdr_free s c"
    "hdr_next (set_next b v s) c = hdr_next s c"
  using assms by (auto intro!: hdr_cong mem_set_hdr)

section \<open>The list predicate and its frame\<close>

lemma span_simps [simp]: "span [] = 0" "span ((sz, fr) # bs) = 12 + sz + span bs"
  by (simp_all add: span_def)

lemma used_bytes_bounds: "x \<in> used_bytes a bs \<Longrightarrow> a + 12 \<le> x \<and> x < a + span bs"
  by (induction a bs rule: used_bytes.induct) (auto split: if_splits)

text \<open>The block list is made of the headers only: bytes inside used blocks do not matter.\<close>

lemma heap_list_cong:
  assumes "\<And>x. a \<le> unat x \<Longrightarrow> unat x < a + span bs \<Longrightarrow> unat x \<notin> used_bytes a bs \<Longrightarrow> mem t x = mem s x"
    and "a + span bs \<le> 4294967296"
  shows "heap_list t a bs = heap_list s a bs"
  using assms
proof (induction bs arbitrary: a)
  case (Cons b bs)
  obtain sz fr where b: "b = (sz, fr)" by (cases b)
  have a: "unat (of_nat a :: u32) = a" using Cons.prems(2) b by (intro unat_u32_of_nat) simp
  have out: "x \<notin> used_bytes a (b # bs)" if "x < a + 12" for x
    using that used_bytes_bounds [of x a "b # bs"] by fastforce
  have head: "mem t x = mem s x" if "a \<le> unat x" "unat x < a + 12" for x
    using that b by (intro Cons.prems(1) out) auto
  have tail: "heap_list t (a + 12 + sz) bs = heap_list s (a + 12 + sz) bs"
  proof (rule Cons.IH)
    fix x :: u32 assume x: "a + 12 + sz \<le> unat x" "unat x < a + 12 + sz + span bs"
      "unat x \<notin> used_bytes (a + 12 + sz) bs"
    then show "mem t x = mem s x" using b by (intro Cons.prems(1)) (auto split: if_splits)
  qed (use Cons.prems(2) b in auto)
  show ?case
    using hdr_cong [of "of_nat a" t s] head Cons.prems(2) tail b by (simp add: a)
qed simp

lemma heap_frame_refl [simp]: "heap_frame a bs s s"
  by (simp add: heap_frame_def)

lemma heap_frame_trans:
  "heap_frame a bs s t \<Longrightarrow> heap_frame a cs t u \<Longrightarrow> span cs = span bs \<Longrightarrow>
   used_bytes a bs \<subseteq> used_bytes a cs \<Longrightarrow> heap_frame a bs s u"
  unfolding heap_frame_def by (metis subset_iff)

lemma heap_frame_Cons:
  assumes "heap_frame (a + 12 + sz) bs s t"
  shows "heap_frame a ((sz, fr) # bs) s t"
  using assms by (auto simp: heap_frame_def split: if_splits)

section \<open>Allocation refines the list operation\<close>

lemma heap_list_tail_frame:
  assumes "heap_frame c bs s t" "c + span bs \<le> 4294967296"
    and "heap_list s a ((sz, fr) # bs)" "c = a + 12 + sz" "bs = [] \<longleftrightarrow> bs' = []" "heap_list t c bs'"
  shows "heap_list t a ((sz, fr) # bs')"
proof -
  have a: "unat (of_nat a :: u32) = a" using assms by (intro unat_u32_of_nat) simp
  have "mem t x = mem s x" if "unat x < a + 12" for x
    using that assms(1,4) by (simp add: heap_frame_def)
  then show ?thesis
    using assms hdr_cong [of "of_nat a" t s] by (simp add: a)
qed

lemma alloc_blocks_Nil: "alloc_blocks n a bs = Some (q, bs') \<Longrightarrow> bs \<noteq> [] \<and> bs' \<noteq> []"
  by (cases bs) (auto split: if_splits)

text \<open>The two ways a block is taken: as it is, or split in two.\<close>

lemma take_whole:
  assumes "heap_list s a ((sz, True) # bs)" "a + 12 + sz + span bs < 4294967296"
  defines "t \<equiv> set_free (of_nat a) False s"
  shows "heap_list t a ((sz, False) # bs)" "heap_frame a ((sz, True) # bs) s t"
proof -
  have a: "unat (of_nat a :: u32) = a" using assms(2) by (intro unat_u32_of_nat) simp
  have tail: "heap_list t (a + 12 + sz) bs = heap_list s (a + 12 + sz) bs"
    using assms(2) by (intro heap_list_cong) (auto simp: t_def a mem_simps)
  show "heap_list t a ((sz, False) # bs)"
    using assms(1,2) unfolding heap_list.simps tail by (simp add: t_def mem_simps a)
  show "heap_frame a ((sz, True) # bs) s t"
    using assms(2) used_bytes_bounds [of _ a "(sz, True) # bs"]
    unfolding heap_frame_def t_def
    by (intro allI impI mem_set_hdr) (auto simp: a dest: used_bytes_bounds)
qed

definition split_block :: "u32 \<Rightarrow> u32 \<Rightarrow> machine \<Rightarrow> machine" where
  "split_block n b s =
     (let c = b + HEADER_SIZE + n;
          s = set_free c True s; s = set_next c (hdr_next s b) s;
          s = set_size c ((hdr_size s b - n) - HEADER_SIZE) s;
          s = set_size b n s; s = set_free b False s
      in set_next b c s)"

lemma split_fields:
  assumes "unat b + 12 \<le> unat c" "unat c + 12 \<le> 4294967296" "c = b + 12 + n"
  shows "hdr_size (split_block n b s) b = n" "\<not> hdr_free (split_block n b s) b"
    "hdr_next (split_block n b s) b = c"
    "hdr_size (split_block n b s) c = hdr_size s b - n - 12" "hdr_free (split_block n b s) c"
    "hdr_next (split_block n b s) c = hdr_next s b"
    "unat x < unat b \<or> unat b + 12 \<le> unat x \<and> unat x < unat c \<or> unat c + 12 \<le> unat x
      \<Longrightarrow> mem (split_block n b s) x = mem s x"
proof -
  have b: "unat b + 12 \<le> 4294967296" using assms by linarith
  note [simp] = hdr_set_same [OF b] hdr_set_same [OF assms(2)]
  have bc: "unat b + 12 \<le> unat c \<or> unat c + 12 \<le> unat b"
    and cb: "unat c + 12 \<le> unat b \<or> unat b + 12 \<le> unat c" using assms by auto
  note [simp] = hdr_set_other [OF bc b assms(2)] hdr_set_other [OF cb assms(2) b]
  have sp: "split_block n b s =
      (let s = set_free c True s; s = set_next c (hdr_next s b) s;
           s = set_size c ((hdr_size s b - n) - HEADER_SIZE) s;
           s = set_size b n s; s = set_free b False s
       in set_next b c s)" by (simp add: split_block_def assms(3) Let_def)
  show "hdr_size (split_block n b s) b = n" "\<not> hdr_free (split_block n b s) b"
    "hdr_next (split_block n b s) b = c"
    "hdr_size (split_block n b s) c = hdr_size s b - n - 12" "hdr_free (split_block n b s) c"
    "hdr_next (split_block n b s) c = hdr_next s b"
    by (simp_all add: sp Let_def)
  assume "unat x < unat b \<or> unat b + 12 \<le> unat x \<and> unat x < unat c \<or> unat c + 12 \<le> unat x"
  then have "unat x < unat b \<or> unat b + 12 \<le> unat x" "unat x < unat c \<or> unat c + 12 \<le> unat x"
    using assms(1) by auto
  then show "mem (split_block n b s) x = mem s x"
    using assms(2) b by (simp add: sp Let_def mem_set_hdr)
qed

lemma take_split:
  assumes hl: "heap_list s a ((sz, True) # bs)" and fits: "a + 12 + sz + span bs < 4294967296"
    and n: "n + 28 \<le> sz" and a0: "0 < a"
  defines "t \<equiv> split_block (of_nat n) (of_nat a) s"
  shows "heap_list t a ((n, False) # (sz - n - 12, True) # bs)" "heap_frame a ((sz, True) # bs) s t"
proof -
  let ?c = "of_nat (a + 12 + n) :: u32"
  have a: "unat (of_nat a :: u32) = a" and c: "unat ?c = a + 12 + n"
    using fits n by (intro unat_u32_of_nat; simp)+
  have f: "unat (of_nat a :: u32) + 12 \<le> unat ?c" "unat ?c + 12 \<le> 4294967296"
    "?c = of_nat a + 12 + of_nat n"
    using fits n unfolding a c by simp_all
  note F = split_fields [OF f, where s = s, folded t_def, unfolded a c]
  have sz: "of_nat sz - of_nat n - 12 = (of_nat (sz - n - 12) :: u32)"
    using n by (simp add: of_nat_diff)
  have nxt: "a + 12 + n + 12 + (sz - n - 12) = a + 12 + sz" using n by simp
  have tail: "heap_list t (a + 12 + sz) bs = heap_list s (a + 12 + sz) bs"
    using fits n by (intro heap_list_cong F(7)) auto
  have hs: "hdr_size s (of_nat a) = of_nat sz"
    "hdr_next s (of_nat a) = (if bs = [] then 0 else of_nat (a + 12 + sz))"
    "heap_list s (a + 12 + sz) bs" using hl by simp_all
  show "heap_list t a ((n, False) # (sz - n - 12, True) # bs)"
    unfolding heap_list.simps nxt tail
    using F(1-6) by (simp add: hs sz del: of_nat_add)
  show "heap_frame a ((sz, True) # bs) s t"
    unfolding heap_frame_def
    using n by (intro allI impI F(7)) (auto dest: used_bytes_bounds)
qed

lemma alloc_from_split:
  "alloc_from n b s =
     (if b = 0 then Some (0, s)
      else if \<not> hdr_free s b \<or> hdr_size s b < n then alloc_from n (hdr_next s b) s
      else if n + HEADER_SIZE + MIN_SPLIT \<le> hdr_size s b then Some (b + HEADER_SIZE, split_block n b s)
      else Some (b + HEADER_SIZE, set_free b False s))"
  by (subst alloc_from.simps) (simp add: split_block_def Let_def)

lemma alloc_from_step:
  assumes "heap_list s a ((sz, fr) # bs)" "0 < a" "a + 12 + sz + span bs < 4294967296"
    "sz + 28 < 4294967296" "n < 4294967296"
  shows "alloc_from (of_nat n) (of_nat a) s =
      (if \<not> fr \<or> sz < n then alloc_from (of_nat n) (if bs = [] then 0 else of_nat (a + 12 + sz)) s
       else if n + 28 \<le> sz then Some (of_nat (a + 12), split_block (of_nat n) (of_nat a) s)
       else Some (of_nat (a + 12), set_free (of_nat a) False s))"
proof -
  have nz: "(of_nat a :: u32) \<noteq> 0" using assms u32_of_nat_inj [of a 0] by simp
  have s1: "hdr_size s (of_nat a) = of_nat sz" "hdr_free s (of_nat a) = fr"
    "hdr_next s (of_nat a) = (if bs = [] then 0 else of_nat (a + 12 + sz))"
    using assms(1) by simp_all
  have c1: "(of_nat sz :: u32) < of_nat n \<longleftrightarrow> sz < n"
    using assms by (intro u32_of_nat_less) auto
  have c2: "(of_nat n + HEADER_SIZE + MIN_SPLIT :: u32) \<le> of_nat sz \<longleftrightarrow> n + 28 \<le> sz" if "n \<le> sz"
    using that assms(4) u32_of_nat_le [of "n + 28" sz] by (simp add: add.assoc)
  have p: "(of_nat a + HEADER_SIZE :: u32) = of_nat (a + 12)" by simp
  show ?thesis
    using nz c1 c2 p by (subst alloc_from_split) (auto simp: s1 add.commute simp del: of_nat_add)
qed

text \<open>The result of the list operation as the result of the walk.\<close>

definition alloc_rel :: "machine \<Rightarrow> nat \<Rightarrow> blocks \<Rightarrow> (nat \<times> blocks) option \<Rightarrow> (u32 \<times> machine) option \<Rightarrow> bool" where
  "alloc_rel s a bs r r' \<longleftrightarrow> (case r of
     None \<Rightarrow> r' = Some (0, s)
   | Some (q, cs) \<Rightarrow> \<exists>t. r' = Some (of_nat q, t) \<and> heap_list t a cs \<and> heap_frame a bs s t)"

lemma alloc_rel_Cons:
  assumes "alloc_rel s (a + 12 + sz) bs (alloc_blocks n (a + 12 + sz) bs) r"
    and "heap_list s a ((sz, fr) # bs)" "a + 12 + sz + span bs < 4294967296"
  shows "alloc_rel s a ((sz, fr) # bs)
    (map_option (\<lambda>(p, bs). (p, (sz, fr) # bs)) (alloc_blocks n (a + 12 + sz) bs)) r"
proof (cases "alloc_blocks n (a + 12 + sz) bs")
  case None
  with assms(1) show ?thesis by (simp add: alloc_rel_def)
next
  case (Some x)
  then obtain q cs where r: "alloc_blocks n (a + 12 + sz) bs = Some (q, cs)" by (cases x) auto
  with assms(1) obtain t where t: "r = Some (of_nat q, t)" "heap_list t (a + 12 + sz) cs"
      "heap_frame (a + 12 + sz) bs s t"
    by (auto simp: alloc_rel_def)
  have "heap_list t a ((sz, fr) # cs)"
    using assms t alloc_blocks_Nil [OF r] by (intro heap_list_tail_frame [OF t(3)]) auto
  with r t show ?thesis by (auto simp: alloc_rel_def heap_frame_Cons)
qed

lemma alloc_from_refines:
  assumes "heap_list s a bs" "0 < a" "a + span bs < 4294967296" "span bs + 28 < 4294967296"
    and "n < 4294967296"
  shows "alloc_rel s a bs (alloc_blocks n a bs)
    (alloc_from (of_nat n) (if bs = [] then 0 else of_nat a) s)"
  using assms
proof (induction bs arbitrary: a)
  case Nil
  show ?case by (simp add: alloc_rel_def alloc_from_split)
next
  case (Cons b bs)
  obtain sz fr where b: "b = (sz, fr)" by (cases b)
  have h: "heap_list s a ((sz, fr) # bs)" "a + 12 + sz + span bs < 4294967296"
    "sz + 28 < 4294967296" using Cons.prems b by auto
  note step = alloc_from_step [OF h(1) Cons.prems(2) h(2,3) Cons.prems(5)]
  show ?case
  proof (cases "\<not> fr \<or> sz < n")
    case True
    have "alloc_rel s (a + 12 + sz) bs (alloc_blocks n (a + 12 + sz) bs)
        (alloc_from (of_nat n) (if bs = [] then 0 else of_nat (a + 12 + sz)) s)"
      using Cons.prems b by (intro Cons.IH) auto
    from alloc_rel_Cons [OF this h(1,2)] True show ?thesis
      by (simp add: b step del: of_nat_add)
  next
    case False
    then have fr by simp
    with h(1) have h': "heap_list s a ((sz, True) # bs)" by simp
    show ?thesis
      using False take_whole [OF h' h(2)] take_split [OF h' h(2) _ Cons.prems(2), of n] \<open>fr\<close>
      by (auto simp: b step alloc_rel_def simp del: of_nat_add heap_list.simps)
  qed
qed

section \<open>Freeing refines the list operations\<close>

lemma merge_span [simp]: "span (merge_blocks bs) = span bs"
  by (induction bs rule: merge_blocks.induct) auto

lemma merge_used_bytes [simp]: "used_bytes a (merge_blocks bs) = used_bytes a bs"
  by (induction bs arbitrary: a rule: merge_blocks.induct) (auto simp: algebra_simps)

lemma merge_Nil_iff [simp]: "merge_blocks bs = [] \<longleftrightarrow> bs = []"
  by (induction bs rule: merge_blocks.induct) auto

text \<open>One absorption step of the inner loop.\<close>

definition absorb :: "u32 \<Rightarrow> machine \<Rightarrow> machine" where
  "absorb b s =
     (let s = set_size b (hdr_size s b + (HEADER_SIZE + hdr_size s (hdr_next s b))) s
      in set_next b (hdr_next s (hdr_next s b)) s)"

lemma absorb_refines:
  assumes hl: "heap_list s a ((s1, True) # (s2, True) # bs)"
    and fits: "a + 12 + s1 + 12 + s2 + span bs < 4294967296"
  shows "heap_list (absorb (of_nat a) s) a ((s1 + 12 + s2, True) # bs)"
    and "heap_frame a ((s1, True) # (s2, True) # bs) s (absorb (of_nat a) s)"
proof -
  let ?b = "of_nat a :: u32" and ?c = "of_nat (a + 12 + s1) :: u32" and ?t = "absorb (of_nat a) s"
  have b: "unat ?b = a" and c: "unat ?c = a + 12 + s1"
    using fits by (intro unat_u32_of_nat; simp)+
  have lim: "unat ?b + 12 \<le> 4294967296" "unat ?b + 12 \<le> unat ?c \<or> unat ?c + 12 \<le> unat ?b"
    "unat ?c + 12 \<le> 4294967296" using fits unfolding b c by simp_all
  have nx: "hdr_next s ?b = ?c" using hl by simp
  have m: "mem ?t x = mem s x" if "unat x < a \<or> a + 12 \<le> unat x" for x
    using that lim(1) by (simp add: absorb_def Let_def mem_set_hdr b)
  have tail: "heap_list ?t (a + 12 + s1 + 12 + s2) bs = heap_list s (a + 12 + s1 + 12 + s2) bs"
    using fits by (intro heap_list_cong m) auto
  have h: "hdr_size ?t ?b = hdr_size s ?b + (12 + hdr_size s ?c)" "hdr_free ?t ?b = hdr_free s ?b"
    "hdr_next ?t ?b = hdr_next s ?c"
    unfolding absorb_def Let_def
    by (simp_all add: hdr_set_same [OF lim(1)] hdr_set_other [OF lim(2,1,3)] nx del: of_nat_add)
  have c': "hdr_size s ?c = of_nat s2"
    "hdr_next s ?c = (if bs = [] then 0 else of_nat (a + 12 + s1 + 12 + s2))" "hdr_free s ?c"
    using hl by auto
  show "heap_list ?t a ((s1 + 12 + s2, True) # bs)"
    using hl h tail c' by (simp add: algebra_simps)
  show "heap_frame a ((s1, True) # (s2, True) # bs) s ?t"
    unfolding heap_frame_def by (intro allI impI m) (auto dest: used_bytes_bounds)
qed

lemma merge_from_absorb:
  assumes "hdr_free s b" "hdr_next s b \<noteq> 0" "hdr_free s (hdr_next s b)" "b \<noteq> 0"
  shows "merge_from b s = merge_from b (absorb b s)"
proof -
  have "merge_block b s = merge_block b (absorb b s)"
    using assms by (subst merge_block.simps) (simp add: absorb_def Let_def)
  with assms(4) show ?thesis by (simp add: merge_from.simps [of b])
qed

lemma merge_from_single:
  assumes "heap_list s a [v]"
  shows "\<exists>t. merge_from (of_nat a) s = Some t \<and> heap_list t a (merge_blocks [v]) \<and> heap_frame a [v] s t"
proof -
  obtain sz fr where v: "v = (sz, fr)" by (cases v)
  have hs: "hdr_next s (of_nat a) = 0" using assms v by simp
  have "merge_block (of_nat a) s = Some s" by (subst merge_block.simps) (simp add: hs)
  then have "merge_from (of_nat a) s = Some s"
    by (subst merge_from.simps) (simp add: hs merge_from.simps [of 0])
  with assms show ?thesis by auto
qed

lemma merge_from_refines:
  assumes "heap_list s a bs" "bs \<noteq> []" "0 < a" "a + span bs < 4294967296"
  shows "\<exists>t. merge_from (of_nat a) s = Some t \<and> heap_list t a (merge_blocks bs) \<and> heap_frame a bs s t"
  using assms
proof (induction bs arbitrary: a s rule: merge_blocks.induct)
  case (1 s1 f1 s2 f2 bs)
  let ?b = "of_nat a :: u32" and ?c = "of_nat (a + 12 + s1) :: u32"
  have fits: "a + 12 + s1 + 12 + s2 + span bs < 4294967296" using 1 by simp
  have nz: "?b \<noteq> 0" using 1 fits u32_of_nat_inj [of a 0] by simp
  have nzc: "?c \<noteq> 0" using fits u32_of_nat_inj [of "a + 12 + s1" 0] by (simp del: of_nat_add)
  have hs: "hdr_free s ?b = f1" "hdr_next s ?b = ?c" "hdr_free s ?c = f2" using 1 by auto
  show ?case
  proof (cases "f1 \<and> f2")
    case True
    then have hl: "heap_list s a ((s1, True) # (s2, True) # bs)" using 1 by simp
    note ab = absorb_refines [OF hl fits]
    from 1(1) [OF True ab(1)] 1(5) fits obtain t where t: "merge_from ?b (absorb ?b s) = Some t"
        "heap_list t a (merge_blocks ((s1 + 12 + s2, True) # bs))"
        "heap_frame a ((s1 + 12 + s2, True) # bs) (absorb ?b s) t"
      by auto
    have "heap_frame a ((s1, True) # (s2, True) # bs) s t"
      by (rule heap_frame_trans [OF ab(2) t(3)]) (auto simp: algebra_simps)
    with t True merge_from_absorb [of s ?b] hs nz nzc show ?thesis by auto
  next
    case False
    have mb: "merge_block ?b s = Some s"
      using False hs by (subst merge_block.simps) auto
    have eq: "merge_from ?b s = merge_from ?c s"
      using nz by (subst merge_from.simps) (simp add: mb hs del: of_nat_add)
    from 1(2) [OF False, of s "a + 12 + s1"] 1(3-) obtain t where t: "merge_from ?c s = Some t"
        "heap_list t (a + 12 + s1) (merge_blocks ((s2, f2) # bs))"
        "heap_frame (a + 12 + s1) ((s2, f2) # bs) s t"
      by auto
    have "heap_list t a ((s1, f1) # merge_blocks ((s2, f2) # bs))"
      using 1(3) fits t by (intro heap_list_tail_frame [OF t(3)]) auto
    with False t eq heap_frame_Cons [OF t(3)] show ?thesis by auto
  qed
next
  case "2_2"
  then show ?case by (intro merge_from_single) auto
qed simp

text \<open>Clearing the used flag of the block whose payload is at \<open>p\<close>.\<close>

lemma free_span [simp]: "span (free_block p a bs) = span bs"
  by (induction p a bs rule: free_block.induct) auto

lemma free_Nil_iff [simp]: "free_block p a bs = [] \<longleftrightarrow> bs = []"
  by (induction p a bs rule: free_block.induct) auto

lemma payloads_bounds: "(p, m) \<in> set (payloads a bs) \<Longrightarrow> a + 12 \<le> p \<and> p + m \<le> a + span bs"
  by (induction a bs rule: payloads.induct) (auto split: if_splits)

lemma free_used_bytes: "used_bytes a (free_block p a bs) \<subseteq> used_bytes a bs"
  by (induction p a bs rule: free_block.induct) auto

lemma set_free_refines:
  assumes "heap_list s a bs" "(p, m) \<in> set (payloads a bs)" "a + span bs < 4294967296"
  defines "t \<equiv> set_free (of_nat (p - 12)) True s"
  shows "heap_list t a (free_block p a bs) \<and> heap_frame a bs s t"
  using assms(1-3)
proof (induction a bs rule: payloads.induct)
  case (2 a sz fr bs)
  have fits: "a + 12 + sz + span bs < 4294967296" using 2 by simp
  have a: "unat (of_nat a :: u32) = a" using fits by (intro unat_u32_of_nat) simp
  show ?case
  proof (cases "p = a + 12")
    case True
    have p: "p - 12 = a" using True by simp
    have m: "mem t x = mem s x" if "unat x < a \<or> a + 12 \<le> unat x" for x
      unfolding t_def p using fits that by (intro mem_set_hdr) (simp_all add: a)
    have "heap_list t (a + 12 + sz) bs = heap_list s (a + 12 + sz) bs"
      using fits by (intro heap_list_cong m) auto
    moreover have "heap_frame a ((sz, fr) # bs) s t"
      unfolding heap_frame_def by (intro allI impI m) (auto dest: used_bytes_bounds split: if_splits)
    ultimately show ?thesis
      using 2(2) fits True by (auto simp: t_def a hdr_set_same)
  next
    case False
    with 2(3) have tl: "(p, m) \<in> set (payloads (a + 12 + sz) bs)" by (auto split: if_splits)
    with 2 have ih: "heap_list t (a + 12 + sz) (free_block p (a + 12 + sz) bs)"
        "heap_frame (a + 12 + sz) bs s t" by auto
    have "heap_list t a ((sz, fr) # free_block p (a + 12 + sz) bs)"
      using 2(2) fits ih by (intro heap_list_tail_frame [OF ih(2)]) auto
    with False heap_frame_Cons [OF ih(2)] show ?thesis by simp
  qed
qed simp

section \<open>Properties of the list operations\<close>

fun merged :: "blocks \<Rightarrow> bool" where
  "merged ((s1, f1) # (s2, f2) # bs) \<longleftrightarrow> \<not> (f1 \<and> f2) \<and> merged ((s2, f2) # bs)"
| "merged bs \<longleftrightarrow> True"

lemma merged_Cons: "merged (b # bs) \<longleftrightarrow> (bs \<noteq> [] \<longrightarrow> \<not> (snd b \<and> snd (hd bs))) \<and> merged bs"
  by (cases b; cases bs; simp) (metis merged.simps(1) prod.collapse snd_conv)

lemma merge_Cons:
  "\<not> (snd b \<and> bs \<noteq> [] \<and> snd (hd bs)) \<Longrightarrow> merge_blocks (b # bs) = b # merge_blocks bs"
  by (cases b; cases bs; auto)

lemma snd_hd_merge: "bs \<noteq> [] \<Longrightarrow> snd (hd (merge_blocks bs)) = snd (hd bs)"
  by (induction bs rule: merge_blocks.induct) auto

lemma merge_merged [simp]: "merged (merge_blocks bs)"
proof (induction bs rule: merge_blocks.induct)
  case (1 s1 f1 s2 f2 bs)
  then show ?case
    using snd_hd_merge [of "(s2, f2) # bs"] by (auto simp: merged_Cons)
qed auto

lemma merge_id: "merged bs \<Longrightarrow> merge_blocks bs = bs"
  by (induction bs) (auto simp: merged_Cons merge_Cons)

lemma payloads_merge [simp]: "payloads a (merge_blocks bs) = payloads a bs"
  by (induction bs arbitrary: a rule: merge_blocks.induct) (auto simp: algebra_simps)

lemma payloads_above: "p < a + 12 \<Longrightarrow> [x \<leftarrow> payloads a bs. fst x \<noteq> p] = payloads a bs"
  using payloads_bounds by (fastforce simp: filter_id_conv)

lemma payloads_free: "payloads a (free_block p a bs) = [x \<leftarrow> payloads a bs. fst x \<noteq> p]"
  by (induction p a bs rule: free_block.induct) (auto simp: payloads_above)

text \<open>First fit, in closed form.\<close>

lemma alloc_blocks_Some:
  "alloc_blocks n a bs = Some (q, cs) \<longleftrightarrow>
   (\<exists>pre sz post. bs = pre @ (sz, True) # post \<and> n \<le> sz \<and> q = a + span pre + 12
     \<and> (\<forall>b \<in> set pre. \<not> (snd b \<and> n \<le> fst b))
     \<and> cs = pre @ (if n + 28 \<le> sz then [(n, False), (sz - n - 12, True)] else [(sz, False)]) @ post)"
    (is "_ \<longleftrightarrow> (\<exists>pre sz post. ?P a bs cs pre sz post)")
proof (induction bs arbitrary: a cs)
  case (Cons b bs)
  obtain sz fr where b: "b = (sz, fr)" by (cases b)
  show ?case
  proof (cases "\<not> fr \<or> sz < n")
    case True
    then have "alloc_blocks n a (b # bs) = Some (q, cs)
        \<longleftrightarrow> (\<exists>ds. cs = b # ds \<and> alloc_blocks n (a + 12 + sz) bs = Some (q, ds))"
      by (auto simp: b)
    also have "\<dots> \<longleftrightarrow> (\<exists>ds pre sz' post. cs = b # ds \<and> ?P (a + 12 + sz) bs ds pre sz' post)"
      by (simp add: Cons.IH)
    also have "\<dots> \<longleftrightarrow> (\<exists>pre sz' post. ?P a (b # bs) cs pre sz' post)" (is "?l = ?r")
    proof
      assume ?l
      then obtain ds pre sz' post where "cs = b # ds" "?P (a + 12 + sz) bs ds pre sz' post" by blast
      with True have "?P a (b # bs) cs (b # pre) sz' post" by (auto simp: b)
      then show ?r by blast
    next
      assume ?r
      then obtain pre sz' post where p: "?P a (b # bs) cs pre sz' post" by blast
      with True b obtain pre' where pre: "pre = b # pre'" by (cases pre) auto
      with p have "?P (a + 12 + sz) bs (tl cs) pre' sz' post \<and> cs = b # tl cs" by (auto simp: b)
      then show ?l by blast
    qed
    finally show ?thesis .
  next
    case False
    then have iff: "alloc_blocks n a (b # bs) = Some (q, cs) \<longleftrightarrow> ?P a (b # bs) cs [] sz bs"
      by (auto simp: b)
    have "pre = [] \<and> sz' = sz \<and> post = bs" if "?P a (b # bs) cs pre sz' post" for pre sz' post
      using that False b by (cases pre) auto
    then show ?thesis using iff by blast
  qed
qed simp

lemma alloc_blocks_None: "alloc_blocks n a bs = None \<longleftrightarrow> (\<forall>b \<in> set bs. snd b \<longrightarrow> fst b < n)"
  by (induction n a bs rule: alloc_blocks.induct) auto

lemma span_append [simp]: "span (xs @ ys) = span xs + span ys"
  by (simp add: span_def)

lemma payloads_append: "payloads a (xs @ ys) = payloads a xs @ payloads (a + span xs) ys"
  by (induction a xs rule: payloads.induct) (auto simp: algebra_simps)

lemma free_block_append:
  "q = a + span pre + 12 \<Longrightarrow> free_block q a (pre @ (sz, fr) # post) = pre @ (sz, True) # post"
proof (induction pre arbitrary: a)
  case (Cons b pre)
  then show ?case by (cases b) (auto simp: ac_simps)
qed simp

lemma merged_append:
  "merged (xs @ ys) \<longleftrightarrow> merged xs \<and> merged ys
     \<and> (xs \<noteq> [] \<longrightarrow> ys \<noteq> [] \<longrightarrow> \<not> (snd (last xs) \<and> snd (hd ys)))"
  by (induction xs) (auto simp: merged_Cons hd_append)

lemma merge_append:
  "merged pre \<Longrightarrow> (pre \<noteq> [] \<longrightarrow> bs \<noteq> [] \<longrightarrow> \<not> (snd (last pre) \<and> snd (hd bs))) \<Longrightarrow>
   merge_blocks (pre @ bs) = pre @ merge_blocks bs"
proof (induction pre)
  case (Cons b pre)
  then have "merge_blocks (pre @ bs) = pre @ merge_blocks bs"
    by (cases "pre = []") (auto simp: merged_Cons)
  moreover have "merge_blocks (b # (pre @ bs)) = b # merge_blocks (pre @ bs)"
    using Cons.prems by (intro merge_Cons) (cases "pre = []"; auto simp: merged_Cons hd_append)
  ultimately show ?case by simp
qed simp

lemma alloc_blocks_effect:
  assumes "alloc_blocks n a bs = Some (q, cs)"
  shows "span cs = span bs" and "merged bs \<Longrightarrow> merged cs"
    and "\<exists>m \<ge> n. set (payloads a cs) = insert (q, m) (set (payloads a bs)) \<and> q + m \<le> a + span bs"
    and "q \<notin> fst ` set (payloads a bs)" and "a + 12 \<le> q"
    and "merged bs \<Longrightarrow> merge_blocks (free_block q a cs) = bs"
proof -
  obtain pre sz post where e: "bs = pre @ (sz, True) # post" "n \<le> sz" "q = a + span pre + 12"
    and cs: "cs = pre @ (if n + 28 \<le> sz then [(n, False), (sz - n - 12, True)] else [(sz, False)]) @ post"
    using assms unfolding alloc_blocks_Some by blast
  show "span cs = span bs" "a + 12 \<le> q" using e cs by auto
  show "merged bs \<Longrightarrow> merged cs"
    using e cs by (auto simp: merged_append merged_Cons)
  have "payloads a cs = payloads a pre @ (q, if n + 28 \<le> sz then n else sz)
      # payloads (a + span pre + 12 + sz) post"
    using cs e by (auto simp: payloads_append add.assoc)
  moreover have "payloads a bs = payloads a pre @ payloads (a + span pre + 12 + sz) post"
    using e by (simp add: payloads_append add.assoc)
  ultimately show "\<exists>m \<ge> n. set (payloads a cs) = insert (q, m) (set (payloads a bs)) \<and> q + m \<le> a + span bs"
    using e by (intro exI [of _ "if n + 28 \<le> sz then n else sz"]) auto
  show "q \<notin> fst ` set (payloads a bs)"
    using e payloads_bounds [of q _ a pre] payloads_bounds [of q _ "a + span pre + 12 + sz" post]
    by (fastforce simp: payloads_append)
  assume m: "merged bs"
  have "free_block q a cs = pre @ (if n + 28 \<le> sz then [(n, True), (sz - n - 12, True)] else [(sz, True)]) @ post"
    using cs e(3) free_block_append [of q a pre] by auto
  moreover have "merge_blocks ((sz, True) # post) = (sz, True) # post"
    using m e by (intro merge_id) (simp add: merged_append)
  ultimately show "merge_blocks (free_block q a cs) = bs"
    using m e by (auto simp: merge_append merged_append)
qed

lemma payloads_disjoint:
  "(p, m) \<in> set (payloads a bs) \<Longrightarrow> (q, k) \<in> set (payloads a bs) \<Longrightarrow> p \<noteq> q \<Longrightarrow> p + m \<le> q \<or> q + k \<le> p"
proof (induction a bs rule: payloads.induct)
  case (2 a sz fr bs)
  then show ?case
    using payloads_bounds [of p m "a + 12 + sz" bs] payloads_bounds [of q k "a + 12 + sz" bs]
    by (auto split: if_splits)
qed simp

text \<open>A fully merged list with nothing in use is one free block.\<close>

lemma merged_no_payloads:
  assumes "merged bs" "payloads a bs = []" "bs \<noteq> []"
  shows "bs = [(span bs - 12, True)]"
proof -
  obtain sz fr cs where bs: "bs = (sz, fr) # cs" using assms(3) by (cases bs) auto
  with assms(2) have fr by (simp split: if_splits)
  have "cs = []"
  proof (rule ccontr)
    assume "cs \<noteq> []"
    then obtain sz' fr' ds where "cs = (sz', fr') # ds" by (cases cs) auto
    with bs assms(1,2) \<open>fr\<close> show False by (auto split: if_splits)
  qed
  with bs \<open>fr\<close> show ?thesis by simp
qed

section \<open>The operations on a heap\<close>

lemma heap_inv_bounds:
  assumes "heap_inv s h bs"
  shows "heap_list s (unat (head h)) bs" "bs \<noteq> []" "0 < unat (head h)"
    "unat (head h) + span bs < 4294967296" "span bs + 28 < 4294967296"
  using assms by (auto simp: heap_inv_def unat_gt_0)

lemma heap_alloc_cases:
  assumes "heap_inv s h bs"
  obtains (full) "alloc_blocks (unat n) (unat (head h)) bs = None" "heap_alloc h n s = Some (0, s)"
  | (taken) q cs t where "alloc_blocks (unat n) (unat (head h)) bs = Some (q, cs)"
      "heap_alloc h n s = Some (of_nat q, t)" "heap_inv t h cs" "heap_frame (unat (head h)) bs s t"
      "unat (of_nat q :: u32) = q" "(of_nat q :: u32) \<noteq> 0"
proof -
  note b = heap_inv_bounds [OF assms]
  have r: "alloc_rel s (unat (head h)) bs (alloc_blocks (unat n) (unat (head h)) bs) (heap_alloc h n s)"
    using alloc_from_refines [OF b(1,3-5) unat_u32_lt [of n]] b(2) by (simp add: heap_alloc_def)
  show ?thesis
  proof (cases "alloc_blocks (unat n) (unat (head h)) bs")
    case None
    with r show ?thesis by (auto simp: alloc_rel_def intro: full)
  next
    case (Some x)
    then obtain q cs where x: "alloc_blocks (unat n) (unat (head h)) bs = Some (q, cs)" by (cases x) auto
    with r obtain t where t: "heap_alloc h n s = Some (of_nat q, t)"
        "heap_list t (unat (head h)) cs" "heap_frame (unat (head h)) bs s t"
      by (auto simp: alloc_rel_def)
    note e = alloc_blocks_effect [OF x]
    have inv: "heap_inv t h cs"
      using assms t e(1) alloc_blocks_Nil [OF x] by (simp add: heap_inv_def)
    have q: "q < 4294967296" "0 < q" using e(3,5) b(4) by auto
    then have u: "unat (of_nat q :: u32) = q" by (intro unat_u32_of_nat)
    then have "(of_nat q :: u32) \<noteq> 0" using q(2) by (metis unat_0 less_numeral_extra(3))
    with taken [OF x t(1) inv t(3) u] show ?thesis .
  qed
qed

lemma heap_free_run:
  assumes inv: "heap_inv s h bs" and p: "(unat p, m) \<in> set (payloads (unat (head h)) bs)"
  obtains t where "heap_free h p s = Some t"
    "heap_inv t h (merge_blocks (free_block (unat p) (unat (head h)) bs))"
    "heap_frame (unat (head h)) (free_block (unat p) (unat (head h)) bs) s t"
proof -
  note b = heap_inv_bounds [OF inv]
  let ?a = "unat (head h)" and ?cs = "free_block (unat p) (unat (head h)) bs"
  have pb: "?a + 12 \<le> unat p" using payloads_bounds [OF p] by simp
  have blk: "(of_nat (unat p - 12) :: u32) = p - 12" using pb by (simp add: of_nat_diff)
  let ?s = "set_free (p - 12) True s"
  have sf: "heap_list ?s ?a ?cs" "heap_frame ?a bs s ?s"
    using set_free_refines [OF b(1) p b(4)] by (simp_all add: blk)
  then obtain t where t: "merge_from (of_nat ?a) ?s = Some t" "heap_list t ?a (merge_blocks ?cs)"
      "heap_frame ?a ?cs ?s t"
    using merge_from_refines [OF sf(1)] b by auto
  have "p \<noteq> 0" using pb by auto
  then have "heap_free h p s = Some t" using t(1) by (simp add: heap_free_def Let_def)
  moreover have "heap_inv t h (merge_blocks ?cs)" using inv t(2) by (simp add: heap_inv_def)
  moreover have "heap_frame ?a ?cs s t"
    unfolding heap_frame_def
  proof (intro allI impI)
    fix x :: u32
    assume x: "unat x < ?a \<or> ?a + span ?cs \<le> unat x \<or> unat x \<in> used_bytes ?a ?cs"
    with free_used_bytes [of ?a "unat p" bs]
    have "unat x < ?a \<or> ?a + span bs \<le> unat x \<or> unat x \<in> used_bytes ?a bs" by auto
    with sf(2) have "mem ?s x = mem s x" unfolding heap_frame_def by blast
    moreover from x t(3) have "mem t x = mem ?s x" unfolding heap_frame_def by blast
    ultimately show "mem t x = mem s x" by simp
  qed
  ultimately show ?thesis by (rule that)
qed

text \<open>A client writes its own block without disturbing the list.\<close>

lemma payload_used: "(p, m) \<in> set (payloads a bs) \<Longrightarrow> p \<le> x \<Longrightarrow> x < p + m \<Longrightarrow> x \<in> used_bytes a bs"
  by (induction a bs rule: payloads.induct) (auto split: if_splits)

lemma heap_inv_client_write:
  assumes "heap_inv s h bs" "(p, m) \<in> set (payloads (unat (head h)) bs)"
    and "p \<le> unat x" "unat x < p + m"
  shows "heap_inv (wr8 s x v) h bs"
proof -
  have "heap_list (wr8 s x v) (unat (head h)) bs = heap_list s (unat (head h)) bs"
    using heap_inv_bounds(4) [OF assms(1)] payload_used [OF assms(2-4)]
    by (intro heap_list_cong) (auto simp: wr8_def store8_def)
  then show ?thesis using assms(1) by (simp add: heap_inv_def)
qed

section \<open>The contract of an allocator and its clients\<close>

text \<open>
  What a client of \<open>kmalloc\<close> and \<open>kfree\<close> relies on: an allocation returns, either null and
  nothing happened, or a new block of at least the requested size; a free of a live pointer
  returns and releases that block alone; live blocks do not overlap.  \<open>live s L\<close> says that
  the live blocks in state \<open>s\<close> are those of \<open>L\<close>, as pairs of address and length.
\<close>

primrec alloc_all :: "(u32 \<Rightarrow> 's \<Rightarrow> (u32 \<times> 's) option) \<Rightarrow> u32 list \<Rightarrow> 's \<Rightarrow> (u32 list \<times> 's) option" where
  "alloc_all alloc [] s = Some ([], s)"
| "alloc_all alloc (n # ns) s =
     Option.bind (alloc n s) (\<lambda>(p, s). map_option (\<lambda>(ps, s). (p # ps, s)) (alloc_all alloc ns s))"

primrec free_all :: "(u32 \<Rightarrow> 's \<Rightarrow> 's option) \<Rightarrow> u32 list \<Rightarrow> 's \<Rightarrow> 's option" where
  "free_all release [] s = Some s"
| "free_all release (p # ps) s = Option.bind (release p s) (free_all release ps)"

locale block_allocator =
  fixes live :: "'s \<Rightarrow> (nat \<times> nat) set \<Rightarrow> bool"
    and alloc :: "u32 \<Rightarrow> 's \<Rightarrow> (u32 \<times> 's) option"
    and release :: "u32 \<Rightarrow> 's \<Rightarrow> 's option"
  assumes alloc_law: "live s L \<Longrightarrow> alloc n s = Some (0, s) \<or>
      (\<exists>p m t. alloc n s = Some (p, t) \<and> p \<noteq> 0 \<and> unat n \<le> m \<and> unat p \<notin> fst ` L
        \<and> live t (insert (unat p, m) L))"
    and free_law: "live s L \<Longrightarrow> (unat p, m) \<in> L \<Longrightarrow>
      \<exists>t. release p s = Some t \<and> live t {x \<in> L. fst x \<noteq> unat p}"
    and disjoint_law: "live s L \<Longrightarrow> (a, i) \<in> L \<Longrightarrow> (b, j) \<in> L \<Longrightarrow> a \<noteq> b \<Longrightarrow> a + i \<le> b \<or> b + j \<le> a"
    and null_law: "live s L \<Longrightarrow> (0, m) \<notin> L"
begin

text \<open>A batch of allocations returns distinct live pointers and keeps the older ones.\<close>

lemma alloc_all_live:
  assumes "live s L"
  obtains ps t N where "alloc_all alloc ns s = Some (ps, t)" "live t (N \<union> L)" "length ps = length ns"
    "fst ` N = unat ` (set ps - {0})" "fst ` N \<inter> fst ` L = {}" "distinct (filter (\<lambda>p. p \<noteq> 0) ps)"
    "\<forall>(p, n) \<in> set (zip ps ns). p \<noteq> 0 \<longrightarrow> (\<exists>m \<ge> unat n. (unat p, m) \<in> N)"
  using assms
proof (induction ns arbitrary: s L thesis)
  case Nil
  from Nil(1) [of "[]" s "{}"] Nil(2) show ?case by simp
next
  case (Cons n ns)
  from alloc_law [OF Cons.prems(2), of n] show ?case
  proof (elim disjE exE conjE)
    assume null: "alloc n s = Some (0, s)"
    show ?case
    proof (rule Cons.IH [OF _ Cons.prems(2)])
      fix ps t N
      assume r: "alloc_all alloc ns s = Some (ps, t)" "live t (N \<union> L)" "length ps = length ns"
        "fst ` N = unat ` (set ps - {0})" "fst ` N \<inter> fst ` L = {}" "distinct (filter (\<lambda>p. p \<noteq> 0) ps)"
        "\<forall>(p, n) \<in> set (zip ps ns). p \<noteq> 0 \<longrightarrow> (\<exists>m \<ge> unat n. (unat p, m) \<in> N)"
      show ?case by (rule Cons.prems(1) [of "0 # ps" t N]) (use r null in simp_all)
    qed
  next
    fix p m t
    assume a: "alloc n s = Some (p, t)" "p \<noteq> 0" "unat n \<le> m" "unat p \<notin> fst ` L"
      "live t (insert (unat p, m) L)"
    show ?case
    proof (rule Cons.IH [OF _ a(5)])
      fix ps u N
      assume r: "alloc_all alloc ns t = Some (ps, u)" "live u (N \<union> insert (unat p, m) L)"
        "length ps = length ns" "fst ` N = unat ` (set ps - {0})"
        "fst ` N \<inter> fst ` insert (unat p, m) L = {}" "distinct (filter (\<lambda>p. p \<noteq> 0) ps)"
        "\<forall>(p, n) \<in> set (zip ps ns). p \<noteq> 0 \<longrightarrow> (\<exists>m \<ge> unat n. (unat p, m) \<in> N)"
      have fresh: "p \<notin> set ps"
      proof
        assume "p \<in> set ps"
        with a(2) r(4) have "unat p \<in> fst ` N" by (metis Diff_iff imageI singletonD)
        with r(5) show False by auto
      qed
      have img: "fst ` insert (unat p, m) N = unat ` (set (p # ps) - {0})"
        using r(4) a(2) by (auto simp: insert_Diff_if)
      show ?case
        by (rule Cons.prems(1) [of "p # ps" u "insert (unat p, m) N"])
          (use r a fresh img in \<open>auto simp del: image_insert\<close>)
    qed
  qed
qed

text \<open>Freeing live pointers releases exactly these.\<close>

lemma free_all_live:
  assumes "live s L" "distinct ps" "unat ` set ps \<subseteq> fst ` L"
  obtains t where "free_all release ps s = Some t" "live t {x \<in> L. fst x \<notin> unat ` set ps}"
  using assms
proof (induction ps arbitrary: s L thesis)
  case (Cons p ps)
  then obtain m where "(unat p, m) \<in> L" by auto
  with free_law [OF Cons.prems(2)] obtain t where t: "release p s = Some t"
      "live t {x \<in> L. fst x \<noteq> unat p}" by blast
  have sub: "unat ` set ps \<subseteq> fst ` {x \<in> L. fst x \<noteq> unat p}"
  proof
    fix y assume "y \<in> unat ` set ps"
    then obtain q where q: "q \<in> set ps" "y = unat q" by blast
    with Cons.prems(4) obtain k where "(unat q, k) \<in> L" by auto
    moreover have "q \<noteq> p" using q Cons.prems(3) by auto
    then have "unat q \<noteq> unat p" by (simp add: word_unat_eq_iff)
    ultimately show "y \<in> fst ` {x \<in> L. fst x \<noteq> unat p}" using q(2) by force
  qed
  have d: "distinct ps" using Cons.prems(3) by simp
  have eq: "{x \<in> {x \<in> L. fst x \<noteq> unat p}. fst x \<notin> unat ` set ps} = {x \<in> L. fst x \<notin> unat ` set (p # ps)}"
    by auto
  show ?case
    by (rule Cons.IH [OF _ t(2) d sub], rule Cons.prems(1)) (use t(1) eq in auto)
qed (use assms in auto)

text \<open>Allocate a batch and free it again: the live blocks are the old ones.\<close>

lemma alloc_all_free_all:
  assumes "live s L"
  obtains ps t u where "alloc_all alloc ns s = Some (ps, t)"
    "free_all release (filter (\<lambda>p. p \<noteq> 0) ps) t = Some u" "live u L"
proof (rule alloc_all_live [OF assms])
  fix ps t N
  assume r: "alloc_all alloc ns s = Some (ps, t)" "live t (N \<union> L)"
    "fst ` N = unat ` (set ps - {0})" "fst ` N \<inter> fst ` L = {}" "distinct (filter (\<lambda>p. p \<noteq> 0) ps)"
  let ?ps = "filter (\<lambda>p. p \<noteq> 0) ps"
  have img: "unat ` set ?ps = fst ` N" unfolding r(3) by (rule arg_cong) auto
  obtain u where u: "free_all release ?ps t = Some u" "live u {x \<in> N \<union> L. fst x \<notin> unat ` set ?ps}"
    by (rule free_all_live [OF r(2,5)]) (use img in auto)
  have "{x \<in> N \<union> L. fst x \<notin> unat ` set ?ps} = L" unfolding img using r(4) by auto
  with u r(1) that show ?thesis by simp
qed

end

definition heap_live :: "heap \<Rightarrow> machine \<Rightarrow> (nat \<times> nat) set \<Rightarrow> bool" where
  "heap_live h s L \<longleftrightarrow> (\<exists>bs. heap_inv s h bs \<and> merged bs \<and> L = set (payloads (unat (head h)) bs))"

lemma heap_live_unique_size:
  "(p, m) \<in> set (payloads a bs) \<Longrightarrow> (p, k) \<in> set (payloads a bs) \<Longrightarrow> m = k"
proof (induction a bs rule: payloads.induct)
  case (2 a sz fr bs)
  then show ?case
    using payloads_bounds [of p m "a + 12 + sz" bs] payloads_bounds [of p k "a + 12 + sz" bs]
    by (auto split: if_splits)
qed simp

interpretation ha: block_allocator "heap_live h" "heap_alloc h" "heap_free h" for h
proof (unfold_locales, goal_cases)
  case (1 s L n)
  then obtain bs where bs: "heap_inv s h bs" "merged bs" "L = set (payloads (unat (head h)) bs)"
    by (auto simp: heap_live_def)
  from bs(1) show ?case
  proof (cases rule: heap_alloc_cases [of s h bs n])
    case (taken q cs t)
    note e = alloc_blocks_effect [OF taken(1)]
    from e(3) obtain m where m: "unat n \<le> m"
        "set (payloads (unat (head h)) cs) = insert (q, m) (set (payloads (unat (head h)) bs))" by auto
    have "heap_live h t (insert (unat (of_nat q :: u32), m) L)"
      unfolding heap_live_def using taken e(2) m bs by auto
    with taken m e(4) bs(3) show ?thesis by auto
  qed simp
next
  case (2 s L p m)
  then obtain bs where bs: "heap_inv s h bs" "merged bs" "L = set (payloads (unat (head h)) bs)"
    by (auto simp: heap_live_def)
  with 2(2) obtain t where t: "heap_free h p s = Some t"
      "heap_inv t h (merge_blocks (free_block (unat p) (unat (head h)) bs))"
    using heap_free_run [OF bs(1)] by metis
  have "set (payloads (unat (head h)) (merge_blocks (free_block (unat p) (unat (head h)) bs)))
      = {x \<in> L. fst x \<noteq> unat p}"
    by (simp add: payloads_free bs(3))
  with t show ?case unfolding heap_live_def by (metis merge_merged)
next
  case (3 s L a i b j)
  then show ?case by (auto simp: heap_live_def dest: payloads_disjoint)
next
  case (4 s L m)
  then show ?case using payloads_bounds [of 0 m] by (fastforce simp: heap_live_def)
qed

text \<open>
  Runs of the heap: allocations, frees of live pointers, and clients writing bytes of the
  blocks they hold.  The last component lists the allocations handed out and not freed, pointer
  and size asked for, one entry for each call that returned a pointer.
\<close>

inductive heap_run :: "heap \<Rightarrow> machine \<Rightarrow> machine \<Rightarrow> (u32 \<times> u32) list \<Rightarrow> bool" for h s0 where
  heap_start: "heap_run h s0 s0 []"
| heap_run_alloc: "heap_run h s0 s P \<Longrightarrow> heap_alloc h n s = Some (p, t) \<Longrightarrow>
    heap_run h s0 t (if p = 0 then P else (p, n) # P)"
| heap_run_free: "heap_run h s0 s P \<Longrightarrow> (p, n) \<in> set P \<Longrightarrow> heap_free h p s = Some t \<Longrightarrow>
    heap_run h s0 t (remove1 (p, n) P)"
| heap_run_write: "heap_run h s0 s P \<Longrightarrow> (p, n) \<in> set P \<Longrightarrow> i < n \<Longrightarrow>
    heap_run h s0 (wr8 s (p + i) v) P"

definition covered :: "(u32 \<times> u32) set \<Rightarrow> (nat \<times> nat) set \<Rightarrow> bool" where
  "covered P L \<longleftrightarrow> fst ` L = unat ` fst ` P \<and>
     (\<forall>p n m. (p, n) \<in> P \<longrightarrow> (unat p, m) \<in> L \<longrightarrow> unat n \<le> m)"

lemma covered_live:
  "covered P L \<Longrightarrow> (p, n) \<in> P \<Longrightarrow> \<exists>m \<ge> unat n. (unat p, m) \<in> L"
  unfolding covered_def by (metis fst_conv image_iff prod.collapse)

lemma covered_insert:
  assumes "covered P L" "unat p \<notin> fst ` L" "unat n \<le> m"
  shows "covered (insert (p, n) P) (insert (unat p, m) L)"
proof -
  have np: "(p, n') \<notin> P" for n'
  proof
    assume "(p, n') \<in> P"
    then have "unat p \<in> unat ` fst ` P" by force
    with assms(1,2) show False by (simp add: covered_def)
  qed
  have "unat n' \<le> m'" if "(q, n') \<in> insert (p, n) P" "(unat q, m') \<in> insert (unat p, m) L" for q n' m'
  proof (cases "q = p")
    case True
    with that np assms(2,3) show ?thesis by force
  next
    case False
    then have "unat q \<noteq> unat p" by (simp add: word_unat_eq_iff)
    with that False assms(1) show ?thesis by (auto simp: covered_def)
  qed
  with assms(1) show ?thesis by (simp add: covered_def)
qed

lemma heap_live_write:
  assumes "heap_live h s L" "(p, m) \<in> L" "p \<le> unat x" "unat x < p + m"
  shows "heap_live h (wr8 s x v) L"
  using assms heap_inv_client_write unfolding heap_live_def by blast

lemma heap_live_bound:
  "heap_live h s L \<Longrightarrow> (p, m) \<in> L \<Longrightarrow> p + m < 4294967296"
  unfolding heap_live_def heap_inv_def using payloads_bounds by fastforce

lemma heap_live_fun: "heap_live h s L \<Longrightarrow> (p, m) \<in> L \<Longrightarrow> (p, k) \<in> L \<Longrightarrow> m = k"
  unfolding heap_live_def using heap_live_unique_size by blast

lemma covered_remove:
  assumes "covered P L"
  shows "covered {x \<in> P. fst x \<noteq> p} {x \<in> L. fst x \<noteq> unat p}"
proof -
  have "fst ` {x \<in> L. fst x \<noteq> unat p} = fst ` L - {unat p}" by force
  also have "\<dots> = unat ` (fst ` P - {p})"
    using assms by (auto simp: covered_def image_iff word_unat_eq_iff)
  also have "fst ` P - {p} = fst ` {x \<in> P. fst x \<noteq> p}" by force
  finally show ?thesis using assms unfolding covered_def by blast
qed

lemma remove1_key:
  "distinct (map fst P) \<Longrightarrow> (p, n) \<in> set P \<Longrightarrow>
    set (remove1 (p, n) P) = {x \<in> set P. fst x \<noteq> p} \<and> distinct (map fst (remove1 (p, n) P))"
proof (induction P)
  case (Cons x P)
  show ?case
  proof (cases "x = (p, n)")
    case True
    then have "p \<notin> fst ` set P" using Cons.prems(1) by simp
    then have "set P = {y \<in> set P. fst y \<noteq> p}" by force
    with True Cons.prems(1) show ?thesis by auto
  next
    case False
    with Cons have ih: "set (remove1 (p, n) P) = {x \<in> set P. fst x \<noteq> p}" "distinct (map fst (remove1 (p, n) P))"
      "(p, n) \<in> set P" by auto
    have "fst x \<noteq> p" "fst x \<notin> fst ` set P" using Cons.prems(1) ih(3) by (auto simp: rev_image_eqI)
    with False ih show ?thesis by auto
  qed
qed simp

lemma distinct_pairwise:
  assumes "distinct (map fst P)" "\<And>p n q m. (p, n) \<in> set P \<Longrightarrow> (q, m) \<in> set P \<Longrightarrow> p \<noteq> q \<Longrightarrow> R p n q m"
  shows "sorted_wrt (\<lambda>(p, n) (q, m). p \<noteq> q \<and> R p n q m) P"
  using assms
proof (induction P)
  case (Cons x P)
  obtain a b where x: "x = (a, b)" by force
  have "sorted_wrt (\<lambda>(p, n) (q, m). p \<noteq> q \<and> R p n q m) P" using Cons by simp
  moreover have "a \<noteq> q \<and> R a b q m" if "(q, m) \<in> set P" for q m
  proof -
    have "a \<noteq> q" using Cons.prems(1) that by (auto simp: x rev_image_eqI)
    then show ?thesis using Cons.prems(2) that by (simp add: x)
  qed
  ultimately show ?case by (auto simp: x)
qed simp

lemma heap_run_invariant:
  assumes "heap_run h s0 s P" "heap_live h s0 {}"
  shows "\<exists>L. heap_live h s L \<and> covered (set P) L \<and> distinct (map fst P)"
  using assms
proof (induction rule: heap_run.induct)
  case heap_start
  then show ?case by (intro exI [of _ "{}"]) (simp add: covered_def)
next
  case (heap_run_alloc s P n p t)
  then obtain L where L: "heap_live h s L" "covered (set P) L" "distinct (map fst P)" by blast
  from ha.alloc_law [OF L(1), of n] show ?case
  proof (elim disjE exE conjE)
    assume "heap_alloc h n s = Some (0, s)"
    with heap_run_alloc L show ?case by auto
  next
    fix p' m t'
    assume a: "heap_alloc h n s = Some (p', t')" "p' \<noteq> 0" "unat n \<le> m" "unat p' \<notin> fst ` L"
      "heap_live h t' (insert (unat p', m) L)"
    then have eq: "p' = p" "t' = t" using heap_run_alloc.hyps by auto
    have "covered (set ((p, n) # P)) (insert (unat p, m) L)"
      using covered_insert [OF L(2)] a(3,4) eq by simp
    moreover have "p \<notin> fst ` set P" using a(4) eq L(2) by (auto simp: covered_def)
    ultimately show ?case using a eq L(3) by auto
  qed
next
  case (heap_run_free s P p n t)
  then obtain L where L: "heap_live h s L" "covered (set P) L" "distinct (map fst P)" by blast
  then obtain m where "(unat p, m) \<in> L" using covered_live heap_run_free.hyps by blast
  with ha.free_law [OF L(1)] heap_run_free.hyps(3) have "heap_live h t {x \<in> L. fst x \<noteq> unat p}"
    by fastforce
  with covered_remove [OF L(2), of p] remove1_key [OF L(3) heap_run_free.hyps(2)] show ?case by auto
next
  case (heap_run_write s P p n i v)
  then obtain L where L: "heap_live h s L" "covered (set P) L" "distinct (map fst P)" by blast
  then obtain m where m: "(unat p, m) \<in> L" "unat n \<le> m" using covered_live heap_run_write.hyps by blast
  have i: "unat i < unat n" using heap_run_write.hyps by (simp add: u32_less_iff)
  have "unat (p + i) = unat p + unat i"
    using heap_live_bound [OF L(1) m(1)] m(2) i by (intro u32_plus_no_wrap) linarith
  with heap_live_write [OF L(1) m(1), of "p + i" v] L(2,3) m(2) i show ?case by auto
qed

section \<open>Initialisation\<close>

text \<open>The set-up of the single free block.\<close>

definition one_block :: "u32 \<Rightarrow> u32 \<Rightarrow> machine \<Rightarrow> machine" where
  "one_block b n s = set_next b 0 (set_free b True (set_size b n s))"

lemma one_block:
  assumes "unat b + 12 \<le> 4294967296"
  shows "hdr_size (one_block b n s) b = n" "hdr_free (one_block b n s) b" "hdr_next (one_block b n s) b = 0"
    "unchanged_outside (unat b) (unat b + 12) s (one_block b n s)"
  using assms
  by (auto simp: one_block_def hdr_set_same unchanged_outside_def mem_set_hdr)

lemma heap_init_eq:
  assumes "fst (alloc_many (alloc_frame fa) m s) = map page_addr fs" "fs \<noteq> []" "m < 4294967296"
    and "hd fs = n" "last fs + 1 = n + d" "0 < m"
  shows "heap_init fa pd (of_nat m) s =
    (\<lparr>head = page_addr n, total_size = page_addr (n + d) - page_addr n\<rparr>,
     one_block (page_addr n) (page_addr (n + d) - page_addr n - 12)
       (identity_map_range pd (page_addr n) (page_addr (n + d)) (snd (alloc_many (alloc_frame fa) m s))))"
proof -
  have hd: "hd (map page_addr fs) = page_addr n" using assms(2,4) by (simp add: hd_map)
  have la: "last (map page_addr fs) + PAGE_SIZE = page_addr (n + d)"
    using assms(2,5) page_addr_Suc [of "last fs"] by (simp add: last_map)
  show ?thesis
    unfolding heap_init_def unat_u32_of_nat [OF assms(3)]
      alloc_loop_first_last [OF assms(6), of "alloc_frame fa" 0 0 s] assms(1) hd
    by (simp only: Let_def prod.case heap.simps la one_block_def)
qed

lemma page_addr_diff: "page_addr (n + m) - page_addr n = page_addr m"
  by (simp add: page_addr_add [symmetric])

text \<open>
  The least free frames, in order: what successive calls of \<open>alloc_frame\<close> return.
\<close>

definition least_frames :: "frame_allocator \<Rightarrow> machine \<Rightarrow> nat list \<Rightarrow> bool" where
  "least_frames fa s fs \<longleftrightarrow> sorted_wrt (<) fs \<and> (\<forall>f \<in> set fs. f < scanned fa \<and> (\<forall>k \<le> f. \<not> fa_used s k \<longleftrightarrow> k \<in> set fs))"

lemma sorted_hd_last:
  assumes "sorted_wrt (<) (fs :: nat list)" "fs \<noteq> []"
  shows "hd fs \<le> last fs"
  using assms by (cases fs) (auto dest: bspec [of _ _ "last fs"] intro: less_imp_le)

text \<open>\<open>init\<close> takes the least free frames and makes one block from the first to the last of them.\<close>

lemma heap_init_least:
  assumes fa: "fa_ok fa s" and pd: "pd_wf s pd" "unat (entries pd) + 4096 \<le> 0x500000"
    and fs: "least_frames fa s fs" "fs \<noteq> []" and n: "hd fs = n" "last fs + 1 = n + d"
    and m: "fa_end fa \<le> 4096 * n" "n + d < 1048576"
    and init: "heap_init fa pd (of_nat (length fs)) s = (h, t)"
  shows "h = \<lparr>head = page_addr n, total_size = page_addr d\<rparr>"
    "heap_inv t h [(4096 * d - 12, True)]" "pd_wf t pd"
    "pte t w = (if n \<le> unat w div 4096 \<and> unat w div 4096 < n + d
        then page_down w OR PG_PRESENT OR PG_WRITE else pte s w)"
    "k < scanned fa \<Longrightarrow> fa_used t k \<longleftrightarrow> k \<in> set fs \<or> fa_used s k"
proof -
  let ?u = "snd (alloc_many (alloc_frame fa) (length fs) s)"
  let ?v = "identity_map_range pd (page_addr n) (page_addr (n + d)) ?u"
  have wf: "fa_wf fa" and sc: "scanned fa \<le> 1048576"
    using fa scanned_bound [of fa] by (auto simp: fa_ok_def)
  have run: "fst (alloc_many (alloc_frame fa) (length fs) s) = map page_addr fs"
    and used: "\<And>k. k < scanned fa \<Longrightarrow> fa_used ?u k \<longleftrightarrow> k \<in> set fs \<or> fa_used s k"
    using fp.alloc_many_least [OF fa, of fs] fs(1) by (auto simp: least_frames_def)
  have d: "0 < d" using sorted_hd_last [of fs] fs n by (simp add: least_frames_def)
  have "distinct fs" using fs(1) strict_sorted_iff by (auto simp: least_frames_def)
  then have "length fs = card (set fs)" by (simp add: distinct_card)
  also have "\<dots> \<le> card {..<scanned fa}" using fs(1) by (intro card_mono) (auto simp: least_frames_def)
  finally have len: "length fs < 4294967296" using sc by simp
  have e: "h = \<lparr>head = page_addr n, total_size = page_addr d\<rparr>"
    "t = one_block (page_addr n) (page_addr d - 12) ?v"
    using heap_init_eq [OF run fs(2) len n, of pd] init fs(2) by (simp_all add: page_addr_diff)
  show "h = \<lparr>head = page_addr n, total_size = page_addr d\<rparr>" by (rule e)
  have un: "unat (page_addr n) = 4096 * n" "unat (page_addr d) = 4096 * d"
    "unat (page_addr (n + d)) = 4096 * (n + d)"
    using m by (simp_all add: unat_page_addr)
  have lim: "unat (page_addr n) + 12 \<le> 4294967296" using m by (simp add: un)
  have lo: "0x500000 < 4096 * n" using fa_end_bounds [OF wf] m(1) by linarith
  note ob = one_block [OF lim, where n = "page_addr d - 12" and s = ?v, folded e(2)]
  have su: "unchanged_outside 0x500000 (fa_end fa) s ?u" by (rule alloc_many_unchanged [OF wf])
  have wu: "pd_wf ?u pd" using pd_wf_unchanged [OF pd(1) su] pd(2) by simp
  have wv: "pd_wf ?v pd" by (rule identity_map_wf [OF wu])
  have uv: "unchanged_outside 0x100000 0x500000 ?u ?v" by (rule identity_map_unchanged [OF wu])
  show "pd_wf t pd" using pd_wf_unchanged [OF wv ob(4)] pd(2) lo by (simp add: un)
  have "page_addr d - 12 = of_nat (4096 * d - 12)"
    using d by (simp add: page_addr_def of_nat_diff)
  then have hl: "heap_list t (unat (page_addr n)) [(4096 * d - 12, True)]"
    using ob(1-3) by simp
  have "page_addr n \<noteq> 0" using un(1) lo by auto
  then show "heap_inv t h [(4096 * d - 12, True)]"
    unfolding heap_inv_def e(1) heap.simps using hl m d un by auto
  have pages: "(4096 * n + 4096 * d + 4095) div 4096 = n + d" by linarith
  show "pte t w = (if n \<le> unat w div 4096 \<and> unat w div 4096 < n + d
        then page_down w OR PG_PRESENT OR PG_WRITE else pte s w)"
    using pages pte_unchanged [OF ob(4), of w] pte_unchanged [OF su, of w] m lo
      identity_map_pte [OF wu, of "page_addr (n + d)" "page_addr n" w] by (simp add: un)
  show "fa_used t k \<longleftrightarrow> k \<in> set fs \<or> fa_used s k" if "k < scanned fa"
    using fa_used_unchanged [OF wf ob(4), of k] fa_used_unchanged [OF wf uv, of k] used [OF that] that m
    by (simp add: un)
qed

lemma least_frames_run:
  assumes "n + m \<le> scanned fa" "\<forall>k < n. fa_used s k" "\<forall>k. n \<le> k \<and> k < n + m \<longrightarrow> \<not> fa_used s k"
  shows "least_frames fa s [n..<n + m]"
  using assms by (auto simp: least_frames_def not_less [symmetric])

lemma heap_init_run:
  assumes fa: "fa_ok fa s" and pd: "pd_wf s pd" "unat (entries pd) + 4096 \<le> 0x500000"
    and free: "n + m \<le> scanned fa" "\<forall>k < n. fa_used s k" "\<forall>k. n \<le> k \<and> k < n + m \<longrightarrow> \<not> fa_used s k"
    and m: "0 < m" "fa_end fa \<le> 4096 * n" "n + m < 1048576"
    and init: "heap_init fa pd (of_nat m) s = (h, t)"
  shows "h = \<lparr>head = page_addr n, total_size = page_addr m\<rparr>"
    "heap_inv t h [(4096 * m - 12, True)]" "pd_wf t pd"
    "pte t w = (if n \<le> unat w div 4096 \<and> unat w div 4096 < n + m
        then page_down w OR PG_PRESENT OR PG_WRITE else pte s w)"
    "k < scanned fa \<Longrightarrow> fa_used t k \<longleftrightarrow> (n \<le> k \<and> k < n + m) \<or> fa_used s k"
proof -
  have "[n..<n + m] \<noteq> []" "hd [n..<n + m] = n" "last [n..<n + m] + 1 = n + m"
    "heap_init fa pd (of_nat (length [n..<n + m])) s = (h, t)"
    using m(1) init by simp_all
  note r = heap_init_least [OF fa pd least_frames_run [OF free] this(1-3) m(2,3) this(4)]
  show "h = \<lparr>head = page_addr n, total_size = page_addr m\<rparr>"
    "heap_inv t h [(4096 * m - 12, True)]" "pd_wf t pd"
    "pte t w = (if n \<le> unat w div 4096 \<and> unat w div 4096 < n + m
        then page_down w OR PG_PRESENT OR PG_WRITE else pte s w)" by (fact r(1-4))+
  show "k < scanned fa \<Longrightarrow> fa_used t k \<longleftrightarrow> (n \<le> k \<and> k < n + m) \<or> fa_used s k" using r(5) by simp
qed

text \<open>A one-page heap at 6 MiB, for concrete runs.\<close>

definition small_heap :: heap where
  "small_heap = \<lparr>head = 0x600000, total_size = 0x1000\<rparr>"

definition heap_machine :: machine where
  "heap_machine = one_block 0x600000 0xFF4 blank_machine"

lemma small_heap_inv: "heap_inv heap_machine small_heap [(4084, True)]"
  using one_block [of "0x600000", where n = "0xFF4" and s = blank_machine]
  by (simp add: heap_inv_def small_heap_def heap_machine_def)

lemma small_heap_live: "heap_live small_heap heap_machine {}"
  unfolding heap_live_def using small_heap_inv by (intro exI [of _ "[(4084, True)]"]) simp

lemma small_heap_alloc:
  obtains t where "heap_alloc small_heap 100 heap_machine = Some (0x60000C, t)"
    "heap_inv t small_heap [(100, False), (3972, True)]"
  using small_heap_inv
  by (cases rule: heap_alloc_cases [of heap_machine small_heap "[(4084, True)]" 100])
    (auto simp: small_heap_def)

lemma second_alloc:
  assumes "heap_inv s small_heap [(100, False), (3972, True)]"
  obtains q t where "heap_alloc small_heap 100 s = Some (q, t)" "q \<noteq> 0"
  using assms
  by (cases rule: heap_alloc_cases [of s small_heap "[(100, False), (3972, True)]" 100])
    (auto simp: small_heap_def)

section \<open>Properties\<close>

text \<open>
  C2. On a well-formed heap \<open>alloc\<close> returns, and is first fit: null and no change when no free
  block is large enough, otherwise the payload of the first one that is, split when at least
  16 payload bytes beyond a header are left over; nothing outside the heap and no byte of
  a block in use changes.
\<close>

theorem heap_alloc_first_fit:
  assumes "heap_inv s h bs"
  shows "if \<forall>b \<in> set bs. snd b \<longrightarrow> fst b < unat n then heap_alloc h n s = Some (0, s)
    else \<exists>pre sz post t. bs = pre @ (sz, True) # post \<and> unat n \<le> sz
      \<and> (\<forall>b \<in> set pre. \<not> (snd b \<and> unat n \<le> fst b))
      \<and> heap_alloc h n s = Some (of_nat (unat (head h) + span pre + 12), t)
      \<and> heap_inv t h (pre @ (if unat n + 28 \<le> sz then [(unat n, False), (sz - unat n - 12, True)]
                              else [(sz, False)]) @ post)
      \<and> heap_frame (unat (head h)) bs s t"
  using assms
proof (cases rule: heap_alloc_cases [of s h bs n])
  case full
  then show ?thesis by (simp add: alloc_blocks_None)
next
  case (taken q cs t)
  then have no: "\<not> (\<forall>b \<in> set bs. snd b \<longrightarrow> fst b < unat n)"
    using alloc_blocks_None [of "unat n" "unat (head h)" bs] by simp
  obtain pre sz post where e: "bs = pre @ (sz, True) # post" "unat n \<le> sz"
      "\<forall>b \<in> set pre. \<not> (snd b \<and> unat n \<le> fst b)" "q = unat (head h) + span pre + 12"
      "cs = pre @ (if unat n + 28 \<le> sz then [(unat n, False), (sz - unat n - 12, True)]
                    else [(sz, False)]) @ post"
    using taken(1) unfolding alloc_blocks_Some by blast
  show ?thesis
    unfolding if_not_P [OF no]
    by (intro exI conjI) (rule e(1-3) taken(4) taken(2,3) [unfolded e(4,5)])+
qed

theorem heap_alloc_first_fit_witness:
  "heap_inv heap_machine small_heap [(4084, True)] \<and>
   heap_alloc small_heap 5000 heap_machine = Some (0, heap_machine)"
  using heap_alloc_first_fit [OF small_heap_inv, of 5000] small_heap_inv by simp

text \<open>
  C11. Freeing a live pointer returns, and leaves a well-formed heap in which that block and no
  other has become free, no two adjacent blocks are both free, and neither memory outside
  the heap nor the blocks still in use have changed.
\<close>

theorem heap_free_merges:
  assumes "heap_inv s h bs" "(unat p, m) \<in> set (payloads (unat (head h)) bs)"
  shows "\<exists>t cs. heap_free h p s = Some t \<and> heap_inv t h cs \<and> merged cs
    \<and> payloads (unat (head h)) cs = [x \<leftarrow> payloads (unat (head h)) bs. fst x \<noteq> unat p]
    \<and> heap_frame (unat (head h)) cs s t"
proof -
  obtain t where t: "heap_free h p s = Some t"
    "heap_inv t h (merge_blocks (free_block (unat p) (unat (head h)) bs))"
    "heap_frame (unat (head h)) (free_block (unat p) (unat (head h)) bs) s t"
    by (rule heap_free_run [OF assms])
  moreover have "heap_frame (unat (head h)) (merge_blocks (free_block (unat p) (unat (head h)) bs)) s t"
    using t(3) by (simp add: heap_frame_def)
  ultimately show ?thesis
    by (intro exI [of _ t] exI [of _ "merge_blocks (free_block (unat p) (unat (head h)) bs)"])
      (simp add: payloads_free)
qed

theorem heap_free_merges_witness:
  "\<exists>s t cs. heap_inv s small_heap [(100, False), (3972, True)] \<and>
     heap_free small_heap 0x60000C s = Some t \<and> heap_inv t small_heap cs \<and> merged cs"
proof (rule small_heap_alloc)
  fix s assume s: "heap_inv s small_heap [(100, False), (3972, True)]"
  have "(unat (0x60000C :: u32), 100) \<in> set (payloads (unat (head small_heap)) [(100, False), (3972, True)])"
    by (simp add: small_heap_def)
  from heap_free_merges [OF s this] s show ?thesis by blast
qed

text \<open>
  C1. In every run of allocations, frees of live pointers and writes by clients to bytes they
  requested, starting from one free block, the allocations that are live lie inside the heap past
  the first header, and any two of them, of all the calls that returned a pointer and were not
  followed by its free, have different pointers and do not overlap: no block is handed out twice.
\<close>

theorem heap_run_safe:
  assumes "heap_inv s0 h [(sz, True)]" "heap_run h s0 s P"
  shows "(\<forall>(p, n) \<in> set P. unat (head h) + 12 \<le> unat p \<and> unat p + unat n \<le> unat (head h) + unat (total_size h))
    \<and> sorted_wrt (\<lambda>(p, n) (q, m). p \<noteq> q \<and> (unat p + unat n \<le> unat q \<or> unat q + unat m \<le> unat p)) P"
proof -
  have "heap_live h s0 {}"
    unfolding heap_live_def using assms(1) by (intro exI [of _ "[(sz, True)]"]) simp
  from heap_run_invariant [OF assms(2) this]
  obtain L where L: "heap_live h s L" "covered (set P) L" "distinct (map fst P)" by blast
  obtain bs where bs: "heap_inv s h bs" "L = set (payloads (unat (head h)) bs)"
    using L(1) by (auto simp: heap_live_def)
  have "unat (head h) + 12 \<le> unat p \<and> unat p + unat n \<le> unat (head h) + unat (total_size h)" if pn: "(p, n) \<in> set P" for p n
  proof -
    obtain i where "unat n \<le> i" "(unat p, i) \<in> L" using covered_live [OF L(2) pn] by blast
    then show ?thesis using payloads_bounds [of "unat p" i "unat (head h)" bs] bs by (simp add: heap_inv_def)
  qed
  moreover have "unat p + unat n \<le> unat q \<or> unat q + unat m \<le> unat p"
    if pq: "(p, n) \<in> set P" "(q, m) \<in> set P" "p \<noteq> q" for p n q m
  proof -
    obtain i j where "unat n \<le> i" "(unat p, i) \<in> L" "unat m \<le> j" "(unat q, j) \<in> L"
      using covered_live [OF L(2) pq(1)] covered_live [OF L(2) pq(2)] by blast
    then show ?thesis using ha.disjoint_law [OF L(1), of "unat p" i "unat q" j] pq(3) by (auto simp: word_unat_eq_iff)
  qed
  then have "sorted_wrt (\<lambda>(p, n) (q, m). p \<noteq> q \<and> (unat p + unat n \<le> unat q \<or> unat q + unat m \<le> unat p)) P"
    by (intro distinct_pairwise [OF L(3)])
  ultimately show ?thesis by blast
qed

theorem heap_run_safe_witness:
  "\<exists>s t q. heap_run small_heap heap_machine s [(0x60000C, 100)] \<and>
     heap_alloc small_heap 100 s = Some (q, t) \<and> q \<noteq> 0 \<and> (0x600070 \<le> unat q \<or> unat q + 100 \<le> 0x60000C)"
proof (rule small_heap_alloc)
  fix s assume s: "heap_alloc small_heap 100 heap_machine = Some (0x60000C, s)"
    "heap_inv s small_heap [(100, False), (3972, True)]"
  from heap_run.heap_run_alloc [OF heap_run.heap_start s(1)]
  have r: "heap_run small_heap heap_machine s [(0x60000C, 100)]" by simp
  from s(2) obtain q t where q: "heap_alloc small_heap 100 s = Some (q, t)" "q \<noteq> 0"
    by (rule second_alloc)
  from heap_run.heap_run_alloc [OF r q(1)] q(2)
  have "heap_run small_heap heap_machine t [(q, 100), (0x60000C, 100)]" by simp
  from heap_run_safe [OF small_heap_inv this] r q show ?thesis by auto
qed

text \<open>
  Freeing the block just allocated gives back the block list the heap had, if no two
  adjacent blocks were free.
\<close>

theorem heap_alloc_free_roundtrip:
  assumes "heap_inv s h bs" "merged bs" "heap_alloc h n s = Some (p, t)" "p \<noteq> 0"
  shows "\<exists>u. heap_free h p t = Some u \<and> heap_inv u h bs"
  using assms(1)
proof (cases rule: heap_alloc_cases [of s h bs n])
  case full
  with assms show ?thesis by simp
next
  case (taken q cs t')
  then have eq: "p = of_nat q" "t' = t" using assms(3) by auto
  note e = alloc_blocks_effect [OF taken(1)]
  from e(3) obtain m where "(unat p, m) \<in> set (payloads (unat (head h)) cs)"
    using taken(5) eq by auto
  with taken(3) eq obtain u where "heap_free h p t = Some u"
      "heap_inv u h (merge_blocks (free_block (unat p) (unat (head h)) cs))"
    using heap_free_run by metis
  with e(6) [OF assms(2)] taken(5) eq show ?thesis by auto
qed

theorem heap_alloc_free_roundtrip_witness:
  "\<exists>t u. heap_alloc small_heap 100 heap_machine = Some (0x60000C, t) \<and>
     heap_free small_heap 0x60000C t = Some u \<and> heap_inv u small_heap [(4084, True)]"
proof (rule small_heap_alloc)
  fix t assume "heap_alloc small_heap 100 heap_machine = Some (0x60000C, t)"
  with heap_alloc_free_roundtrip [OF small_heap_inv _ this] show ?thesis by auto
qed

text \<open>
  C34. Nothing leaks: any batch of allocations on a heap of one free block returns, and after
  the non-null results have been freed the heap is that one free block again.
\<close>

theorem heap_batch_no_leak:
  assumes "heap_inv s h [(sz, True)]"
  shows "\<exists>ps t u. alloc_all (heap_alloc h) ns s = Some (ps, t) \<and>
    free_all (heap_free h) (filter (\<lambda>p. p \<noteq> 0) ps) t = Some u \<and> heap_inv u h [(sz, True)]"
proof -
  have "heap_live h s {}"
    unfolding heap_live_def using assms by (intro exI [of _ "[(sz, True)]"]) simp
  then obtain ps t u where r: "alloc_all (heap_alloc h) ns s = Some (ps, t)"
      "free_all (heap_free h) (filter (\<lambda>p. p \<noteq> 0) ps) t = Some u" "heap_live h u {}"
    by (rule ha.alloc_all_free_all)
  then obtain bs where bs: "heap_inv u h bs" "merged bs" "payloads (unat (head h)) bs = []"
    by (auto simp: heap_live_def)
  moreover have "span bs = sz + 12" using assms bs(1) by (simp add: heap_inv_def)
  ultimately have "bs = [(sz, True)]"
    using merged_no_payloads [of bs] heap_inv_bounds(2) [OF bs(1)] by simp
  with r bs(1) show ?thesis by blast
qed

theorem heap_batch_no_leak_witness:
  "\<exists>ps t u. alloc_all (heap_alloc small_heap) [100, 5000, 200] heap_machine = Some (ps, t) \<and>
    free_all (heap_free small_heap) (filter (\<lambda>p. p \<noteq> 0) ps) t = Some u \<and>
    heap_inv u small_heap [(4084, True)]"
  by (rule heap_batch_no_leak [OF small_heap_inv])

text \<open>
  C32. \<open>init\<close> with \<open>m\<close> pages takes the \<open>m\<close> least free frames \<open>fs\<close> and no other, identity-maps the
  pages from the first to the last of them and no other page, and leaves a heap of one free block
  that spans all of these pages.  So the heap is the frames it took exactly when these are
  consecutive; a page between them whose frame was in use is part of the block all the same.
\<close>

theorem heap_init_spec:
  assumes "fa_ok fa s" "pd_wf s pd" "unat (entries pd) + 4096 \<le> 0x500000"
    "least_frames fa s fs" "fs \<noteq> []" "fa_end fa \<le> 4096 * hd fs" "last fs + 1 < 1048576"
    "heap_init fa pd (of_nat (length fs)) s = (h, t)"
  shows "h = \<lparr>head = page_addr (hd fs), total_size = page_addr (last fs + 1 - hd fs)\<rparr>
    \<and> heap_inv t h [(4096 * (last fs + 1 - hd fs) - 12, True)]
    \<and> walk t pd w = (if hd fs \<le> unat w div 4096 \<and> unat w div 4096 \<le> last fs then Some w else walk s pd w)
    \<and> (\<forall>k < scanned fa. fa_used t k \<longleftrightarrow> k \<in> set fs \<or> fa_used s k)"
proof -
  have d: "last fs + 1 = hd fs + (last fs + 1 - hd fs)"
    using sorted_hd_last [of fs] assms(4,5) by (simp add: least_frames_def)
  have b: "hd fs + (last fs + 1 - hd fs) < 1048576" using d assms(7) by simp
  note r = heap_init_least [OF assms(1-5) refl d assms(6) b assms(8)]
  have "walk t pd w = (if hd fs \<le> unat w div 4096 \<and> unat w div 4096 \<le> last fs then Some w else walk s pd w)"
    using d by (simp add: walk_pte [OF r(3)] walk_pte [OF assms(2)] r(4) page_simps)
  with r show ?thesis by auto
qed

text \<open>Frame \<open>0x602\<close> taken out of the free ones: the heap of four pages spans five.\<close>

theorem heap_init_spec_witness:
  "\<exists>h t. heap_init boot_fa boot_pd 4 (bm_set boot_memory BITMAP_BASE 0x602) = (h, t) \<and>
     h = \<lparr>head = 0x600000, total_size = 0x5000\<rparr> \<and> heap_inv t h [(0x4FF4, True)]"
proof -
  let ?s = "bm_set boot_memory BITMAP_BASE 0x602" let ?fs = "[0x600, 0x601, 0x603, 0x604]"
  have sc: "scanned boot_fa = 2048" by (simp add: scanned_def boot_fa_def)
  have used: "fa_used ?s k \<longleftrightarrow> k = 0x602 \<or> k < 0x600" if "k < 2048" for k
    using fa_used_bm_set [of "0x602" k boot_memory] boot_memory_used [OF that] that by simp
  have un: "unchanged_outside 0x500000 0x520000 boot_memory ?s"
    using frames.bm_unchanged(1) [of "0x602" boot_memory] by simp
  have ok: "fa_ok boot_fa ?s" "pd_wf ?s boot_pd"
    using boot_memory_ok used [of 0] pd_wf_unchanged [OF boot_memory_wf un] by (simp_all add: fa_ok_def boot_pd_def)
  have "least_frames boot_fa ?s ?fs" by (auto simp: least_frames_def sc used)
  moreover obtain h t where i: "heap_init boot_fa boot_pd (of_nat (length ?fs)) ?s = (h, t)" by force
  ultimately have "h = \<lparr>head = 0x600000, total_size = 0x5000\<rparr>" "heap_inv t h [(0x4FF4, True)]"
    using heap_init_spec [OF ok, of ?fs h t 0] by (auto simp: boot_fa_end boot_pd_def page_addr_def)
  with i show ?thesis by auto
qed

text \<open>
  The global \<open>kernel_heap\<close> behind \<open>kmalloc\<close> is never initialised (\<open>platform_init\<close>
  initialises a local \<open>Heap\<close>), and on it every \<open>kmalloc\<close> returns null.
\<close>

theorem kmalloc_null: "kmalloc kernel_heap n s = Some (0, s)"
  by (simp add: kmalloc_def heap_alloc_def kernel_heap_def alloc_from_split)

end
