(* ===== verification/Virtual_Memory.thy ===== *)
theory Virtual_Memory
  imports Frame_Alloc
begin

text \<open>
  \<^verbatim>\<open>arch/x86/memory/vmm\<close>: the virtual memory manager.  It hands out page ranges of the
  region from \<open>0xD0000000\<close>, tracks them in a bitmap of its own, backs each page with a frame
  of the frame allocator and maps it.  \<open>FrameAllocator\<close> and \<open>PageDirectory\<close> keep all
  mutable state in memory, so the two pointers of the C++ object are values here.
\<close>

abbreviation VMM_REGION_START :: u32 where "VMM_REGION_START \<equiv> 0xD0000000"
abbreviation VMM_REGION_SIZE :: u32 where "VMM_REGION_SIZE \<equiv> 0x20000000"
abbreviation NO_RANGE :: u32 where "NO_RANGE \<equiv> 0xFFFFFFFF"

definition VMM_TOTAL_PAGES :: u32 where
  "VMM_TOTAL_PAGES = VMM_REGION_SIZE div PAGE_SIZE"

record vmm =
  vbitmap :: u32
  region_start :: u32
  total_pages :: u32
  vfa :: frame_allocator
  vpd :: page_directory

section \<open>Operations\<close>

definition vmm_init :: "frame_allocator \<Rightarrow> page_directory \<Rightarrow> machine \<Rightarrow> vmm \<times> machine" where
  "vmm_init fa pd s =
     (let bitmap_bytes = VMM_TOTAL_PAGES div 8;
          bitmap_pages = (bitmap_bytes + PAGE_SIZE - 1) div PAGE_SIZE;
          (bitmap_start, s) =
            fold (\<lambda>i (bitmap_start, s). let (frame, s) = alloc_frame fa s
                    in (if i = 0 then frame else bitmap_start, s))
              [0..<unat bitmap_pages] (0, s);
          s = identity_map_range pd bitmap_start (bitmap_start + bitmap_pages * PAGE_SIZE) s;
          s = zero_memory bitmap_start bitmap_bytes s
      in (\<lparr>vbitmap = bitmap_start, region_start = VMM_REGION_START, total_pages = VMM_TOTAL_PAGES,
           vfa = fa, vpd = pd\<rparr>, s))"

function find_from :: "vmm \<Rightarrow> u32 \<Rightarrow> machine \<Rightarrow> u32 \<Rightarrow> u32 \<Rightarrow> u32 \<Rightarrow> u32" where
  "find_from v num_pages s i count start_index =
     (if i < total_pages v then
        if \<not> bm_test s (vbitmap v) i then
          let start_index = (if count = 0 then i else start_index); count = count + 1
          in if count = num_pages then start_index
             else find_from v num_pages s (i + 1) count start_index
        else find_from v num_pages s (i + 1) 0 start_index
      else NO_RANGE)"
  by pat_completeness auto
termination
proof (relation "measure (\<lambda>(v, num_pages, s, i, count, start_index). unat (total_pages v) - unat i)",
    goal_cases)
  case (2 v num_pages s i)
  then show ?case using u32_inc [of i "total_pages v"] by (simp add: u32_less_iff)
next
  case (3 v num_pages s i)
  then show ?case using u32_inc [of i "total_pages v"] by (simp add: u32_less_iff)
qed simp

declare find_from.simps [simp del]

definition find_free_range :: "vmm \<Rightarrow> u32 \<Rightarrow> machine \<Rightarrow> u32" where
  "find_free_range v num_pages s = find_from v num_pages s 0 0 0"

definition vmm_mark_used :: "vmm \<Rightarrow> u32 \<Rightarrow> u32 \<Rightarrow> machine \<Rightarrow> machine" where
  "vmm_mark_used v page_index count s =
     index_loop (page_index + count) (\<lambda>i s. bm_set s (vbitmap v) i) page_index s"

definition vmm_mark_free :: "vmm \<Rightarrow> u32 \<Rightarrow> u32 \<Rightarrow> machine \<Rightarrow> machine" where
  "vmm_mark_free v page_index count s =
     index_loop (page_index + count) (\<lambda>i s. bm_clear s (vbitmap v) i) page_index s"

definition back_page :: "vmm \<Rightarrow> u32 \<Rightarrow> nat \<Rightarrow> machine \<Rightarrow> machine" where
  "back_page v virt_addr i s =
     (let (frame, s) = alloc_frame (vfa v) s
      in map_range (vpd v) (virt_addr + of_nat i * PAGE_SIZE) frame PAGE_SIZE s)"

definition alloc_pages :: "vmm \<Rightarrow> u32 \<Rightarrow> machine \<Rightarrow> u32 \<times> machine" where
  "alloc_pages v num_pages s =
     (let start_idx = find_free_range v num_pages s
      in if start_idx = NO_RANGE then (0, s)
         else let virt_addr = region_start v + start_idx * PAGE_SIZE;
                  s = fold (back_page v virt_addr) [0..<unat num_pages] s;
                  s = vmm_mark_used v start_idx num_pages s
              in (virt_addr, s))"

definition release_page :: "vmm \<Rightarrow> u32 \<Rightarrow> nat \<Rightarrow> machine \<Rightarrow> machine" where
  "release_page v addr i s =
     (let virt_addr = addr + of_nat i * PAGE_SIZE;
          phys_addr = get_pte (vpd v) virt_addr s AND NOT 0xFFF;
          s = unmap_range (vpd v) virt_addr PAGE_SIZE s
      in free_frame (vfa v) phys_addr s)"

definition free_pages :: "vmm \<Rightarrow> u32 \<Rightarrow> u32 \<Rightarrow> machine \<Rightarrow> machine" where
  "free_pages v addr num_pages s =
     (let page_idx = (addr - region_start v) div PAGE_SIZE;
          s = fold (release_page v addr) [0..<unat num_pages] s
      in vmm_mark_free v page_idx num_pages s)"

text \<open>The global instance is \<open>kernel_vmm\<close>; the wrappers take it as their argument.\<close>

definition kmalloc_pages :: "vmm \<Rightarrow> u32 \<Rightarrow> machine \<Rightarrow> u32 \<times> machine" where
  "kmalloc_pages kernel_vmm num_pages s = alloc_pages kernel_vmm num_pages s"

definition kfree_pages :: "vmm \<Rightarrow> u32 \<Rightarrow> u32 \<Rightarrow> machine \<Rightarrow> machine" where
  "kfree_pages kernel_vmm addr num_pages s = free_pages kernel_vmm addr num_pages s"

definition init_vmm :: "frame_allocator \<Rightarrow> page_directory \<Rightarrow> machine \<Rightarrow> vmm \<times> machine" where
  "init_vmm fa pd s = vmm_init fa pd s"

section \<open>Searching the page bitmap\<close>

definition vused :: "vmm \<Rightarrow> machine \<Rightarrow> nat \<Rightarrow> bool" where
  "vused v s i \<longleftrightarrow> bm_test s (vbitmap v) (of_nat i)"

definition free_run :: "vmm \<Rightarrow> machine \<Rightarrow> nat \<Rightarrow> nat \<Rightarrow> bool" where
  "free_run v s n k \<longleftrightarrow> k + n \<le> unat (total_pages v) \<and> (\<forall>j < n. \<not> vused v s (k + j))"

text \<open>
  Loop invariant: the last \<open>c\<close> pages before \<open>i\<close> are free and no more than these, fewer than
  \<open>n\<close>, and no run of \<open>n\<close> free pages ends at or before \<open>i\<close>.
\<close>

definition scan_inv :: "vmm \<Rightarrow> machine \<Rightarrow> nat \<Rightarrow> nat \<Rightarrow> nat \<Rightarrow> bool" where
  "scan_inv v s n i c \<longleftrightarrow> c \<le> i \<and> c < n \<and> (\<forall>j. i - c \<le> j \<and> j < i \<longrightarrow> \<not> vused v s j)
     \<and> (c < i \<longrightarrow> vused v s (i - c - 1)) \<and> (\<forall>k. k + n \<le> i \<longrightarrow> \<not> free_run v s n k)"

lemma scan_inv_used:
  assumes "scan_inv v s n i c" "vused v s i"
  shows "scan_inv v s n (i + 1) 0"
proof -
  have "\<not> free_run v s n k" if "k + n \<le> i + 1" for k
  proof (cases "k + n \<le> i")
    case False
    with that assms have "i = k + (n - 1)" "n - 1 < n" by (auto simp: scan_inv_def)
    with assms(2) show ?thesis unfolding free_run_def by metis
  qed (use assms in \<open>simp add: scan_inv_def\<close>)
  with assms show ?thesis by (simp add: scan_inv_def)
qed

lemma scan_inv_free:
  assumes "scan_inv v s n i c" "\<not> vused v s i" "c + 1 \<noteq> n"
  shows "scan_inv v s n (i + 1) (c + 1)"
proof -
  have "\<not> free_run v s n k" if "k + n \<le> i + 1" for k
  proof (cases "k + n \<le> i")
    case False
    with that assms have "k \<le> i - c - 1" "i - c - 1 < k + n" "c < i" by (auto simp: scan_inv_def)
    moreover from this assms have "vused v s (i - c - 1)" by (simp add: scan_inv_def)
    moreover from calculation have "i - c - 1 = k + (i - c - 1 - k)" "i - c - 1 - k < n" by auto
    ultimately show ?thesis unfolding free_run_def by metis
  qed (use assms in \<open>simp add: scan_inv_def\<close>)
  with assms show ?thesis by (auto simp: scan_inv_def less_Suc_eq)
qed

lemma scan_inv_found:
  assumes "scan_inv v s n i c" "\<not> vused v s i" "c + 1 = n" "i < unat (total_pages v)"
  shows "free_run v s n (i - c) \<and> (\<forall>k < i - c. \<not> free_run v s n k)"
proof -
  have "\<not> vused v s (i - c + j)" if "j < n" for j
  proof (cases "j = c")
    case False
    with that assms(1,3) have "i - c \<le> i - c + j \<and> i - c + j < i" by (auto simp: scan_inv_def)
    with assms(1) show ?thesis unfolding scan_inv_def by blast
  qed (use assms in \<open>simp add: scan_inv_def\<close>)
  moreover have "i - c + n \<le> unat (total_pages v)" using assms by (simp add: scan_inv_def)
  moreover have "\<not> free_run v s n k" if "k < i - c" for k
  proof -
    have "k + n \<le> i" using that assms(3) by linarith
    with assms(1) show ?thesis by (simp add: scan_inv_def)
  qed
  ultimately show ?thesis by (simp add: free_run_def)
qed

lemma find_from_spec:
  assumes "scan_inv v s (unat n) (unat i) (unat c)" "unat i \<le> unat (total_pages v)"
    "c \<noteq> 0 \<longrightarrow> st = i - c"
  shows "(\<exists>k. find_from v n s i c st = of_nat k \<and> free_run v s (unat n) k \<and> (\<forall>j < k. \<not> free_run v s (unat n) j))
    \<or> (find_from v n s i c st = NO_RANGE \<and> (\<forall>k. \<not> free_run v s (unat n) k))"
  using assms
proof (induction v n s i c st rule: find_from.induct)
  case (1 v n s i c st)
  note find = find_from.simps [of v n s i c st]
  show ?case
  proof (cases "i < total_pages v")
    case False
    with "1.prems" have "unat i = unat (total_pages v)" by (simp add: u32_less_iff)
    with "1.prems"(1) have "\<forall>k. \<not> free_run v s (unat n) k"
      by (auto simp: scan_inv_def free_run_def)
    with False show ?thesis by (simp add: find)
  next
    case i: True
    then have ii: "unat (i + 1) = unat i + 1" "unat i < unat (total_pages v)"
      using u32_inc by (auto simp: u32_less_iff)
    have us: "bm_test s (vbitmap v) i \<longleftrightarrow> vused v s (unat i)" by (simp add: vused_def)
    show ?thesis
    proof (cases "vused v s (unat i)")
      case True
      have inv: "scan_inv v s (unat n) (unat (i + 1)) (unat (0 :: u32))"
        using scan_inv_used [OF "1.prems"(1) True] by (simp add: ii)
      have "find_from v n s i c st = find_from v n s (i + 1) 0 st"
        using i True us by (simp add: find)
      with "1.IH"(2) [OF i _ inv] True us ii show ?thesis by simp
    next
      case False
      have "unat c < unat n" using "1.prems"(1) by (simp add: scan_inv_def)
      then have cc: "unat (c + 1) = unat c + 1" using u32_inc [of c n] by (simp add: u32_less_iff)
      have le: "unat c \<le> unat i" using "1.prems"(1) by (simp add: scan_inv_def)
      let ?st = "if c = 0 then i else st"
      have st: "?st = i - c" using "1.prems"(3) by auto
      have ic: "of_nat (unat i - unat c) = i - c" using le by (simp add: of_nat_diff)
      show ?thesis
      proof (cases "c + 1 = n")
        case True
        then have "find_from v n s i c st = i - c" using i False us st by (simp add: find Let_def)
        moreover have "unat c + 1 = unat n" using True cc by auto
        ultimately show ?thesis
          using scan_inv_found [OF "1.prems"(1) False _ ii(2)] ic by metis
      next
        case ne: False
        then have "unat c + 1 \<noteq> unat n" using cc by (metis word_unat_eq_iff)
        then have inv: "scan_inv v s (unat n) (unat (i + 1)) (unat (c + 1))"
          using scan_inv_free [OF "1.prems"(1) False] by (simp add: ii cc)
        have "find_from v n s i c st = find_from v n s (i + 1) (c + 1) ?st"
          using i False us ne by (simp add: find Let_def)
        with "1.IH"(1) [OF i _ refl refl ne inv] False us ii st show ?thesis by simp
      qed
    qed
  qed
qed

lemma find_free_range_cases:
  assumes "0 < unat n"
  obtains (found) k where "find_free_range v n s = of_nat k" "free_run v s (unat n) k"
      "\<forall>j < k. \<not> free_run v s (unat n) j"
  | (none) "find_free_range v n s = NO_RANGE" "\<forall>k. \<not> free_run v s (unat n) k"
proof -
  have "scan_inv v s (unat n) (unat (0 :: u32)) (unat (0 :: u32))"
    using assms by (simp add: scan_inv_def free_run_def)
  from find_from_spec [OF this] that show ?thesis by (auto simp: find_free_range_def)
qed

lemma find_first:
  assumes "0 < unat n" "free_run v s (unat n) k" "\<forall>j < k. \<not> free_run v s (unat n) j"
  shows "find_free_range v n s = of_nat k"
  using assms(1)
  by (cases rule: find_free_range_cases [of n v s]) (use assms(2,3) in \<open>metis linorder_neqE_nat\<close>)+

text \<open>A request for no page finds none: the counter is compared after it was incremented.\<close>

lemma find_from_zero: "unat c \<le> unat i \<Longrightarrow> find_from v 0 s i c st = NO_RANGE"
proof (induction v "0 :: u32" s i c st rule: find_from.induct)
  case (1 v s i c st)
  show ?case
  proof (cases "i < total_pages v")
    case i: True
    have ii: "unat (i + 1) = unat i + 1" using u32_inc [OF i] .
    have "c < total_pages v" using "1.prems" i by (simp add: u32_less_iff)
    then have cc: "unat (c + 1) = unat c + 1" by (rule u32_inc)
    then have ne: "c + 1 \<noteq> 0" by (metis Suc_eq_plus1 nat.distinct(1) unat_0)
    show ?thesis
      using "1.hyps"(1) [OF i _ refl refl ne] "1.hyps"(2) [OF i] "1.prems" i ii cc ne
      by (simp add: find_from.simps [of v 0 s i c st] Let_def)
  qed (simp add: find_from.simps [of v 0 s i c st])
qed

section \<open>The invariant and the steps\<close>

definition vmm_ok :: "vmm \<Rightarrow> machine \<Rightarrow> bool" where
  "vmm_ok v s \<longleftrightarrow> fa_ok (vfa v) s \<and> pd_wf s (vpd v) \<and> unat (entries (vpd v)) + 4096 \<le> 0x100000
     \<and> fa_end (vfa v) \<le> unat (vbitmap v) \<and> unat (vbitmap v) + 16384 \<le> 4294967296
     \<and> region_start v = VMM_REGION_START \<and> total_pages v = VMM_TOTAL_PAGES"

lemma total_pages_value: "VMM_TOTAL_PAGES = 0x20000"
  by (simp add: VMM_TOTAL_PAGES_def)

lemma vmm_bitmap: "vmm_ok v s \<Longrightarrow> dword_bitmap (vbitmap v) 4096"
  unfolding dword_bitmap_def dword_array_def by (simp add: vmm_ok_def)

lemma vmm_bitmap_ops:
  "vmm_ok v s \<Longrightarrow> bitmap_ops (\<lambda>s. bm_test s (vbitmap v)) (\<lambda>s. bm_set s (vbitmap v))
     (\<lambda>s. bm_clear s (vbitmap v)) (32 * 4096)"
  using dword_bitmap.bm_test_set [OF vmm_bitmap] dword_bitmap.bm_test_clear [OF vmm_bitmap]
  by unfold_locales blast+

lemma vmm_okD:
  assumes "vmm_ok v s"
  shows "fa_ok (vfa v) s" "fa_wf (vfa v)" "pd_wf s (vpd v)" "scanned (vfa v) \<le> 1048576" "fa_used s 0"
    "fa_end (vfa v) \<le> unat (vbitmap v)" "0x500000 < unat (vbitmap v)"
  using assms scanned_bound [of "vfa v"] fa_end_bounds [of "vfa v"] by (auto simp: vmm_ok_def fa_ok_def)

text \<open>Writes to the page tables, the frame bitmap and the page bitmap do not interfere.\<close>

lemma vmm_tables_change:
  assumes "vmm_ok v s" "unchanged_outside 0x100000 0x500000 s t" "pd_wf t (vpd v)"
  shows "vmm_ok v t" "k < scanned (vfa v) \<Longrightarrow> fa_used t k = fa_used s k" "j < 131072 \<Longrightarrow> vused v t j = vused v s j"
proof -
  note okD = vmm_okD [OF assms(1)]
  have u: "fa_used t k = fa_used s k" if "k < scanned (vfa v) \<or> k = 0" for k
    using fa_used_unchanged [OF okD(2) assms(2) _ that] by simp
  then show "k < scanned (vfa v) \<Longrightarrow> fa_used t k = fa_used s k" by simp
  show "vmm_ok v t" using assms u [of 0] by (simp add: vmm_ok_def fa_ok_def)
  assume "j < 131072"
  then show "vused v t j = vused v s j"
    using dword_bitmap.bm_test_unchanged [OF vmm_bitmap [OF assms(1)] assms(2), of "of_nat j"] okD(7)
    by (simp add: vused_def unat_u32_of_nat)
qed

lemma vmm_frames_change:
  assumes "vmm_ok v s" "unchanged_outside 0x500000 hi s t" "hi \<le> unat (vbitmap v)" "fa_used t 0"
  shows "vmm_ok v t" "pte t w = pte s w" "j < 131072 \<Longrightarrow> vused v t j = vused v s j"
proof -
  have "pd_wf t (vpd v)" using pd_wf_unchanged [OF _ assms(2)] assms(1) by (simp add: vmm_ok_def)
  then show "vmm_ok v t" using assms by (simp add: vmm_ok_def fa_ok_def)
  show "pte t w = pte s w" using pte_unchanged [OF assms(2)] by simp
  assume "j < 131072"
  then show "vused v t j = vused v s j"
    using dword_bitmap.bm_test_unchanged [OF vmm_bitmap [OF assms(1)] assms(2), of "of_nat j"] assms(3)
    by (simp add: vused_def unat_u32_of_nat)
qed

lemma vmm_bitmap_change:
  assumes "vmm_ok v s" "unchanged_outside (unat (vbitmap v)) (unat (vbitmap v) + 16384) s t"
  shows "vmm_ok v t" "pte t w = pte s w" "k < scanned (vfa v) \<Longrightarrow> fa_used t k = fa_used s k"
proof -
  note okD = vmm_okD [OF assms(1)]
  show "pte t w = pte s w" using pte_unchanged [OF assms(2)] okD(7) by simp
  have u: "fa_used t k = fa_used s k" if "k < scanned (vfa v) \<or> k = 0" for k
    using fa_used_unchanged [OF okD(2) assms(2) _ that] okD(6) by simp
  then show "k < scanned (vfa v) \<Longrightarrow> fa_used t k = fa_used s k" by simp
  have "pd_wf t (vpd v)" using pd_wf_unchanged [OF _ assms(2)] assms(1) okD(7) by (simp add: vmm_ok_def)
  then show "vmm_ok v t" using assms(1) u [of 0] by (simp add: vmm_ok_def fa_ok_def)
qed

subsection \<open>Marking\<close>

lemma mark_range_index:
  "k + n \<le> 131072 \<Longrightarrow> index_loop (of_nat k + of_nat n) f (of_nat k) s = fold f (map of_nat [k..<k + n]) s"
  using unat_u32_of_nat [of k] unat_u32_of_nat [of "k + n"] by (simp add: index_loop_fold)

lemma vmm_marks:
  assumes "vmm_ok v s" "k + n \<le> 131072"
  shows "j < 131072 \<Longrightarrow> vused v (vmm_mark_used v (of_nat k) (of_nat n) s) j \<longleftrightarrow> (k \<le> j \<and> j < k + n) \<or> vused v s j"
    "j < 131072 \<Longrightarrow> vused v (vmm_mark_free v (of_nat k) (of_nat n) s) j \<longleftrightarrow> \<not> (k \<le> j \<and> j < k + n) \<and> vused v s j"
    "unchanged_outside (unat (vbitmap v)) (unat (vbitmap v) + 16384) s (vmm_mark_used v (of_nat k) (of_nat n) s)"
    "unchanged_outside (unat (vbitmap v)) (unat (vbitmap v) + 16384) s (vmm_mark_free v (of_nat k) (of_nat n) s)"
proof -
  note bm = vmm_bitmap [OF assms(1)] and ops = vmm_bitmap_ops [OF assms(1)]
  let ?is = "map of_nat [k..<k + n] :: u32 list"
  have bound: "\<forall>i \<in> set ?is. unat i < 32 * 4096"
    using assms(2) by (auto simp: unat_u32_of_nat)
  have mem: "(of_nat j :: u32) \<in> set ?is \<longleftrightarrow> k \<le> j \<and> j < k + n" if "j < 131072" for j
    using that assms(2) by (auto simp: u32_of_nat_inj)
  show "vused v (vmm_mark_used v (of_nat k) (of_nat n) s) j \<longleftrightarrow> (k \<le> j \<and> j < k + n) \<or> vused v s j"
    "vused v (vmm_mark_free v (of_nat k) (of_nat n) s) j \<longleftrightarrow> \<not> (k \<le> j \<and> j < k + n) \<and> vused v s j"
    if j: "j < 131072"
    using bitmap_ops.test_mark_all [OF ops bound, of "of_nat j" s]
      bitmap_ops.test_unmark_all [OF ops bound, of "of_nat j" s] mem [OF j] j
    by (simp_all add: vused_def vmm_mark_used_def vmm_mark_free_def mark_range_index [OF assms(2)]
        unat_u32_of_nat)
  show "unchanged_outside (unat (vbitmap v)) (unat (vbitmap v) + 16384) s (vmm_mark_used v (of_nat k) (of_nat n) s)"
    "unchanged_outside (unat (vbitmap v)) (unat (vbitmap v) + 16384) s (vmm_mark_free v (of_nat k) (of_nat n) s)"
    unfolding vmm_mark_used_def vmm_mark_free_def mark_range_index [OF assms(2)]
    using bound dword_bitmap.bm_unchanged [OF bm] by (auto intro!: unchanged_fold)
qed

text \<open>What the manager writes: page tables, frame bitmap and page bitmap, and nothing else.\<close>

definition tables_only :: "vmm \<Rightarrow> machine \<Rightarrow> machine \<Rightarrow> bool" where
  "tables_only v s t \<longleftrightarrow> (\<forall>x. \<not> (0x100000 \<le> unat x \<and> unat x < fa_end (vfa v)) \<and>
     \<not> (unat (vbitmap v) \<le> unat x \<and> unat x < unat (vbitmap v) + 16384) \<longrightarrow> mem t x = mem s x)"

lemma tables_only_refl [simp]: "tables_only v s s"
  by (simp add: tables_only_def)

lemma tables_only_trans [trans]: "tables_only v s t \<Longrightarrow> tables_only v t u \<Longrightarrow> tables_only v s u"
  by (simp add: tables_only_def)

lemma tables_onlyI:
  "unchanged_outside lo hi s t \<Longrightarrow> 0x100000 \<le> lo \<Longrightarrow> hi \<le> fa_end (vfa v) \<Longrightarrow> tables_only v s t"
  by (auto simp: tables_only_def unchanged_outside_def)

lemma tables_only_bitmap:
  "unchanged_outside (unat (vbitmap v)) (unat (vbitmap v) + 16384) s t \<Longrightarrow> tables_only v s t"
  by (auto simp: tables_only_def unchanged_outside_def)

lemma fold_tables:
  assumes "\<And>x s. P s \<Longrightarrow> P (f x s) \<and> tables_only v s (f x s)" "P s"
  shows "tables_only v s (fold f xs s)"
  using assms(2) by (induction xs arbitrary: s) (auto intro: tables_only_trans dest: assms(1))

subsection \<open>Backing and releasing one page\<close>

lemma page_stride: "page_addr B + of_nat i * PAGE_SIZE = page_addr (B + i)"
  by (simp add: page_addr_def algebra_simps)

lemma one_page:
  assumes "n < 1048575"
  shows "range_fits (page_addr n) PAGE_SIZE" "in_pages (page_addr n) PAGE_SIZE w \<longleftrightarrow> unat w div 4096 = n"
  using assms by (auto simp: range_fits_def in_pages_def unat_page_addr)

lemma back_page_frame:
  assumes ok: "vmm_ok v s" and B: "B + i < 1048575"
    and f: "f < scanned (vfa v)" "\<not> fa_used s f" "\<forall>k < f. fa_used s k"
  defines "t \<equiv> back_page v (page_addr B) i s"
  shows "vmm_ok v t" "k < scanned (vfa v) \<Longrightarrow> fa_used t k \<longleftrightarrow> k = f \<or> fa_used s k"
    "pte t w = (if unat w div 4096 = B + i then page_addr f OR 3 else pte s w)"
    "j < 131072 \<Longrightarrow> vused v t j = vused v s j"
proof -
  let ?u = "snd (alloc_frame (vfa v) s)"
  note okD = vmm_okD [OF ok]
  have a: "fst (alloc_frame (vfa v) s) = page_addr f" "fa_ok (vfa v) ?u"
    and us: "\<And>k. k < scanned (vfa v) \<Longrightarrow> fa_used ?u k \<longleftrightarrow> k = f \<or> fa_used s k"
    using fp.alloc_least [OF okD(1) f] by auto
  have t: "t = map_range (vpd v) (page_addr (B + i)) (page_addr f) PAGE_SIZE ?u"
    using a by (simp add: t_def back_page_def split_beta page_stride)
  note uc = vmm_frames_change [OF ok alloc_frame_unchanged [OF okD(2)] okD(6)]
  have "fa_used ?u 0" using a(2) by (simp add: fa_ok_def)
  note uc = uc [OF this]
  have wf: "pd_wf ?u (vpd v)" using uc(1) by (simp add: vmm_ok_def)
  note tc = vmm_tables_change [OF uc(1) map_range_unchanged [OF wf] map_range_wf [OF wf], folded t]
  show "vmm_ok v t" by (simp add: t tc)
  show "fa_used t k \<longleftrightarrow> k = f \<or> fa_used s k" if "k < scanned (vfa v)"
    using that okD(4) tc(2) us by (simp add: t)
  show "j < 131072 \<Longrightarrow> vused v t j = vused v s j" by (simp add: t tc uc)
  show "pte t w = (if unat w div 4096 = B + i then page_addr f OR 3 else pte s w)"
    using map_range_pte [OF wf one_page(1) [OF B], of "page_addr f" w] one_page(2) [OF B, of w] uc(2) B
    by (simp add: t unat_page_addr) (simp add: page_addr_def)
qed

lemma release_page_frame:
  assumes ok: "vmm_ok v s" and B: "B + i < 1048575"
    and f: "f < scanned (vfa v)" "f \<noteq> 0" "pte s (page_addr (B + i)) = page_addr f OR 3"
  defines "t \<equiv> release_page v (page_addr B) i s"
  shows "vmm_ok v t" "k < scanned (vfa v) \<Longrightarrow> fa_used t k \<longleftrightarrow> k \<noteq> f \<and> fa_used s k"
    "pte t w = (if unat w div 4096 = B + i then 0 else pte s w)"
    "j < 131072 \<Longrightarrow> vused v t j = vused v s j" "tables_only v s t"
proof -
  let ?u = "unmap_range (vpd v) (page_addr (B + i)) PAGE_SIZE s"
  note okD = vmm_okD [OF ok]
  have "unat (page_addr f) div 4096 < scanned (vfa v)" using f(1) okD(4) by (simp add: unat_page_addr)
  note ff = free_frame_unchanged [OF okD(2) this]
  have ph: "get_pte (vpd v) (page_addr (B + i)) s AND NOT 0xFFF = page_addr f"
  proof -
    have "page_down (page_addr f OR 3) = page_addr f" by (simp add: flags_3)
    then show ?thesis using f(3) by (simp add: get_pte_eq [OF okD(3)] page_down_def)
  qed
  have t: "t = free_frame (vfa v) (page_addr f) ?u"
    by (simp only: t_def release_page_def page_stride ph Let_def)
  note uc = vmm_tables_change [OF ok
      unmap_range_unchanged [OF okD(3), where virt = "page_addr (B + i)" and sz = PAGE_SIZE]
      unmap_range_wf [OF okD(3)]]
  note fu = fp.free_used [OF vmm_okD(1) [OF uc(1)] f(1,2)]
  note tc = vmm_frames_change [OF uc(1) ff okD(6)]
  have "fa_used (free_frame (vfa v) (page_addr f) ?u) 0" using fu by (simp add: fa_ok_def)
  note tc = tc [OF this]
  show "vmm_ok v t" by (simp add: t tc)
  have "tables_only v s ?u" "tables_only v ?u t"
    unfolding t using fa_end_bounds [OF okD(2)]
    by (auto intro: tables_onlyI [OF unmap_range_unchanged [OF okD(3)]] tables_onlyI [OF ff])
  then show "tables_only v s t" by (rule tables_only_trans)
  show "fa_used t k \<longleftrightarrow> k \<noteq> f \<and> fa_used s k" if "k < scanned (vfa v)"
    using that okD(4) uc(2) fu by (simp add: t)
  show "j < 131072 \<Longrightarrow> vused v t j = vused v s j" by (simp add: t tc uc)
  show "pte t w = (if unat w div 4096 = B + i then 0 else pte s w)"
    using unmap_range_pte [OF okD(3) one_page(1) [OF B], of w] one_page(2) [OF B, of w] tc(2)
    by (simp add: t)
qed

subsection \<open>Backing and releasing a range\<close>

definition free_frames :: "vmm \<Rightarrow> machine \<Rightarrow> nat set" where
  "free_frames v s = {k. k < scanned (vfa v) \<and> \<not> fa_used s k}"

text \<open>Pages from \<open>B\<close> on are backed by the frames \<open>fs\<close>; everything else is as in \<open>s\<close>.\<close>

definition backed :: "vmm \<Rightarrow> nat \<Rightarrow> nat list \<Rightarrow> machine \<Rightarrow> machine \<Rightarrow> bool" where
  "backed v B fs s t \<longleftrightarrow>
     (\<forall>w. pte t w = (if B \<le> unat w div 4096 \<and> unat w div 4096 < B + length fs
        then page_addr (fs ! (unat w div 4096 - B)) OR 3 else pte s w))"

lemma frames_nonzero: "vmm_ok v s \<Longrightarrow> free_frames v s \<subseteq> {0<..<scanned (vfa v)}"
  using vmm_okD(5) [of v s] by (auto simp: free_frames_def) (metis gr0I)

lemma back_pages:
  assumes "vmm_ok v s" "B + n < 1048575" "n \<le> card (free_frames v s)"
  defines "t \<equiv> fold (back_page v (page_addr B)) [0..<n] s"
  shows "vmm_ok v t \<and> (\<forall>j < 131072. vused v t j = vused v s j) \<and>
    (\<exists>fs. length fs = n \<and> distinct fs \<and> set fs \<subseteq> free_frames v s \<and> backed v B fs s t
      \<and> (\<forall>k < scanned (vfa v). fa_used t k \<longleftrightarrow> k \<in> set fs \<or> fa_used s k))"
  using assms(2,3) unfolding t_def
proof (induction n)
  case 0
  then show ?case using assms(1) by (auto simp: backed_def)
next
  case (Suc n)
  let ?u = "fold (back_page v (page_addr B)) [0..<n] s"
  obtain fs where ih: "vmm_ok v ?u" "\<forall>j < 131072. vused v ?u j = vused v s j"
      "length fs = n" "distinct fs" "set fs \<subseteq> free_frames v s" "backed v B fs s ?u"
      "\<forall>k < scanned (vfa v). fa_used ?u k \<longleftrightarrow> k \<in> set fs \<or> fa_used s k"
    using Suc by auto
  have "\<exists>f < scanned (vfa v). \<not> fa_used ?u f"
  proof (rule ccontr)
    assume "\<not> (\<exists>f < scanned (vfa v). \<not> fa_used ?u f)"
    then have "free_frames v s \<subseteq> set fs" using ih(7) by (auto simp: free_frames_def)
    then have "card (free_frames v s) \<le> card (set fs)" by (intro card_mono) simp_all
    then have "card (free_frames v s) \<le> n" using card_length [of fs] ih(3) by linarith
    with Suc.prems show False by simp
  qed
  then obtain f where f: "f < scanned (vfa v)" "\<not> fa_used ?u f" "\<forall>k < f. fa_used ?u k"
    using fp.least_free [OF vmm_okD(1) [OF ih(1)]] by metis
  have B: "B + n < 1048575" using Suc.prems by simp
  note st = back_page_frame [OF ih(1) B f]
  have fold: "fold (back_page v (page_addr B)) [0..<Suc n] s = back_page v (page_addr B) n ?u" by simp
  have new: "f \<notin> set fs" "f \<in> free_frames v s" using f ih(7) by (auto simp: free_frames_def)
  have "backed v B (fs @ [f]) s (back_page v (page_addr B) n ?u)"
    using ih(3,6) st(3) by (auto simp: backed_def nth_append less_Suc_eq)
  moreover have "\<forall>k < scanned (vfa v). fa_used (back_page v (page_addr B) n ?u) k
      \<longleftrightarrow> k \<in> set (fs @ [f]) \<or> fa_used s k"
    using st(2) ih(7) by auto
  ultimately show ?case
    unfolding fold using st(1,4) ih new
    by (intro conjI exI [of _ "fs @ [f]"]) auto
qed

text \<open>Without a free frame, \<open>alloc_frame\<close> returns 0 and the page is mapped to frame 0.\<close>

lemma back_page_none:
  assumes ok: "vmm_ok v s" and B: "B + i < 1048575" and none: "free_frames v s = {}"
  defines "t \<equiv> back_page v (page_addr B) i s"
  shows "vmm_ok v t" "free_frames v t = {}"
    "pte t w = (if unat w div 4096 = B + i then page_addr 0 OR 3 else pte s w)"
    "j < 131072 \<Longrightarrow> vused v t j = vused v s j"
proof -
  note okD = vmm_okD [OF ok]
  have "alloc_frame (vfa v) s = (0, s)"
    using fp.alloc_full [OF okD(1)] none by (auto simp: free_frames_def)
  then have t: "t = map_range (vpd v) (page_addr (B + i)) 0 PAGE_SIZE s"
    by (simp add: t_def back_page_def page_stride)
  note tc = vmm_tables_change [OF ok map_range_unchanged [OF okD(3)] map_range_wf [OF okD(3)], folded t]
  show "vmm_ok v t" by (simp add: t tc)
  show "free_frames v t = {}" using none okD(4) tc(2) by (auto simp: free_frames_def t)
  show "j < 131072 \<Longrightarrow> vused v t j = vused v s j" by (simp add: t tc)
  show "pte t w = (if unat w div 4096 = B + i then page_addr 0 OR 3 else pte s w)"
    using map_range_pte [OF okD(3) one_page(1) [OF B], of 0 w] one_page(2) [OF B, of w] B
    by (simp add: t unat_page_addr page_down_def)
qed

lemma back_pages_short:
  assumes "vmm_ok v s" "B + n < 1048575" "card (free_frames v s) \<le> n"
  defines "t \<equiv> fold (back_page v (page_addr B)) [0..<n] s"
  shows "\<exists>fs. distinct fs \<and> set fs = free_frames v s \<and> length fs \<le> n \<and> vmm_ok v t \<and> free_frames v t = {}
    \<and> backed v B (fs @ replicate (n - length fs) 0) s t"
  using assms(3,2) unfolding t_def
proof (induction n rule: dec_induct)
  case base
  let ?u = "fold (back_page v (page_addr B)) [0..<card (free_frames v s)] s"
  from back_pages [OF assms(1) base order_refl] obtain fs where fs: "vmm_ok v ?u" "length fs = card (free_frames v s)"
      "distinct fs" "set fs \<subseteq> free_frames v s" "backed v B fs s ?u"
      "\<forall>k < scanned (vfa v). fa_used ?u k \<longleftrightarrow> k \<in> set fs \<or> fa_used s k" by blast
  have "finite (free_frames v s)" by (simp add: free_frames_def)
  then have eq: "set fs = free_frames v s" using fs(2-4) by (intro card_subset_eq) (simp_all add: distinct_card)
  then have "free_frames v ?u = {}" using fs(6) by (auto simp: free_frames_def)
  with fs eq show ?case by (intro exI [of _ fs]) simp
next
  case (step n)
  let ?u = "fold (back_page v (page_addr B)) [0..<n] s"
  from step obtain fs where ih: "distinct fs" "set fs = free_frames v s" "length fs \<le> n" "vmm_ok v ?u"
      "free_frames v ?u = {}" "backed v B (fs @ replicate (n - length fs) 0) s ?u" by auto
  have B: "B + n < 1048575" using step.prems by simp
  note st = back_page_none [OF ih(4) B ih(5)]
  have "fs @ replicate (Suc n - length fs) 0 = (fs @ replicate (n - length fs) 0) @ [0]"
    using ih(3) by (simp add: Suc_diff_le replicate_append_same)
  then have "backed v B (fs @ replicate (Suc n - length fs) 0) s (back_page v (page_addr B) n ?u)"
    unfolding backed_def
    using ih(3,6) [unfolded backed_def] st(3) by (auto simp: nth_append less_Suc_eq)
  with st(1,2) ih(1-3) show ?case by (intro exI [of _ fs]) simp
qed

lemma release_pages:
  assumes "vmm_ok v s" "B + n < 1048575" "length fs = n" "distinct fs"
    "set fs \<subseteq> {0<..<scanned (vfa v)}" "\<forall>i < n. pte s (page_addr (B + i)) = page_addr (fs ! i) OR 3"
    and "m \<le> n"
  defines "t \<equiv> fold (release_page v (page_addr B)) [0..<m] s"
  shows "vmm_ok v t \<and> (\<forall>j < 131072. vused v t j = vused v s j) \<and>
    (\<forall>w. pte t w = (if B \<le> unat w div 4096 \<and> unat w div 4096 < B + m then 0 else pte s w)) \<and>
    (\<forall>k < scanned (vfa v). fa_used t k \<longleftrightarrow> k \<notin> set (take m fs) \<and> fa_used s k) \<and> tables_only v s t"
  using assms(7) unfolding t_def
proof (induction m)
  case 0
  then show ?case using assms(1) by auto
next
  case (Suc m)
  let ?u = "fold (release_page v (page_addr B)) [0..<m] s"
  have ih: "vmm_ok v ?u" "\<forall>j < 131072. vused v ?u j = vused v s j"
      "\<And>w. pte ?u w = (if B \<le> unat w div 4096 \<and> unat w div 4096 < B + m then 0 else pte s w)"
      "\<forall>k < scanned (vfa v). fa_used ?u k \<longleftrightarrow> k \<notin> set (take m fs) \<and> fa_used s k" "tables_only v s ?u"
    using Suc by auto
  have m: "m < n" "B + m < 1048575" using Suc.prems assms(2) by auto
  have f: "fs ! m < scanned (vfa v)" "fs ! m \<noteq> 0"
    using assms(3,5) m(1) by (auto dest: nth_mem [of m fs, THEN subsetD [rotated]])
  have "pte ?u (page_addr (B + m)) = page_addr (fs ! m) OR 3"
    using assms(6) m by (simp add: ih(3) unat_page_addr)
  note st = release_page_frame [OF ih(1) m(2) f this]
  have fold: "fold (release_page v (page_addr B)) [0..<Suc m] s = release_page v (page_addr B) m ?u" by simp
  have tk: "set (take (Suc m) fs) = insert (fs ! m) (set (take m fs))"
    using m(1) assms(3) by (simp add: take_Suc_conv_app_nth)
  show ?case
    unfolding fold tk using st(1-4) ih(1-4) tables_only_trans [OF ih(5) st(5)] by (auto simp: less_Suc_eq)
qed

section \<open>The operations\<close>

abbreviation region_page :: nat where "region_page \<equiv> 0xD0000"

lemma region_addr: "vmm_ok v s \<Longrightarrow> region_start v + of_nat k * PAGE_SIZE = page_addr (region_page + k)"
  by (simp add: vmm_ok_def page_addr_def)

lemma region_index:
  assumes "vmm_ok v s" "k < 131072"
  shows "(page_addr (region_page + k) - region_start v) div PAGE_SIZE = of_nat k"
proof -
  have e: "page_addr (region_page + k) - region_start v = page_addr k"
    using assms(1) by (simp add: vmm_ok_def page_addr_def)
  show ?thesis
    unfolding e using assms(2) by (simp add: word_unat_eq_iff unat_div unat_page_addr unat_u32_of_nat)
qed

lemma free_run_bound: "vmm_ok v s \<Longrightarrow> free_run v s n k \<Longrightarrow> k + n \<le> 131072"
  by (simp add: vmm_ok_def free_run_def total_pages_value)

lemma free_run_cong:
  assumes "vmm_ok v s" "\<forall>j < 131072. vused v u j \<longleftrightarrow> vused v s j"
  shows "free_run v u n k = free_run v s n k"
proof -
  have "unat (total_pages v) = 131072" using assms(1) by (simp add: vmm_ok_def total_pages_value)
  with assms(2) show ?thesis unfolding free_run_def by (intro conj_cong refl all_cong) simp
qed

lemma alloc_pages_eq:
  assumes "vmm_ok v s" "find_free_range v n s = of_nat k" "k < 131072"
  shows "alloc_pages v n s = (page_addr (region_page + k),
    vmm_mark_used v (of_nat k) n (fold (back_page v (page_addr (region_page + k))) [0..<unat n] s))"
proof -
  have "(of_nat k :: u32) \<noteq> of_nat 4294967295" using assms(3) by (subst u32_of_nat_inj) simp_all
  then have "(of_nat k :: u32) \<noteq> NO_RANGE" by simp
  then show ?thesis
    by (simp add: alloc_pages_def assms(2) region_addr [OF assms(1)] Let_def)
qed

lemma alloc_pages_run:
  assumes ok: "vmm_ok v s" and n: "n \<noteq> 0" "unat n \<le> card (free_frames v s)"
  obtains (none) "\<forall>k. \<not> free_run v s (unat n) k" "alloc_pages v n s = (0, s)"
  | (range) k fs t where "free_run v s (unat n) k" "\<forall>j < k. \<not> free_run v s (unat n) j"
      "alloc_pages v n s = (page_addr (region_page + k), t)" "vmm_ok v t"
      "length fs = unat n" "distinct fs" "set fs \<subseteq> free_frames v s"
      "backed v (region_page + k) fs s t"
      "\<forall>j < scanned (vfa v). fa_used t j \<longleftrightarrow> j \<in> set fs \<or> fa_used s j"
      "\<forall>j < 131072. vused v t j \<longleftrightarrow> (k \<le> j \<and> j < k + unat n) \<or> vused v s j"
proof -
  have "0 < unat n" using n(1) by (simp add: unat_gt_0)
  then show ?thesis
  proof (cases rule: find_free_range_cases [of n v s])
    case none': none
    then have "alloc_pages v n s = (0, s)" by (simp add: alloc_pages_def)
    with none'(2) show ?thesis by (rule that(1))
  next
    case (found k)
    have k: "k + unat n \<le> 131072" using free_run_bound [OF ok found(2)] .
    let ?u = "fold (back_page v (page_addr (region_page + k))) [0..<unat n] s"
    let ?t = "vmm_mark_used v (of_nat k) n ?u"
    have kn: "k < 131072" using k \<open>0 < unat n\<close> by linarith
    have "region_page + k + unat n < 1048575" using k by simp
    from back_pages [OF ok this n(2)] obtain fs where u: "vmm_ok v ?u"
        "\<forall>j < 131072. vused v ?u j = vused v s j" "length fs = unat n" "distinct fs"
        "set fs \<subseteq> free_frames v s" "backed v (region_page + k) fs s ?u"
        "\<forall>j < scanned (vfa v). fa_used ?u j \<longleftrightarrow> j \<in> set fs \<or> fa_used s j" by blast
    have nn: "of_nat (unat n) = n" by simp
    note mk = vmm_marks [OF u(1) k, unfolded nn]
    note bc = vmm_bitmap_change [OF u(1) mk(3)]
    have sc: "scanned (vfa v) \<le> 1048576" by (rule vmm_okD(4) [OF ok])
    show ?thesis
    proof (rule that(2) [OF found(2,3) alloc_pages_eq [OF ok found(1) kn] bc(1) u(3-5)])
      show "backed v (region_page + k) fs s ?t" using u(6) bc(2) by (simp add: backed_def)
      show "\<forall>j < scanned (vfa v). fa_used ?t j \<longleftrightarrow> j \<in> set fs \<or> fa_used s j"
      proof (intro allI impI)
        fix j assume j: "j < scanned (vfa v)"
        then have "fa_used ?t j = fa_used ?u j" using sc by (intro bc(3)) simp
        with u(7) j show "fa_used ?t j \<longleftrightarrow> j \<in> set fs \<or> fa_used s j" by simp
      qed
      show "\<forall>j < 131072. vused v ?t j \<longleftrightarrow> (k \<le> j \<and> j < k + unat n) \<or> vused v s j"
        using mk(1) u(2) by simp
    qed
  qed
qed

lemma walk_backed:
  assumes "vmm_ok v s" "vmm_ok v t" "backed v B fs s t"
  shows "walk t (vpd v) w =
    (if B \<le> unat w div 4096 \<and> unat w div 4096 < B + length fs
     then Some (page_addr (fs ! (unat w div 4096 - B)) OR (w AND 0xFFF)) else walk s (vpd v) w)"
proof -
  have "page_down (page_addr f OR 3) = page_addr f" for f by (simp add: flags_3)
  with assms(3) show ?thesis
    by (simp add: walk_pte [OF vmm_okD(3) [OF assms(1)]] walk_pte [OF vmm_okD(3) [OF assms(2)]]
        backed_def flags_3)
qed

lemma free_pages_run:
  assumes ok: "vmm_ok v s" and k: "k + unat n \<le> 131072" "n \<noteq> 0"
    and fs: "length fs = unat n" "distinct fs" "set fs \<subseteq> {0<..<scanned (vfa v)}"
      "\<forall>i < unat n. pte s (page_addr (region_page + k + i)) = page_addr (fs ! i) OR 3"
  defines "t \<equiv> free_pages v (page_addr (region_page + k)) n s"
  shows "vmm_ok v t"
    "pte t w = (if region_page + k \<le> unat w div 4096 \<and> unat w div 4096 < region_page + k + unat n
       then 0 else pte s w)"
    "j < scanned (vfa v) \<Longrightarrow> fa_used t j \<longleftrightarrow> j \<notin> set fs \<and> fa_used s j"
    "j < 131072 \<Longrightarrow> vused v t j \<longleftrightarrow> \<not> (k \<le> j \<and> j < k + unat n) \<and> vused v s j"
proof -
  let ?u = "fold (release_page v (page_addr (region_page + k))) [0..<unat n] s"
  have n0: "0 < unat n" using k(2) by (simp add: unat_gt_0)
  have B: "region_page + k + unat n < 1048575" using k by simp
  have "vmm_ok v ?u \<and> (\<forall>j < 131072. vused v ?u j = vused v s j) \<and>
    (\<forall>w. pte ?u w = (if region_page + k \<le> unat w div 4096 \<and> unat w div 4096 < region_page + k + unat n
       then 0 else pte s w)) \<and>
    (\<forall>j < scanned (vfa v). fa_used ?u j \<longleftrightarrow> j \<notin> set (take (unat n) fs) \<and> fa_used s j) \<and> tables_only v s ?u"
    by (rule release_pages [OF ok B fs]) simp
  then have u: "vmm_ok v ?u" "\<forall>j < 131072. vused v ?u j = vused v s j"
      "\<And>w. pte ?u w = (if region_page + k \<le> unat w div 4096 \<and> unat w div 4096 < region_page + k + unat n
         then 0 else pte s w)"
      "\<forall>j < scanned (vfa v). fa_used ?u j \<longleftrightarrow> j \<notin> set fs \<and> fa_used s j"
    using fs(1) by simp_all
  have t: "t = vmm_mark_free v (of_nat k) (of_nat (unat n)) ?u"
    using k(1) n0 region_index [OF ok, of k] by (simp add: t_def free_pages_def)
  note mk = vmm_marks [OF u(1) k(1), folded t]
  note bc = vmm_bitmap_change [OF u(1) mk(4)]
  have sc: "scanned (vfa v) \<le> 1048576" by (rule vmm_okD(4) [OF ok])
  show "vmm_ok v t" by (rule bc(1))
  show "pte t w = (if region_page + k \<le> unat w div 4096 \<and> unat w div 4096 < region_page + k + unat n
       then 0 else pte s w)" using bc(2) u(3) by simp
  show "fa_used t j \<longleftrightarrow> j \<notin> set fs \<and> fa_used s j" if "j < scanned (vfa v)"
    using that bc(3) u(4) sc by simp
  show "vused v t j \<longleftrightarrow> \<not> (k \<le> j \<and> j < k + unat n) \<and> vused v s j" if "j < 131072"
    using that mk(2) u(2) by simp
qed

section \<open>What the manager writes\<close>

lemma vmm_pd_low: "vmm_ok v s \<Longrightarrow> unat (entries (vpd v)) + 4096 \<le> 0x100000"
  by (simp add: vmm_ok_def)

lemma back_page_tables:
  assumes "pd_wf s (vpd v)" "fa_wf (vfa v)" "unat (entries (vpd v)) + 4096 \<le> 0x100000"
  shows "pd_wf (back_page v a i s) (vpd v) \<and> tables_only v s (back_page v a i s)"
proof -
  let ?u = "snd (alloc_frame (vfa v) s)"
  note u = alloc_frame_unchanged [OF assms(2), of s]
  have wf: "pd_wf ?u (vpd v)" using pd_wf_unchanged [OF assms(1) u] assms(3) by simp
  have "tables_only v s ?u" by (rule tables_onlyI [OF u]) simp_all
  also have "tables_only v ?u (back_page v a i s)"
    by (rule tables_onlyI [of "0x100000" "0x500000"])
      (use fa_end_bounds [OF assms(2)] in \<open>simp_all add: back_page_def split_beta map_range_unchanged [OF wf]\<close>)
  finally show ?thesis using wf by (simp add: back_page_def split_beta map_range_wf)
qed

lemma alloc_pages_tables:
  assumes "vmm_ok v s" "n \<noteq> 0" "unat n \<le> card (free_frames v s)"
  shows "tables_only v s (snd (alloc_pages v n s))"
proof -
  have "0 < unat n" using assms(2) by (simp add: unat_gt_0)
  then show ?thesis
  proof (cases rule: find_free_range_cases [of n v s])
    case (found k)
    have k: "k + unat n \<le> 131072" using free_run_bound [OF assms(1) found(2)] .
    let ?u = "fold (back_page v (page_addr (region_page + k))) [0..<unat n] s"
    have "tables_only v s ?u"
      by (rule fold_tables [of "\<lambda>s. pd_wf s (vpd v)"])
        (simp_all add: back_page_tables vmm_okD [OF assms(1)] vmm_pd_low [OF assms(1)])
    moreover have "region_page + k + unat n < 1048575" using k by simp
    with back_pages [OF assms(1) _ assms(3)] have u: "vmm_ok v ?u" by blast
    have nn: "of_nat (unat n) = n" by simp
    have "tables_only v ?u (vmm_mark_used v (of_nat k) n ?u)"
      by (rule tables_only_bitmap [OF vmm_marks(3) [OF u k, unfolded nn]])
    moreover have "k < 131072" using k \<open>0 < unat n\<close> by linarith
    ultimately show ?thesis
      using alloc_pages_eq [OF assms(1) found(1)] by (auto intro: tables_only_trans)
  next
    case none
    then show ?thesis by (simp add: alloc_pages_def)
  qed
qed

lemma free_pages_tables:
  assumes "vmm_ok v s" "k + unat n \<le> 131072" "n \<noteq> 0" "length fs = unat n" "distinct fs"
    "set fs \<subseteq> {0<..<scanned (vfa v)}"
    "\<forall>i < unat n. pte s (page_addr (region_page + k + i)) = page_addr (fs ! i) OR 3"
  shows "tables_only v s (free_pages v (page_addr (region_page + k)) n s)"
proof -
  let ?u = "fold (release_page v (page_addr (region_page + k))) [0..<unat n] s"
  have n0: "0 < unat n" using assms(3) by (simp add: unat_gt_0)
  have B: "region_page + k + unat n < 1048575" using assms(2) by simp
  have u: "vmm_ok v ?u" and "tables_only v s ?u"
    using release_pages [OF assms(1) B assms(4-7) order_refl] by simp_all
  moreover have "free_pages v (page_addr (region_page + k)) n s = vmm_mark_free v (of_nat k) (of_nat (unat n)) ?u"
    using assms(2) n0 region_index [OF assms(1), of k] by (simp add: free_pages_def)
  ultimately show ?thesis
    using tables_only_bitmap [OF vmm_marks(4) [OF u assms(2)]] by (auto intro: tables_only_trans)
qed

text \<open>A change above the fixed tables that misses the page bitmap.\<close>

lemma vmm_other_change:
  assumes "vmm_ok v s" "unchanged_outside lo hi s t" "fa_end (vfa v) \<le> lo"
    and "hi \<le> unat (vbitmap v) \<or> unat (vbitmap v) + 16384 \<le> lo"
  shows "vmm_ok v t" "pte t w = pte s w" "k < scanned (vfa v) \<Longrightarrow> fa_used t k = fa_used s k"
    "j < 131072 \<Longrightarrow> vused v t j = vused v s j"
proof -
  note okD = vmm_okD [OF assms(1)]
  have lo: "0x500000 \<le> lo" using fa_end_bounds [OF okD(2)] assms(3) by simp
  show pt: "pte t w = pte s w" for w using pte_unchanged [OF assms(2)] lo by simp
  have fu: "fa_used t k = fa_used s k" if "k < scanned (vfa v) \<or> k = 0" for k
    using fa_used_unchanged [OF okD(2) assms(2) _ that] assms(3) by simp
  then show "k < scanned (vfa v) \<Longrightarrow> fa_used t k = fa_used s k" by simp
  have "pd_wf t (vpd v)" using pd_wf_unchanged [OF _ assms(2)] assms(1) lo by (simp add: vmm_ok_def)
  then show "vmm_ok v t" using assms(1) fu [of 0] by (simp add: vmm_ok_def fa_ok_def)
  assume "j < 131072"
  then show "vused v t j = vused v s j"
    using dword_bitmap.bm_test_unchanged [OF vmm_bitmap [OF assms(1)] assms(2), of "of_nat j"] assms(4)
    by (auto simp: vused_def unat_u32_of_nat)
qed

lemma finite_free_frames: "finite (free_frames v s)"
  by (rule finite_subset [of _ "{..<scanned (vfa v)}"]) (auto simp: free_frames_def)

lemma pages_total: "vmm_ok v s \<Longrightarrow> unat (total_pages v) = 131072"
  by (simp add: vmm_ok_def total_pages_value)

section \<open>Initialisation\<close>

lemma vmm_init_eq:
  assumes "fst (alloc_many (alloc_frame fa) 4 s) = map page_addr [n..<n + 4]"
  shows "vmm_init fa pd s =
    (\<lparr>vbitmap = page_addr n, region_start = VMM_REGION_START, total_pages = VMM_TOTAL_PAGES,
      vfa = fa, vpd = pd\<rparr>,
     zero_memory (page_addr n) 0x4000
       (identity_map_range pd (page_addr n) (page_addr (n + 4)) (snd (alloc_many (alloc_frame fa) 4 s))))"
proof -
  have hd: "hd (map page_addr [n..<n + 4]) = page_addr n" by (simp add: hd_map)
  have e: "page_addr n + 0x4000 = page_addr (n + 4)" by (simp add: page_addr_def)
  have b: "VMM_TOTAL_PAGES div 8 = 0x4000" "(0x4000 + PAGE_SIZE - 1) div PAGE_SIZE = (4 :: u32)"
    "unat (4 :: u32) = 4" "4 * PAGE_SIZE = (0x4000 :: u32)"
    by (simp_all add: total_pages_value)
  show ?thesis
    unfolding vmm_init_def Let_def b
      alloc_loop_first [of 4 "alloc_frame fa" 0 s, unfolded Let_def, OF zero_less_numeral] assms hd
    by (simp only: prod.case e)
qed

lemma vused_zeroed:
  assumes "unat b + 16384 \<le> 4294967296" "vbitmap v = b" "j < 131072"
  shows "\<not> vused v (zero_memory b 0x4000 s) j"
proof -
  have d: "dword_array b 4096" using assms(1) by unfold_locales simp
  have j: "unat (of_nat j div 32 :: u32) < 4096"
    using assms(3) by (simp add: unat_div unat_u32_of_nat div_less_iff_less_mult)
  have "rd_elem (zero_memory b 0x4000 s) b (of_nat j div 32) = 0"
    unfolding rd_elem_def using assms(1) j dword_array.unat_elem [OF d j]
    by (intro rd32_zeroed) simp_all
  then show ?thesis by (simp add: vused_def bm_test_def assms(2))
qed

lemma vmm_init_run:
  assumes fa: "fa_ok fa s" and pd: "pd_wf s pd" "unat (entries pd) + 4096 \<le> 0x100000"
    and free: "n + 4 \<le> scanned fa" "\<forall>k < n. fa_used s k" "\<forall>k. n \<le> k \<and> k < n + 4 \<longrightarrow> \<not> fa_used s k"
    and n: "fa_end fa \<le> 4096 * n" "n + 4 < 1048576"
    and init: "vmm_init fa pd s = (v, t)"
  shows "vmm_ok v t" "j < 131072 \<Longrightarrow> \<not> vused v t j"
    "vfa v = fa" "vpd v = pd"
    "k < scanned fa \<Longrightarrow> fa_used t k \<longleftrightarrow> (n \<le> k \<and> k < n + 4) \<or> fa_used s k"
    "pte t w = (if n \<le> unat w div 4096 \<and> unat w div 4096 < n + 4
        then page_down w OR PG_PRESENT OR PG_WRITE else pte s w)"
    "vbitmap v = page_addr n"
proof -
  let ?u = "snd (alloc_many (alloc_frame fa) 4 s)"
  let ?x = "identity_map_range pd (page_addr n) (page_addr (n + 4)) ?u"
  have wf: "fa_wf fa" and sc: "scanned fa \<le> 1048576"
    using fa scanned_bound [of fa] by (auto simp: fa_ok_def)
  have run: "fst (alloc_many (alloc_frame fa) 4 s) = map page_addr [n..<n + 4]" and uok: "fa_ok fa ?u"
    and used: "\<And>k. k < scanned fa \<Longrightarrow> fa_used ?u k \<longleftrightarrow> (n \<le> k \<and> k < n + 4) \<or> fa_used s k"
    using fp.alloc_many_run [OF fa free] by auto
  have v: "v = \<lparr>vbitmap = page_addr n, region_start = VMM_REGION_START, total_pages = VMM_TOTAL_PAGES,
      vfa = fa, vpd = pd\<rparr>" and t: "t = zero_memory (page_addr n) 0x4000 ?x"
    using vmm_init_eq [OF run, of pd] init by simp_all
  have un: "unat (page_addr n) = 4096 * n" "unat (page_addr (n + 4)) = 4096 * (n + 4)"
    using n by (simp_all add: unat_page_addr)
  have lo: "0x500000 < 4096 * n" using fa_end_bounds [OF wf] n(1) by linarith
  have su: "unchanged_outside 0x500000 (fa_end fa) s ?u" by (rule alloc_many_unchanged [OF wf])
  have wu: "pd_wf ?u pd" using pd_wf_unchanged [OF pd(1) su] pd(2) by simp
  have wx: "pd_wf ?x pd" by (rule identity_map_wf [OF wu])
  have ux: "unchanged_outside 0x100000 0x500000 ?u ?x" by (rule identity_map_unchanged [OF wu])
  have xt: "unchanged_outside (4096 * n) (4096 * n + 16384) ?x t"
    unfolding t zero_memory_def using n by (intro unchanged_fill_bytes) (simp_all add: un)
  have ft: "fa_used t k = fa_used ?u k" if "k < scanned fa \<or> k = 0" for k
    using fa_used_unchanged [OF wf xt _ that] fa_used_unchanged [OF wf ux _ that] n by simp
  show "vmm_ok v t"
    unfolding vmm_ok_def
    using pd_wf_unchanged [OF wx xt] pd(2) uok ft [of 0] n un lo by (simp add: v fa_ok_def)
  show "\<not> vused v t j" if "j < 131072"
    unfolding t using n un that by (intro vused_zeroed) (simp_all add: v)
  show "vfa v = fa" "vpd v = pd" "vbitmap v = page_addr n" by (simp_all add: v)
  show "fa_used t k \<longleftrightarrow> (n \<le> k \<and> k < n + 4) \<or> fa_used s k" if "k < scanned fa"
    using that sc ft used by simp
  have pages: "(4096 * n + 16384 + 4095) div 4096 = n + 4" by linarith
  show "pte t w = (if n \<le> unat w div 4096 \<and> unat w div 4096 < n + 4
        then page_down w OR PG_PRESENT OR PG_WRITE else pte s w)"
    using pages pte_unchanged [OF xt, of w] pte_unchanged [OF su, of w] n lo
      identity_map_pte [OF wu, of "page_addr (n + 4)" "page_addr n" w] by (simp add: un)
qed

text \<open>The manager on the machine of the allocator's concrete runs.\<close>

definition boot_vmm :: vmm where
  "boot_vmm = fst (vmm_init boot_fa boot_pd boot_memory)"

definition boot_vm :: machine where
  "boot_vm = snd (vmm_init boot_fa boot_pd boot_memory)"

lemma boot_vmm_run:
  "vmm_ok boot_vmm boot_vm" "j < 131072 \<Longrightarrow> \<not> vused boot_vmm boot_vm j" "vfa boot_vmm = boot_fa"
  "vpd boot_vmm = boot_pd" "k < 2048 \<Longrightarrow> fa_used boot_vm k \<longleftrightarrow> k < 0x604"
  "vbitmap boot_vmm = page_addr 0x600"
proof -
  have i: "vmm_init boot_fa boot_pd boot_memory = (boot_vmm, boot_vm)"
    by (simp add: boot_vmm_def boot_vm_def)
  have sc: "scanned boot_fa = 2048" by (simp add: scanned_def boot_fa_def)
  have h: "unat (entries boot_pd) + 4096 \<le> 0x100000" "0x600 + 4 \<le> scanned boot_fa"
    "\<forall>k < 0x600. fa_used boot_memory k" "\<forall>k. 0x600 \<le> k \<and> k < 0x600 + 4 \<longrightarrow> \<not> fa_used boot_memory k"
    "fa_end boot_fa \<le> 4096 * 0x600" "0x600 + 4 < (1048576 :: nat)"
    by (simp_all add: boot_pd_def sc boot_memory_used boot_fa_end)
  note r = vmm_init_run [OF boot_memory_ok boot_memory_wf h i]
  show "vmm_ok boot_vmm boot_vm" "j < 131072 \<Longrightarrow> \<not> vused boot_vmm boot_vm j" "vfa boot_vmm = boot_fa"
    "vpd boot_vmm = boot_pd" "vbitmap boot_vmm = page_addr 0x600" by (fact r(1-4,7))+
  show "k < 2048 \<Longrightarrow> fa_used boot_vm k \<longleftrightarrow> k < 0x604" using r(5) [of k] by (auto simp: sc boot_memory_used)
qed

lemma boot_free_frames: "card (free_frames boot_vmm boot_vm) = 508"
proof -
  have "free_frames boot_vmm boot_vm = {0x604..<2048}"
    by (auto simp: free_frames_def boot_vmm_run scanned_def boot_fa_def)
  then show ?thesis by simp
qed

lemma boot_free_run: "free_run boot_vmm boot_vm n k \<longleftrightarrow> k + n \<le> 131072"
proof -
  have "total_pages boot_vmm = VMM_TOTAL_PAGES" using boot_vmm_run(1) by (simp add: vmm_ok_def)
  then show ?thesis by (auto simp: free_run_def total_pages_value boot_vmm_run)
qed

section \<open>Properties\<close>

text \<open>
  \<open>find_free_range\<close> returns the least index at which a run of \<open>num_pages\<close> free pages
  starts, and \<open>0xFFFFFFFF\<close> exactly when there is no such run; a request for 0 pages finds none.
\<close>

theorem find_free_range_least:
  "find_free_range v n s =
     (if n \<noteq> 0 \<and> (\<exists>k. free_run v s (unat n) k) then of_nat (LEAST k. free_run v s (unat n) k) else NO_RANGE)"
proof (cases "n = 0")
  case True
  then show ?thesis by (simp add: find_free_range_def find_from_zero)
next
  case False
  then have "0 < unat n" by (simp add: unat_gt_0)
  then show ?thesis
  proof (cases rule: find_free_range_cases [of n v s])
    case (found k)
    then have "(LEAST k. free_run v s (unat n) k) = k"
      by (intro Least_equality) (auto simp: not_less [symmetric])
    with found False show ?thesis by auto
  next
    case none
    then show ?thesis by simp
  qed
qed

text \<open>
  C4. \<open>alloc_pages\<close>, when enough frames are free: it returns null and changes nothing if there
  is no run of free pages; otherwise it takes the first run, maps its pages to distinct frames
  that were free, leaves every other translation alone, and marks exactly these frames and
  these pages used.
\<close>

theorem alloc_pages_spec:
  assumes "vmm_ok v s" "n \<noteq> 0" "unat n \<le> card (free_frames v s)" "alloc_pages v n s = (a, t)"
  shows "if \<forall>k. \<not> free_run v s (unat n) k then a = 0 \<and> t = s
    else \<exists>k fs. free_run v s (unat n) k \<and> (\<forall>j < k. \<not> free_run v s (unat n) j)
      \<and> a = page_addr (region_page + k) \<and> length fs = unat n \<and> distinct fs \<and> set fs \<subseteq> free_frames v s
      \<and> (\<forall>w. walk t (vpd v) w =
            (if region_page + k \<le> unat w div 4096 \<and> unat w div 4096 < region_page + k + unat n
             then Some (page_addr (fs ! (unat w div 4096 - (region_page + k))) OR (w AND 0xFFF))
             else walk s (vpd v) w))
      \<and> (\<forall>j < scanned (vfa v). fa_used t j \<longleftrightarrow> j \<in> set fs \<or> fa_used s j)
      \<and> (\<forall>j < 131072. vused v t j \<longleftrightarrow> (k \<le> j \<and> j < k + unat n) \<or> vused v s j) \<and> vmm_ok v t"
  using assms(1-3)
proof (cases rule: alloc_pages_run [of v s n])
  case none
  with assms(4) show ?thesis by simp
next
  case (range k fs t')
  have t: "t' = t" "a = page_addr (region_page + k)" using range(3) assms(4) by auto
  have w: "\<forall>w. walk t (vpd v) w =
      (if region_page + k \<le> unat w div 4096 \<and> unat w div 4096 < region_page + k + unat n
       then Some (page_addr (fs ! (unat w div 4096 - (region_page + k))) OR (w AND 0xFFF))
       else walk s (vpd v) w)"
    using walk_backed [OF assms(1) range(4,8)] range(5) t(1) by simp
  have no: "\<not> (\<forall>k. \<not> free_run v s (unat n) k)" using range(1) by blast
  show ?thesis
    unfolding if_not_P [OF no]
    by (intro exI conjI) (rule range(1,2) t(2) range(5,6,7) w range(9,10,4) [unfolded t(1)])+
qed

theorem alloc_pages_spec_witness:
  "vmm_ok boot_vmm boot_vm \<and> 4 \<le> card (free_frames boot_vmm boot_vm) \<and>
   fst (alloc_pages boot_vmm 4 boot_vm) = 0xD0000000"
proof -
  obtain a t where e: "alloc_pages boot_vmm 4 boot_vm = (a, t)" by force
  have no: "\<not> (\<forall>k. \<not> free_run boot_vmm boot_vm (unat (4 :: u32)) k)"
    by (auto simp: boot_free_run intro: exI [of _ 0])
  obtain k where k: "\<forall>j < k. \<not> free_run boot_vmm boot_vm (unat (4 :: u32)) j" "a = page_addr (region_page + k)"
    using alloc_pages_spec [OF boot_vmm_run(1) _ _ e] boot_free_frames
    unfolding if_not_P [OF no] by auto
  have "free_run boot_vmm boot_vm (unat (4 :: u32)) 0" by (simp add: boot_free_run)
  with k(1) have "k = 0" by (metis gr0I)
  with k(2) e boot_vmm_run(1) boot_free_frames show ?thesis by (simp add: page_addr_def)
qed

text \<open>
  C14. \<open>free_pages\<close> on a range whose pages are mapped to distinct frames: these pages and no
  other lose their translation, these frames and no other become free, and the pages of the
  range and no other are marked free.
\<close>

theorem free_pages_spec:
  assumes "vmm_ok v s" "n \<noteq> 0" "k + unat n \<le> 131072" "length fs = unat n" "distinct fs"
    "set fs \<subseteq> {0<..<scanned (vfa v)}"
    "\<forall>i < unat n. pte s (page_addr (region_page + k + i)) = page_addr (fs ! i) OR 3"
    "t = free_pages v (page_addr (region_page + k)) n s"
  shows "vmm_ok v t
    \<and> walk t (vpd v) w = (if region_page + k \<le> unat w div 4096 \<and> unat w div 4096 < region_page + k + unat n
        then None else walk s (vpd v) w)
    \<and> (\<forall>j < scanned (vfa v). fa_used t j \<longleftrightarrow> j \<notin> set fs \<and> fa_used s j)
    \<and> (\<forall>j < 131072. vused v t j \<longleftrightarrow> \<not> (k \<le> j \<and> j < k + unat n) \<and> vused v s j)"
proof -
  note r = free_pages_run [OF assms(1,3,2,4-7), folded assms(8)]
  show ?thesis
    using r by (simp add: walk_pte [OF vmm_okD(3) [OF r(1)]] walk_pte [OF vmm_okD(3) [OF assms(1)]])
qed

theorem free_pages_spec_witness:
  "\<exists>s k f. vmm_ok boot_vmm s \<and> pte s (page_addr (region_page + k)) = page_addr f OR 3 \<and>
     walk (free_pages boot_vmm (page_addr (region_page + k)) 1 s) boot_pd (page_addr (region_page + k)) = None"
proof -
  have n: "(1 :: u32) \<noteq> 0" "unat (1 :: u32) \<le> card (free_frames boot_vmm boot_vm)"
    by (simp_all add: boot_free_frames)
  show ?thesis
    using boot_vmm_run(1) n
  proof (cases rule: alloc_pages_run [of boot_vmm boot_vm 1])
    case none
    from none(1) [rule_format, of 0] show ?thesis by (simp add: boot_free_run)
  next
    case (range k fs t)
    have k: "k + unat (1 :: u32) \<le> 131072" using free_run_bound [OF boot_vmm_run(1) range(1)] .
    have un: "unat (page_addr (region_page + k)) div 4096 = region_page + k"
      using k by (simp add: unat_page_addr)
    have fs: "set fs \<subseteq> {0<..<scanned (vfa boot_vmm)}"
      using frames_nonzero [OF boot_vmm_run(1)] range(7) by blast
    have pt: "pte t (page_addr (region_page + k)) = page_addr (fs ! 0) OR 3"
      using range(5,8) un by (simp add: backed_def)
    have "walk (free_pages boot_vmm (page_addr (region_page + k)) 1 t) boot_pd (page_addr (region_page + k)) = None"
      using free_pages_spec [OF range(4) n(1) k range(5,6) fs _ refl, of "page_addr (region_page + k)"] pt un
      by (simp add: boot_vmm_run)
    with range(4) pt show ?thesis by blast
  qed
qed

text \<open>
  C33. Allocating a range and freeing it again restores the frame bitmap and the page bitmap
  and leaves the range unmapped, and the next allocation of the same size returns the same
  address.
\<close>

theorem alloc_free_pages_roundtrip:
  assumes "vmm_ok v s" "n \<noteq> 0" "unat n \<le> card (free_frames v s)" "alloc_pages v n s = (a, t)" "a \<noteq> 0"
    "u = free_pages v a n t"
  shows "vmm_ok v u \<and> (\<forall>j < scanned (vfa v). fa_used u j \<longleftrightarrow> fa_used s j)
    \<and> (\<forall>j < 131072. vused v u j \<longleftrightarrow> vused v s j) \<and> walk u (vpd v) a = None
    \<and> fst (alloc_pages v n u) = a"
  using assms(1-3)
proof (cases rule: alloc_pages_run [of v s n])
  case none
  with assms(4,5) show ?thesis by simp
next
  case (range k fs t')
  have e: "t' = t" "a = page_addr (region_page + k)" using range(3) assms(4) by auto
  have k: "k + unat n \<le> 131072" by (rule free_run_bound [OF assms(1) range(1)])
  have pg: "unat (page_addr (region_page + k + i)) div 4096 = region_page + k + i" if "i < unat n" for i
    using that k by (simp add: unat_page_addr)
  have fs: "set fs \<subseteq> {0<..<scanned (vfa v)}"
    using frames_nonzero [OF assms(1)] range(7) by (rule subset_trans [rotated])
  have pt: "\<forall>i < unat n. pte t (page_addr (region_page + k + i)) = page_addr (fs ! i) OR 3"
    using range(5,8) pg by (simp add: backed_def e(1))
  note f = free_pages_run [OF range(4) [unfolded e(1)] k assms(2) range(5,6) fs pt,
      folded e(2), folded assms(6)]
  have fu: "\<forall>j < scanned (vfa v). fa_used u j \<longleftrightarrow> fa_used s j"
    using f(3) range(7,9) by (auto simp: e(1) free_frames_def)
  have vu: "\<forall>j < 131072. vused v u j \<longleftrightarrow> vused v s j"
    using f(4) range(1,10) by (auto simp: e(1) free_run_def le_iff_add)
  have "free_run v u (unat n) i = free_run v s (unat n) i" for i
    by (rule free_run_cong [OF assms(1) vu])
  then have run: "free_run v u (unat n) k" "\<forall>j < k. \<not> free_run v u (unat n) j" using range(1,2) by auto
  have n0: "0 < unat n" using assms(2) by (simp add: unat_gt_0)
  then have "find_free_range v n u = of_nat k" using run by (rule find_first)
  then have "fst (alloc_pages v n u) = a"
    using alloc_pages_eq [OF f(1), of n k] k n0 by (simp add: e(2))
  moreover have "walk u (vpd v) a = None"
    using f(2) [of a] pg [of 0] n0 by (simp add: walk_pte [OF vmm_okD(3) [OF f(1)]] e(2))
  ultimately show ?thesis using f(1) fu vu by simp
qed

theorem alloc_free_pages_roundtrip_witness:
  "\<exists>t. alloc_pages boot_vmm 1 boot_vm = (0xD0000000, t) \<and>
     fst (alloc_pages boot_vmm 1 (free_pages boot_vmm 0xD0000000 1 t)) = 0xD0000000"
proof -
  have "find_free_range boot_vmm 1 boot_vm = of_nat 0" by (rule find_first) (simp_all add: boot_free_run)
  then obtain t where t: "alloc_pages boot_vmm 1 boot_vm = (0xD0000000, t)"
    using alloc_pages_eq [OF boot_vmm_run(1), of 1 0] by (simp add: page_addr_def)
  with alloc_free_pages_roundtrip [OF boot_vmm_run(1) _ _ t _ refl] boot_free_frames show ?thesis by auto
qed

text \<open>
  C38. \<open>alloc_pages\<close> does not check the result of \<open>alloc_frame\<close>.  When fewer frames are free than
  pages are asked for, and the region has a free run of that many pages, it still returns a non-null
  address: the first pages get the free frames, one each, and every page after them is mapped to
  physical address 0.
\<close>

theorem alloc_pages_out_of_frames:
  assumes "vmm_ok v s" "card (free_frames v s) < unat n" "free_run v s (unat n) k"
  shows "\<exists>a t fs. alloc_pages v n s = (a, t) \<and> a \<noteq> 0 \<and> distinct fs \<and> set fs = free_frames v s \<and>
    (\<forall>i < unat n. walk t (vpd v) (a + of_nat i * PAGE_SIZE) = Some (if i < length fs then page_addr (fs ! i) else 0))"
proof -
  obtain i where fr: "free_run v s (unat n) i" "\<forall>j < i. \<not> free_run v s (unat n) j"
    using LeastI [of "free_run v s (unat n)", OF assms(3)] not_less_Least [of _ "free_run v s (unat n)"] by blast
  have i: "i + unat n \<le> 131072" "i < 131072" using free_run_bound [OF assms(1) fr(1)] assms(2) by simp_all
  have found: "find_free_range v n s = of_nat i" using fr assms(2) by (intro find_first) simp_all
  let ?B = "region_page + i" let ?u = "fold (back_page v (page_addr ?B)) [0..<unat n] s"
  let ?t = "vmm_mark_used v (of_nat i) n ?u"
  have "?B + unat n < 1048575" using i by simp
  then obtain fs where fs: "distinct fs" "set fs = free_frames v s" "length fs \<le> unat n" "vmm_ok v ?u"
      "backed v ?B (fs @ replicate (unat n - length fs) 0) s ?u"
    using back_pages_short [OF assms(1)] assms(2) by (meson less_imp_le)
  have nn: "of_nat (unat n) = n" by simp
  note bc = vmm_bitmap_change [OF fs(4) vmm_marks(3) [OF fs(4) i(1), unfolded nn]]
  have b: "backed v ?B (fs @ replicate (unat n - length fs) 0) s ?t" using fs(5) bc(2) by (simp add: backed_def)
  have "walk ?t (vpd v) (page_addr ?B + of_nat j * PAGE_SIZE) = Some (if j < length fs then page_addr (fs ! j) else 0)"
    if j: "j < unat n" for j
  proof -
    have "unat (page_addr (?B + j)) div 4096 = ?B + j" using i j by (simp add: unat_page_addr)
    moreover have "page_addr (?B + j) AND 0xFFF = 0" by (rule page_addr_offset)
    ultimately show ?thesis
      unfolding page_stride walk_backed [OF assms(1) bc(1) b] using j fs(3)
      by (simp add: nth_append) (simp add: page_addr_def)
  qed
  moreover have "alloc_pages v n s = (page_addr ?B, ?t)" by (rule alloc_pages_eq [OF assms(1) found i(2)])
  moreover have "unat (page_addr ?B) = 4096 * ?B" using i by (simp add: unat_page_addr)
  then have "page_addr ?B \<noteq> 0" by auto
  ultimately show ?thesis using fs(1,2) by blast
qed

theorem alloc_pages_out_of_frames_witness:
  "free_frames boot_vmm (mark_range_used boot_fa 0 0x800000 boot_vm) = {} \<and>
   (\<exists>a t. alloc_pages boot_vmm 2 (mark_range_used boot_fa 0 0x800000 boot_vm) = (a, t) \<and> a \<noteq> 0 \<and>
      walk t boot_pd a = Some 0 \<and> walk t boot_pd (a + PAGE_SIZE) = Some 0)"
proof -
  let ?s = "mark_range_used boot_fa 0 0x800000 boot_vm"
  have wf: "fa_wf boot_fa" using boot_memory_ok by (simp add: fa_ok_def)
  have used: "fa_used ?s k" if "k < 2048" for k
    using fa_used_mark_range(1) [OF wf, of k 0 "0x800000" boot_vm] that by (simp add: unat_page_up)
  have "0x520000 \<le> unat (vbitmap boot_vmm)" by (simp add: boot_vmm_run unat_page_addr)
  note ch = vmm_frames_change [OF boot_vmm_run(1) mark_range_unchanged(1) [OF wf] this used [of 0, simplified]]
  have sc: "scanned boot_fa = 2048" by (simp add: scanned_def boot_fa_def)
  have none: "free_frames boot_vmm ?s = {}"
    by (auto simp: free_frames_def boot_vmm_run(3) sc used)
  have "free_run boot_vmm ?s (unat (2 :: u32)) 0"
    using free_run_cong [OF boot_vmm_run(1), of ?s] ch(3) boot_free_run by simp
  from alloc_pages_out_of_frames [OF ch(1) _ this] none
  obtain a t where "alloc_pages boot_vmm 2 ?s = (a, t)" "a \<noteq> 0"
    "\<And>i. i < 2 \<Longrightarrow> walk t boot_pd (a + of_nat i * PAGE_SIZE) = Some 0" by (auto simp: boot_vmm_run)
  from this(1,2) this(3) [of 0] this(3) [of 1] none show ?thesis by auto
qed

text \<open>
  C31. When the least free frames are four consecutive ones, \<open>init\<close> takes exactly these for
  the page bitmap and identity-maps them; afterwards every page of the region is free and
  the manager's invariant holds.
\<close>

theorem vmm_init_spec:
  assumes "fa_ok fa s" "pd_wf s pd" "unat (entries pd) + 4096 \<le> 0x100000"
    "n + 4 \<le> scanned fa" "\<forall>k < n. fa_used s k" "\<forall>k. n \<le> k \<and> k < n + 4 \<longrightarrow> \<not> fa_used s k"
    "fa_end fa \<le> 4096 * n" "n + 4 < 1048576" "vmm_init fa pd s = (v, t)"
  shows "vmm_ok v t \<and> (\<forall>j < 131072. \<not> vused v t j)
    \<and> (\<forall>k < scanned fa. fa_used t k \<longleftrightarrow> (n \<le> k \<and> k < n + 4) \<or> fa_used s k)
    \<and> walk t pd w = (if n \<le> unat w div 4096 \<and> unat w div 4096 < n + 4 then Some w else walk s pd w)"
proof -
  note r = vmm_init_run [OF assms]
  have "pd_wf t pd" using vmm_okD(3) [OF r(1)] by (simp add: r(4))
  then show ?thesis
    using r by (simp add: walk_pte walk_pte [OF assms(2)] page_simps)
qed

theorem vmm_init_spec_witness:
  "\<exists>v t. vmm_init boot_fa boot_pd boot_memory = (v, t) \<and> vmm_ok v t \<and> \<not> vused v t 0"
proof -
  obtain v t where i: "vmm_init boot_fa boot_pd boot_memory = (v, t)" by force
  have "scanned boot_fa = 2048" by (simp add: scanned_def boot_fa_def)
  with vmm_init_spec [OF boot_memory_ok boot_memory_wf _ _ _ _ _ _ i, of "0x600"] i show ?thesis
    by (auto simp: boot_memory_used boot_pd_def boot_fa_end)
qed

end
