(* ===== verification/Bootstrap.thy ===== *)
theory Bootstrap
  imports Machine
begin

text \<open>
  \<^verbatim>\<open>arch/x86/boot/bootstrap.cpp\<close>: the first page directory, four 4 MiB pages written before
  paging is on.  \<open>walk_large\<close> is the translation of i386 with the page size extension, for
  directories whose present entries are all large pages.
\<close>

abbreviation PG_DIR :: u32 where "PG_DIR \<equiv> 0x9A000"
abbreviation PSE_4MB_PAGE :: u32 where "PSE_4MB_PAGE \<equiv> 0x83"

definition bootstrap_paging :: "machine \<Rightarrow> machine" where
  "bootstrap_paging s =
     (let s = fold (\<lambda>i s. wr_elem s PG_DIR (of_nat i) 0) [0..<1024] s;
          s = write_cr4 (cr4 s OR 0x10) s;
          s = wr_elem s PG_DIR 0 (0x00000000 OR PSE_4MB_PAGE);
          s = wr_elem s PG_DIR 1 (0x00400000 OR PSE_4MB_PAGE);
          s = wr_elem s PG_DIR 768 (0x00000000 OR PSE_4MB_PAGE);
          s = wr_elem s PG_DIR 769 (0x00400000 OR PSE_4MB_PAGE);
          s = write_cr3 PG_DIR s
      in write_cr0 (cr0 s OR 0x80000000) s)"

definition walk_large :: "machine \<Rightarrow> u32 \<Rightarrow> u32 option" where
  "walk_large s va =
     (let pde = rd_elem s (cr3 s AND NOT 0xFFF) (drop_bit 22 va)
      in if \<not> bit pde 0 \<or> \<not> bit pde 7 \<or> \<not> bit (cr4 s) 4 then None
         else Some ((pde AND NOT 0x3FFFFF) OR (va AND 0x3FFFFF)))"

interpretation boot_dir: dword_array PG_DIR 1024
  by unfold_locales simp

section \<open>The directory\<close>

lemma rd_elem_cr [simp]:
  "rd_elem (write_cr0 v s) b i = rd_elem s b i" "rd_elem (write_cr3 v s) b i = rd_elem s b i"
  "rd_elem (write_cr4 v s) b i = rd_elem s b i"
  by (simp_all add: rd_elem_def)

lemma bootstrap_entry:
  assumes "unat i < 1024"
  shows "rd_elem (bootstrap_paging s) PG_DIR i =
    (if i = 0 \<or> i = 768 then 0x83 else if i = 1 \<or> i = 769 then 0x400083 else 0)"
proof -
  have "rd_elem (fold (\<lambda>i s. wr_elem s PG_DIR (of_nat i) 0) [0..<1024] s) PG_DIR i = 0"
    using boot_dir.rd_fold_wr_elem [of 1024 "unat i" "\<lambda>_. 0" s] assms by simp
  then show ?thesis
    using assms by (simp add: bootstrap_paging_def Let_def boot_dir.rd_wr_elem)
qed

lemma bootstrap_cr:
  "cr3 (bootstrap_paging s) = PG_DIR" "bit (cr4 (bootstrap_paging s)) 4" "bit (cr0 (bootstrap_paging s)) 31"
proof -
  have four: "(0x10 :: u32) = push_bit 4 1" and top: "(0x80000000 :: u32) = push_bit 31 1" by simp_all
  let ?s0 = "fold (\<lambda>i s. wr_elem s PG_DIR (of_nat i) 0) [0..<1024] s"
  show "cr3 (bootstrap_paging s) = PG_DIR"
    by (simp add: bootstrap_paging_def Let_def write_cr0_def write_cr3_def)
  have "cr4 (bootstrap_paging s) = cr4 ?s0 OR 0x10" "\<exists>c. cr0 (bootstrap_paging s) = c OR 0x80000000"
    by (auto simp: bootstrap_paging_def Let_def write_cr0_def write_cr3_def write_cr4_def wr_elem_def wr32_def)
  then show "bit (cr4 (bootstrap_paging s)) 4" "bit (cr0 (bootstrap_paging s)) 31"
    unfolding four top by (auto simp: bit_simps)
qed

lemma bootstrap_unchanged: "unchanged_outside 0x9A000 0x9B000 s (bootstrap_paging s)"
proof -
  have w: "unchanged_outside 0x9A000 0x9B000 s (wr_elem s PG_DIR i v)" if "unat i < 1024" for s i v
    using boot_dir.unchanged_wr_elem [OF that, of s v] by simp
  have z: "unchanged_outside 0x9A000 0x9B000 s (fold (\<lambda>i s. wr_elem s PG_DIR (of_nat i) 0) [0..<1024] s)"
    by (intro unchanged_fold w) (auto simp: unat_u32_of_nat)
  have cr: "unchanged_outside lo hi s (write_cr4 v t) = unchanged_outside lo hi s t"
    "unchanged_outside lo hi s (write_cr0 v t) = unchanged_outside lo hi s t" for lo hi s t v
    by (simp_all add: unchanged_outside_def)
  show ?thesis
    unfolding bootstrap_paging_def Let_def cr unchanged_write_cr3
    by (rule unchanged_trans [OF _ w] unchanged_trans [OF z] | simp add: cr)+
qed

section \<open>Addresses in 4 MiB pages\<close>

lemma low_mask: "(0x3FFFFF :: u32) = mask 22"
  by (simp add: mask_eq_exp_minus_1)

lemma large_or: "push_bit 22 k OR (va AND 0x3FFFFF) = push_bit 22 k + (va AND 0x3FFFFF :: u32)"
  unfolding low_mask by (rule disjunctive_add [symmetric]) (auto simp: bit_simps)

lemma large_split: "va = push_bit 22 (drop_bit 22 va) + (va AND 0x3FFFFF :: u32)"
proof -
  have "va = push_bit 22 (drop_bit 22 va) OR (va AND 0x3FFFFF)"
    unfolding low_mask by (rule bit_word_eqI) (auto simp: bit_simps)
  then show ?thesis unfolding large_or .
qed

lemma large_index: "unat (drop_bit 22 (va :: u32)) = unat va div 4194304"
  by (simp add: drop_bit_eq_div unat_div)

lemma index_eq: "drop_bit 22 (va :: u32) = of_nat n \<longleftrightarrow> unat va div 4194304 = n" if "n < 1024"
  using that by (simp add: word_unat_eq_iff large_index unat_u32_of_nat)

section \<open>Properties\<close>

text \<open>
  C35. After \<open>bootstrap_paging\<close> paging is on with the directory at \<open>0x9A000\<close>: the first 8 MiB
  are mapped to themselves and once more at \<open>0xC0000000\<close>, nothing else is mapped, and no byte
  outside the directory has changed.  (The comment at the start of \<^verbatim>\<open>platform_init\<close> describes this state
  with one 4 MiB entry at each place; \<^verbatim>\<open>bootstrap.cpp\<close> writes two, and that is what is proved.)
\<close>

theorem bootstrap_paging_spec:
  "cr3 (bootstrap_paging s) = PG_DIR \<and> bit (cr0 (bootstrap_paging s)) 31
   \<and> walk_large (bootstrap_paging s) va =
      (if unat va < 0x800000 then Some va
       else if 0xC0000000 \<le> unat va \<and> unat va < 0xC0800000 then Some (va - 0xC0000000) else None)
   \<and> unchanged_outside 0x9A000 0x9B000 s (bootstrap_paging s)"
proof -
  let ?i = "drop_bit 22 va"
  have i: "unat ?i < 1024" using unat_u32_lt [of va] by (simp add: large_index div_less_iff_less_mult)
  have eqs: "?i = 0 \<longleftrightarrow> unat va < 0x400000" "?i = 1 \<longleftrightarrow> 0x400000 \<le> unat va \<and> unat va < 0x800000"
    "?i = 768 \<longleftrightarrow> 0xC0000000 \<le> unat va \<and> unat va < 0xC0400000"
    "?i = 769 \<longleftrightarrow> 0xC0400000 \<le> unat va \<and> unat va < 0xC0800000"
    using index_eq [of 0 va] index_eq [of 1 va] index_eq [of 768 va] index_eq [of 769 va]
    by (auto simp: div_eq_0_iff)
  have walk: "walk_large (bootstrap_paging s) va =
      (if ?i = 0 \<or> ?i = 768 then Some (0 OR (va AND 0x3FFFFF))
       else if ?i = 1 \<or> ?i = 769 then Some (0x400000 OR (va AND 0x3FFFFF)) else None)"
    using bootstrap_cr [of s] bootstrap_entry [OF i, of s] by (simp add: walk_large_def Let_def)
  have split: "va = push_bit 22 ?i + (va AND 0x3FFFFF)" by (rule large_split)
  have low: "0x400000 OR (va AND 0x3FFFFF) = 0x400000 + (va AND 0x3FFFFF)"
    using large_or [of 1 va] by simp
  have "walk_large (bootstrap_paging s) va =
      (if ?i = 0 \<or> ?i = 1 then Some va else if ?i = 768 \<or> ?i = 769 then Some (va - 0xC0000000) else None)"
  proof -
    consider "?i = 0" | "?i = 1" | "?i = 768" | "?i = 769" | "?i \<notin> {0, 1, 768, 769}" by blast
    then show ?thesis
    proof cases
      case 1
      then have "va = va AND 0x3FFFFF" using split by simp
      with 1 walk show ?thesis by simp
    next
      case 2
      then have "va = 0x400000 + (va AND 0x3FFFFF)" using split by simp
      with 2 walk low show ?thesis by simp
    next
      case 3
      then have "va = 0xC0000000 + (va AND 0x3FFFFF)" using split by simp
      then have "va - 0xC0000000 = va AND 0x3FFFFF" by (metis add_diff_cancel_left')
      with 3 walk show ?thesis by simp
    next
      case 4
      then have "va = 0xC0000000 + (0x400000 + (va AND 0x3FFFFF))" using split by simp
      then have "va - 0xC0000000 = 0x400000 + (va AND 0x3FFFFF)" by (metis add_diff_cancel_left')
      with 4 walk low show ?thesis by simp
    next
      case 5
      with walk show ?thesis by simp
    qed
  qed
  with bootstrap_cr bootstrap_unchanged show ?thesis unfolding eqs by auto
qed

end
