(* ===== verification/Interrupt_Tables.thy ===== *)
theory Interrupt_Tables
  imports Machine
begin

text \<open>
  \<^verbatim>\<open>arch/x86/gdt\<close>, \<^verbatim>\<open>arch/x86/idt\<close> (the tables), \<^verbatim>\<open>arch/x86/pic\<close> and \<^verbatim>\<open>fill.hpp\<close>: segment and
  gate descriptors with what the processor reads out of them, the software dispatch table,
  and the programming of the two interrupt controllers as a sequence of port writes.  The
  addresses of the assembly stubs (\<^verbatim>\<open>idt.asm\<close>) are arguments.
\<close>

section \<open>Segment descriptors\<close>

record gdt_entry =
  limit_low :: u16
  base_low :: u16
  base_middle :: u8
  access :: u8
  granularity :: u8
  base_high :: u8

record table_descriptor =
  limit :: u16
  base :: u32

abbreviation GDT_ACCESS_ACCESSED :: u32 where "GDT_ACCESS_ACCESSED \<equiv> 0x01"
abbreviation GDT_ACCESS_CODE_READABLE :: u32 where "GDT_ACCESS_CODE_READABLE \<equiv> 0x02"
abbreviation GDT_ACCESS_DATA_WRITEABLE :: u32 where "GDT_ACCESS_DATA_WRITEABLE \<equiv> 0x02"
abbreviation GDT_ACCESS_CODE_CONFORMING :: u32 where "GDT_ACCESS_CODE_CONFORMING \<equiv> 0x04"
abbreviation GDT_ACCESS_DATA_DIRECTION_NORMAL :: u32 where "GDT_ACCESS_DATA_DIRECTION_NORMAL \<equiv> 0x00"
abbreviation GDT_ACCESS_DATA_DIRECTION_DOWN :: u32 where "GDT_ACCESS_DATA_DIRECTION_DOWN \<equiv> 0x04"
abbreviation GDT_ACCESS_DATA_SEGMENT :: u32 where "GDT_ACCESS_DATA_SEGMENT \<equiv> 0x10"
abbreviation GDT_ACCESS_CODE_SEGMENT :: u32 where "GDT_ACCESS_CODE_SEGMENT \<equiv> 0x18"
abbreviation GDT_ACCESS_TSS_32_AVAILABLE :: u32 where "GDT_ACCESS_TSS_32_AVAILABLE \<equiv> 0x09"
abbreviation GDT_ACCESS_TSS_32_BUSY :: u32 where "GDT_ACCESS_TSS_32_BUSY \<equiv> 0x0B"
abbreviation GDT_ACCESS_RING0 :: u32 where "GDT_ACCESS_RING0 \<equiv> 0x00"
abbreviation GDT_ACCESS_RING1 :: u32 where "GDT_ACCESS_RING1 \<equiv> 0x20"
abbreviation GDT_ACCESS_RING2 :: u32 where "GDT_ACCESS_RING2 \<equiv> 0x40"
abbreviation GDT_ACCESS_RING3 :: u32 where "GDT_ACCESS_RING3 \<equiv> 0x60"
abbreviation GDT_ACCESS_PRESENT :: u32 where "GDT_ACCESS_PRESENT \<equiv> 0x80"
abbreviation GDT_FLAG_64BIT :: u32 where "GDT_FLAG_64BIT \<equiv> 0x20"
abbreviation GDT_FLAG_32BIT :: u32 where "GDT_FLAG_32BIT \<equiv> 0x40"
abbreviation GDT_FLAG_16BIT :: u32 where "GDT_FLAG_16BIT \<equiv> 0x00"
abbreviation GDT_FLAG_GRANULARITY_4K :: u32 where "GDT_FLAG_GRANULARITY_4K \<equiv> 0x80"
abbreviation GDT_FLAG_GRANULARITY_1B :: u32 where "GDT_FLAG_GRANULARITY_1B \<equiv> 0x00"
abbreviation GDT_CODE_SEGMENT :: u16 where "GDT_CODE_SEGMENT \<equiv> 0x08"
abbreviation GDT_DATA_SEGMENT :: u16 where "GDT_DATA_SEGMENT \<equiv> 0x10"

definition GDT_FLAGS_LIMIT_HI :: "u32 \<Rightarrow> u32 \<Rightarrow> u8" where
  "GDT_FLAGS_LIMIT_HI lim fl = ucast ((drop_bit 16 lim AND 0x0F) OR (fl AND 0xF0))"

definition GDT_ENTRY :: "u32 \<Rightarrow> u32 \<Rightarrow> u32 \<Rightarrow> u32 \<Rightarrow> gdt_entry" where
  "GDT_ENTRY b lim acc fl =
     \<lparr>limit_low = ucast (lim AND 0xFFFF), base_low = ucast (b AND 0xFFFF),
      base_middle = ucast (drop_bit 16 b AND 0xFF), access = ucast acc,
      granularity = GDT_FLAGS_LIMIT_HI lim fl, base_high = ucast (drop_bit 24 b AND 0xFF)\<rparr>"

definition g_GDT :: "gdt_entry list" where
  "g_GDT =
     [GDT_ENTRY 0 0 0 0,
      GDT_ENTRY 0x00000000 0xFFFFFFFF
        (GDT_ACCESS_PRESENT OR GDT_ACCESS_RING0 OR GDT_ACCESS_CODE_SEGMENT OR GDT_ACCESS_CODE_READABLE)
        (GDT_FLAG_32BIT OR GDT_FLAG_GRANULARITY_4K),
      GDT_ENTRY 0x00000000 0xFFFFFFFF
        (GDT_ACCESS_PRESENT OR GDT_ACCESS_RING0 OR GDT_ACCESS_DATA_SEGMENT OR GDT_ACCESS_DATA_WRITEABLE)
        (GDT_FLAG_32BIT OR GDT_FLAG_GRANULARITY_4K)]"

definition g_GDTDescriptor :: "u32 \<Rightarrow> table_descriptor" where
  "g_GDTDescriptor gdt_addr = \<lparr>limit = of_nat (8 * length g_GDT - 1), base = gdt_addr\<rparr>"

text \<open>What the processor reads out of a segment descriptor.\<close>

definition seg_base :: "gdt_entry \<Rightarrow> u32" where
  "seg_base e = ucast (base_low e) OR push_bit 16 (ucast (base_middle e)) OR push_bit 24 (ucast (base_high e))"

definition seg_limit20 :: "gdt_entry \<Rightarrow> u32" where
  "seg_limit20 e = ucast (limit_low e) OR push_bit 16 (ucast (granularity e AND 0x0F))"

definition seg_limit :: "gdt_entry \<Rightarrow> u32" where
  "seg_limit e = (if bit (granularity e) 7 then push_bit 12 (seg_limit20 e) OR 0xFFF else seg_limit20 e)"

definition flat_segment :: "u32 \<Rightarrow> u16 \<Rightarrow> bool" where
  "flat_segment gdt_addr sel \<longleftrightarrow> unat sel + 7 \<le> unat (limit (g_GDTDescriptor gdt_addr)) \<and>
     seg_base (g_GDT ! (unat sel div 8)) = 0 \<and> seg_limit (g_GDT ! (unat sel div 8)) = 0xFFFFFFFF \<and>
     bit (access (g_GDT ! (unat sel div 8))) 7"

section \<open>Gate descriptors\<close>

record idt_entry =
  offset_low :: u16
  selector :: u16
  reserved :: u8
  flags :: u8
  offset_high :: u16

abbreviation IDT_MAX_ENTRIES :: nat where "IDT_MAX_ENTRIES \<equiv> 256"
abbreviation IRQ_OFFSET :: u8 where "IRQ_OFFSET \<equiv> 0x20"
abbreviation IDT_FLAG_GATE_INTERRUPT :: u8 where "IDT_FLAG_GATE_INTERRUPT \<equiv> 0x8E"
abbreviation IDT_FLAG_GATE_TRAP :: u8 where "IDT_FLAG_GATE_TRAP \<equiv> 0x8F"

definition idt_set_entry :: "u8 \<Rightarrow> u32 \<Rightarrow> u8 \<Rightarrow> idt_entry list \<Rightarrow> idt_entry list" where
  "idt_set_entry index handler fl idt =
     idt[unat index := \<lparr>offset_low = ucast (handler AND 0xFFFF), selector = GDT_CODE_SEGMENT,
       reserved = 0, flags = fl, offset_high = ucast (drop_bit 16 handler AND 0xFFFF)\<rparr>]"

definition gate_target :: "idt_entry \<Rightarrow> u32" where
  "gate_target e = ucast (offset_low e) OR push_bit 16 (ucast (offset_high e))"

definition gate_present :: "idt_entry \<Rightarrow> bool" where
  "gate_present e \<longleftrightarrow> bit (flags e) 7"

section \<open>The dispatch table\<close>

datatype isr_t = Null_handler | Default_handler | Default_exception_handler | Default_irq_handler
  | Keyboard_irq_handler | Syscall_handler

definition fill :: "'a list \<Rightarrow> 'a \<Rightarrow> nat \<Rightarrow> nat \<Rightarrow> 'a list" where
  "fill arr val start stop = fold (\<lambda>i arr. arr[i := val]) [start..<stop] arr"

definition register_handler :: "u8 \<Rightarrow> isr_t \<Rightarrow> isr_t list \<Rightarrow> isr_t list" where
  "register_handler intno handler handlers = handlers[unat intno := handler]"

definition fill_handlers :: "isr_t list \<Rightarrow> isr_t list" where
  "fill_handlers handlers =
     (let handlers = fill handlers Default_handler 0 256;
          handlers = fill handlers Default_exception_handler 0 32
      in fill handlers Default_irq_handler 32 48)"

definition set_gates :: "(nat \<Rightarrow> u32) \<Rightarrow> (nat \<Rightarrow> u32) \<Rightarrow> u32 \<Rightarrow> idt_entry list \<Rightarrow> idt_entry list" where
  "set_gates isr irqp isr128 idt =
     (let idt = fold (\<lambda>i. idt_set_entry (of_nat i) (isr i) IDT_FLAG_GATE_INTERRUPT) [0..<32] idt;
          idt = fold (\<lambda>i. idt_set_entry (of_nat i) (irqp (i - 32)) IDT_FLAG_GATE_INTERRUPT) [32..<48] idt
      in idt_set_entry 128 isr128 IDT_FLAG_GATE_INTERRUPT idt)"

section \<open>The interrupt controllers\<close>

abbreviation PIC1_COMMAND :: u16 where "PIC1_COMMAND \<equiv> 0x20"
abbreviation PIC1_DATA :: u16 where "PIC1_DATA \<equiv> 0x21"
abbreviation PIC2_COMMAND :: u16 where "PIC2_COMMAND \<equiv> 0xA0"
abbreviation PIC2_DATA :: u16 where "PIC2_DATA \<equiv> 0xA1"
abbreviation ICW1_INIT :: u8 where "ICW1_INIT \<equiv> 0x10"
abbreviation ICW1_ICW4 :: u8 where "ICW1_ICW4 \<equiv> 0x01"
abbreviation ICW4_8086 :: u8 where "ICW4_8086 \<equiv> 0x01"
abbreviation PIC_EOI :: u8 where "PIC_EOI \<equiv> 0x20"

definition io_wait :: "u16 \<Rightarrow> u8 \<Rightarrow> machine \<Rightarrow> machine" where
  "io_wait port v s = outb (outb s port v) 0x80 0"

definition pic_remap :: "u8 \<Rightarrow> u8 \<Rightarrow> machine \<Rightarrow> machine" where
  "pic_remap offset1 offset2 s =
     (let mask1 = inb s PIC1_DATA; mask2 = inb s PIC2_DATA;
          s = io_wait PIC2_COMMAND (ICW1_INIT OR ICW1_ICW4) s;
          s = io_wait PIC1_COMMAND (ICW1_INIT OR ICW1_ICW4) s;
          s = io_wait PIC1_DATA offset1 s;
          s = io_wait PIC2_DATA offset2 s;
          s = io_wait PIC1_DATA 0x04 s;
          s = io_wait PIC2_DATA 0x02 s;
          s = io_wait PIC1_DATA ICW4_8086 s;
          s = io_wait PIC2_DATA ICW4_8086 s;
          s = io_wait PIC1_DATA mask1 s
      in io_wait PIC2_DATA mask2 s)"

definition pic_send_eoi :: "u8 \<Rightarrow> machine \<Rightarrow> machine" where
  "pic_send_eoi irq s =
     (let s = (if irq \<ge> 8 then outb s PIC2_COMMAND PIC_EOI else s)
      in outb s PIC1_COMMAND PIC_EOI)"

section \<open>The contract of a dispatch table\<close>

text \<open>
  The handler table and the system call table are used in the same way: entries are set one by
  one or by range, and looked up by number.
\<close>

locale dispatch_table =
  fixes set_entry :: "nat \<Rightarrow> 'h \<Rightarrow> 't \<Rightarrow> 't"
    and entry :: "'t \<Rightarrow> nat \<Rightarrow> 'h"
    and ok :: "'t \<Rightarrow> bool"
    and n :: nat
  assumes set_ok: "ok t \<Longrightarrow> ok (set_entry i h t)"
    and entry_set: "ok t \<Longrightarrow> i < n \<Longrightarrow> entry (set_entry i h t) j = (if j = i then h else entry t j)"
begin

lemma entry_set_all:
  assumes "ok t" "\<forall>i \<in> set is. i < n"
  shows "ok (fold (\<lambda>i. set_entry i (g i)) is t) \<and>
    entry (fold (\<lambda>i. set_entry i (g i)) is t) j = (if j \<in> set is then g j else entry t j)"
  using assms
proof (induction "is" arbitrary: t)
  case (Cons i "is")
  with Cons.IH [OF set_ok [OF Cons.prems(1), of i "g i"]] show ?case
    by (auto simp: entry_set)
qed simp

end

interpretation dt: dispatch_table "\<lambda>i h t. t[i := h]" "\<lambda>t i. t ! i" "\<lambda>t. length t = n" n for n
  by unfold_locales (simp_all add: nth_list_update)

lemma fill_nth:
  assumes "length arr = n" "stop \<le> n"
  shows "length (fill arr v start stop) = n"
    "fill arr v start stop ! j = (if start \<le> j \<and> j < stop then v else arr ! j)"
  using dt.entry_set_all [OF assms(1), of "[start..<stop]" "\<lambda>_. v" j] assms(2)
  by (simp_all add: fill_def)

lemma fill_handlers_nth:
  assumes "length handlers = 256" "j < 256"
  shows "length (fill_handlers handlers) = 256"
    "fill_handlers handlers ! j = (if j < 32 then Default_exception_handler
       else if j < 48 then Default_irq_handler else Default_handler)"
  using assms by (auto simp: fill_handlers_def Let_def fill_nth [of _ 256])

definition gate :: "u32 \<Rightarrow> idt_entry" where
  "gate handler = \<lparr>offset_low = ucast (handler AND 0xFFFF), selector = GDT_CODE_SEGMENT,
     reserved = 0, flags = IDT_FLAG_GATE_INTERRUPT, offset_high = ucast (drop_bit 16 handler AND 0xFFFF)\<rparr>"

lemma idt_set_entry_gate: "idt_set_entry i h IDT_FLAG_GATE_INTERRUPT idt = idt[unat i := gate h]"
  by (simp add: idt_set_entry_def gate_def)

lemma unat_u8_of_nat: "n < 256 \<Longrightarrow> unat (of_nat n :: u8) = n"
  by (simp add: unat_of_nat take_bit_eq_mod)

lemma gate_fields: "gate_target (gate h) = h" "gate_present (gate h)" "selector (gate h) = GDT_CODE_SEGMENT"
proof -
  show "gate_target (gate h) = h"
  proof (rule bit_word_eqI)
    fix k assume k: "k < LENGTH(32)"
    have m: "(0xFFFF :: u32) = mask 16" by (simp add: mask_eq_exp_minus_1)
    show "bit (gate_target (gate h)) k \<longleftrightarrow> bit h k"
      unfolding gate_target_def gate_def m using k by (cases "k < 16") (auto simp: bit_simps)
  qed
qed (simp_all add: gate_present_def gate_def)

lemma set_gates_nth:
  assumes "length idt = 256" "j < 256"
  shows "set_gates isr irqp isr128 idt ! j =
    (if j < 32 then gate (isr j) else if j < 48 then gate (irqp (j - 32))
     else if j = 128 then gate isr128 else idt ! j)"
proof -
  let ?a = "fold (\<lambda>i idt. idt[i := gate (isr i)]) [0..<32] idt"
  let ?b = "fold (\<lambda>i idt. idt[i := gate (irqp (i - 32))]) [32..<48] ?a"
  have a: "length ?a = 256 \<and> ?a ! j = (if j \<in> set [0..<32] then gate (isr j) else idt ! j)"
    using dt.entry_set_all [OF assms(1), of "[0..<32]" "\<lambda>i. gate (isr i)" j] by auto
  then have b: "length ?b = 256 \<and> ?b ! j = (if j \<in> set [32..<48] then gate (irqp (j - 32)) else ?a ! j)"
    using dt.entry_set_all [of ?a 256 "[32..<48]" "\<lambda>i. gate (irqp (i - 32))" j] by auto
  have "set_gates isr irqp isr128 idt = ?b[128 := gate isr128]"
  proof -
    have "fold (\<lambda>i. idt_set_entry (of_nat i) (g i) IDT_FLAG_GATE_INTERRUPT) is t
        = fold (\<lambda>i idt. idt[i := gate (g i)]) is t" if "\<forall>i \<in> set is. i < 256" for "is" g t
      using that by (induction "is" arbitrary: t) (simp_all add: idt_set_entry_gate unat_u8_of_nat)
    then show ?thesis by (simp add: set_gates_def idt_set_entry_gate del: upt_rec_numeral)
  qed
  with a b assms(2) show ?thesis by (auto simp: nth_list_update simp del: upt_rec_numeral)
qed

section \<open>What the controllers make of the port writes\<close>

text \<open>
  One 8259 as its command and data ports see it: a command byte with bit 4 set starts the
  initialisation, the next three data bytes are ICW2 (vector offset), ICW3 (cascade) and ICW4
  (mode), any other data byte is the interrupt mask; \<open>0x20\<close> on the command port ends the
  interrupt in service.
\<close>

record pic8259 =
  stage :: nat
  vector_base :: u8
  cascade :: u8
  mode :: u8
  imr :: u8
  eois :: nat

definition pic_command :: "u8 \<Rightarrow> pic8259 \<Rightarrow> pic8259" where
  "pic_command v p =
     (if bit v 4 then p\<lparr>stage := 1, imr := 0\<rparr>
      else if v = PIC_EOI then p\<lparr>eois := eois p + 1\<rparr> else p)"

definition pic_data :: "u8 \<Rightarrow> pic8259 \<Rightarrow> pic8259" where
  "pic_data v p =
     (if stage p = 1 then p\<lparr>vector_base := v, stage := 2\<rparr>
      else if stage p = 2 then p\<lparr>cascade := v, stage := 3\<rparr>
      else if stage p = 3 then p\<lparr>mode := v, stage := 0\<rparr>
      else p\<lparr>imr := v\<rparr>)"

fun pic_sees :: "u16 \<Rightarrow> u16 \<Rightarrow> port_write \<Rightarrow> pic8259 \<Rightarrow> pic8259" where
  "pic_sees cmd dat (Out8 port v) p =
     (if port = cmd then pic_command v p else if port = dat then pic_data v p else p)"
| "pic_sees cmd dat _ p = p"

text \<open>\<open>master\<close> and \<open>slave\<close> after the port writes of a machine, from a power-on state.\<close>

definition master :: "pic8259 \<Rightarrow> machine \<Rightarrow> pic8259" where
  "master p s = fold (pic_sees PIC1_COMMAND PIC1_DATA) (port_out s) p"

definition slave :: "pic8259 \<Rightarrow> machine \<Rightarrow> pic8259" where
  "slave p s = fold (pic_sees PIC2_COMMAND PIC2_DATA) (port_out s) p"

definition irq_vector :: "pic8259 \<Rightarrow> pic8259 \<Rightarrow> nat \<Rightarrow> u8" where
  "irq_vector ma sl irq =
     (if irq < 8 then vector_base ma + of_nat irq else vector_base sl + of_nat (irq - 8))"

lemma pics_outb [simp]:
  "master p (outb s port v) = pic_sees PIC1_COMMAND PIC1_DATA (Out8 port v) (master p s)"
  "slave p (outb s port v) = pic_sees PIC2_COMMAND PIC2_DATA (Out8 port v) (slave p s)"
  by (simp_all add: master_def slave_def outb_def)

lemma outb_mem [simp]: "mem (outb s port v) = mem s" "port_in (outb s port v) = port_in s"
  by (simp_all add: outb_def)

lemma outb_irrelevant [simp]:
  "(outb s port v)\<lparr>port_out := w\<rparr> = s\<lparr>port_out := w\<rparr>"
  by (simp add: outb_def)

section \<open>Properties\<close>

text \<open>\<open>GDT_ENTRY\<close> packs a descriptor that the processor reads back: the base, the low 20
bits of the limit, the access byte and the four flag bits.  The code and data descriptors of
the table are present, span the four gigabytes from address 0, and lie inside the limit of the
descriptor that is loaded.\<close>

theorem gdt_entries_read_back:
  "seg_base (GDT_ENTRY b lim acc fl) = b \<and>
   seg_limit20 (GDT_ENTRY b lim acc fl) = take_bit 20 lim \<and>
   access (GDT_ENTRY b lim acc fl) = ucast acc \<and>
   drop_bit 4 (granularity (GDT_ENTRY b lim acc fl)) = drop_bit 4 (ucast fl) \<and>
   flat_segment a GDT_CODE_SEGMENT \<and> flat_segment a GDT_DATA_SEGMENT"
proof (intro conjI)
  have m: "(0xFFFF :: u32) = mask 16" "(0xFF :: u32) = mask 8" "(0x0F :: u32) = mask 4" "(0x0F :: u8) = mask 4"
    "(0xF0 :: u32) = push_bit 4 (mask 4)"
    by (simp_all add: mask_eq_exp_minus_1)
  show "seg_base (GDT_ENTRY b lim acc fl) = b"
  proof (rule bit_word_eqI)
    fix n assume "n < LENGTH(32)"
    then consider "n < 16" | "16 \<le> n \<and> n < 24" | "24 \<le> n \<and> n < 32" by fastforce
    then show "bit (seg_base (GDT_ENTRY b lim acc fl)) n \<longleftrightarrow> bit b n"
      unfolding seg_base_def GDT_ENTRY_def m by cases (auto simp: bit_simps)
  qed
  show "seg_limit20 (GDT_ENTRY b lim acc fl) = take_bit 20 lim"
  proof (rule bit_word_eqI)
    fix n assume "n < LENGTH(32)"
    then consider "n < 16" | "16 \<le> n \<and> n < 20" | "20 \<le> n \<and> n < 32" by fastforce
    then show "bit (seg_limit20 (GDT_ENTRY b lim acc fl)) n \<longleftrightarrow> bit (take_bit 20 lim) n"
      unfolding seg_limit20_def GDT_ENTRY_def GDT_FLAGS_LIMIT_HI_def m by cases (auto simp: bit_simps)
  qed
  show "access (GDT_ENTRY b lim acc fl) = ucast acc" by (simp add: GDT_ENTRY_def)
  show "drop_bit 4 (granularity (GDT_ENTRY b lim acc fl)) = drop_bit 4 (ucast fl)"
    unfolding GDT_ENTRY_def GDT_FLAGS_LIMIT_HI_def m by (rule bit_word_eqI) (auto simp: bit_simps)
  show "flat_segment a GDT_CODE_SEGMENT" "flat_segment a GDT_DATA_SEGMENT"
    by (simp_all add: flat_segment_def g_GDT_def g_GDTDescriptor_def GDT_ENTRY_def GDT_FLAGS_LIMIT_HI_def seg_base_def
        seg_limit_def seg_limit20_def)
qed

text \<open>C30. \<open>pic_remap\<close> completes the initialisation of both controllers whatever state they were
in: interrupt line \<open>i\<close> of the sixteen arrives at vector \<open>32 + i\<close> with the offsets the kernel
uses, the controllers are wired on line 2, in 8086 mode, and have the masks that were read
before.  Memory is not touched.  An end-of-interrupt for a line reaches the slave only for the
lines 8 to 15, and the master always.\<close>

theorem pic_remap_spec:
  fixes s :: machine and i :: nat
  defines "s' \<equiv> pic_remap 32 40 s"
  assumes "i < 16"
  shows "irq_vector (master p s') (slave q s') i = of_nat (32 + i) \<and>
    stage (master p s') = 0 \<and>
    cascade (master p s') = 4 \<and>
    mode (master p s') = ICW4_8086 \<and>
    stage (slave q s') = 0 \<and>
    cascade (slave q s') = 2 \<and>
    mode (slave q s') = ICW4_8086 \<and>
    imr (master p s') = inb s PIC1_DATA \<and>
    imr (slave q s') = inb s PIC2_DATA \<and>
    mem s' = mem s \<and>
    eois (master p (pic_send_eoi (of_nat i) s')) = eois (master p s') + 1 \<and>
    eois (slave q (pic_send_eoi (of_nat i) s')) = eois (slave q s') + (if 8 \<le> i then 1 else 0)"
proof (intro conjI)
  have ma: "master p s' = (master p s)\<lparr>stage := 0, vector_base := 32, cascade := 4, mode := 1, imr := inb s PIC1_DATA\<rparr>"
    and sl: "slave q s' = (slave q s)\<lparr>stage := 0, vector_base := 40, cascade := 2, mode := 1, imr := inb s PIC2_DATA\<rparr>"
    by (simp_all add: s'_def pic_remap_def io_wait_def Let_def pic_command_def pic_data_def)
  show "mem s' = mem s" by (simp add: s'_def pic_remap_def io_wait_def Let_def)
  have "of_nat i \<ge> (8 :: u8) \<longleftrightarrow> 8 \<le> i"
    using assms(2) by (simp add: word_le_nat_alt unat_u8_of_nat)
  then show "eois (master p (pic_send_eoi (of_nat i) s')) = eois (master p s') + 1"
    "eois (slave q (pic_send_eoi (of_nat i) s')) = eois (slave q s') + (if 8 \<le> i then 1 else 0)"
    by (simp_all add: pic_send_eoi_def Let_def pic_command_def)
  show "irq_vector (master p s') (slave q s') i = of_nat (32 + i)"
  proof (cases "i < 8")
    case False
    then obtain j where "i = 8 + j" using le_Suc_ex linorder_not_less by blast
    then have "of_nat (32 + i) = (40 :: u8) + of_nat (i - 8)" by simp
    with False show ?thesis by (simp add: ma sl irq_vector_def)
  qed (simp add: ma irq_vector_def)
qed (simp_all add: s'_def pic_remap_def io_wait_def Let_def pic_command_def pic_data_def)

text \<open>The end-of-interrupt for the keyboard line on a machine with all lines unmasked.\<close>

theorem pic_remap_spec_witness:
  "let s = \<lparr>mem = (\<lambda>_. 0), cr0 = 0, cr3 = 0, cr4 = 0, port_in = (\<lambda>_. 0), port_out = []\<rparr>;
       p = \<lparr>stage = 0, vector_base = 8, cascade = 0, mode = 0, imr = 0, eois = 0\<rparr>
   in irq_vector (master p (pic_remap 32 40 s)) (slave p (pic_remap 32 40 s)) 1 = 33"
  using pic_remap_spec [of 1] by (simp add: Let_def)

end
