(* ===== verification/Framebuffer.thy ===== *)
theory Framebuffer
  imports Machine
begin

text \<open>
  \<^verbatim>\<open>arch/x86/fb\<close>, \<^verbatim>\<open>driver/fb/fb.cpp\<close> and the line primitive: the framebuffer description read
  from the VBE mode block, \<open>putpixel\<close>, and Bresenham's \<open>line\<close>.  The address of the VBE block is
  what the assembly routine \<^verbatim>\<open>vbe_block\<close> returns, an argument \<open>vbe\<close> here.  C \<open>int\<close>
  coordinates are integers; in \<open>line\<close>, which computes with them, every result is checked to fit 32
  bits, and signed overflow, undefined in C++, gives \<open>None\<close>.  Addresses are 32-bit words.
  On a mode of 16, 24 or 32 bits the screen is shown to be an array of pixels, and the drawing primitives
  are verified against that.
\<close>

section \<open>Framebuffer description\<close>

definition rd16 :: "machine \<Rightarrow> u32 \<Rightarrow> u16" where
  "rd16 s a = ucast (rd8 s a) OR push_bit 8 (ucast (rd8 s (a + 1)))"

text \<open>The VBE mode information block, read from its packed layout.\<close>

record vbe_mode_info =
  vbe_mode_attributes :: u16
  vbe_window_a_attributes :: u8
  vbe_window_b_attributes :: u8
  vbe_granularity :: u16
  vbe_window_size :: u16
  vbe_segment_a :: u16
  vbe_segment_b :: u16
  vbe_window_function_ptr :: u32
  vbe_pitch :: u16
  vbe_width :: u16
  vbe_height :: u16
  vbe_w_char :: u8
  vbe_y_char :: u8
  vbe_planes :: u8
  vbe_bpp :: u8
  vbe_banks :: u8
  vbe_memory_model :: u8
  vbe_bank_size :: u8
  vbe_image_pages :: u8
  vbe_reserved0 :: u8
  vbe_red_mask_size :: u8
  vbe_red_field_position :: u8
  vbe_green_mask_size :: u8
  vbe_green_field_position :: u8
  vbe_blue_mask_size :: u8
  vbe_blue_field_position :: u8
  vbe_reserved_mask_size :: u8
  vbe_reserved_field_position :: u8
  vbe_direct_color_attributes :: u8
  vbe_framebuffer :: u32
  vbe_offscreen_mem_offset :: u32
  vbe_offscreen_mem_size :: u16
  vbe_reserved1 :: "u8 list"

definition read_vbe_mode_info :: "u32 \<Rightarrow> machine \<Rightarrow> vbe_mode_info" where
  "read_vbe_mode_info vbe s =
     \<lparr>vbe_mode_attributes = rd16 s vbe, vbe_window_a_attributes = rd8 s (vbe + 2),
      vbe_window_b_attributes = rd8 s (vbe + 3), vbe_granularity = rd16 s (vbe + 4),
      vbe_window_size = rd16 s (vbe + 6), vbe_segment_a = rd16 s (vbe + 8),
      vbe_segment_b = rd16 s (vbe + 10), vbe_window_function_ptr = rd32 s (vbe + 12),
      vbe_pitch = rd16 s (vbe + 16), vbe_width = rd16 s (vbe + 18), vbe_height = rd16 s (vbe + 20),
      vbe_w_char = rd8 s (vbe + 22), vbe_y_char = rd8 s (vbe + 23), vbe_planes = rd8 s (vbe + 24),
      vbe_bpp = rd8 s (vbe + 25), vbe_banks = rd8 s (vbe + 26), vbe_memory_model = rd8 s (vbe + 27),
      vbe_bank_size = rd8 s (vbe + 28), vbe_image_pages = rd8 s (vbe + 29),
      vbe_reserved0 = rd8 s (vbe + 30), vbe_red_mask_size = rd8 s (vbe + 31),
      vbe_red_field_position = rd8 s (vbe + 32), vbe_green_mask_size = rd8 s (vbe + 33),
      vbe_green_field_position = rd8 s (vbe + 34), vbe_blue_mask_size = rd8 s (vbe + 35),
      vbe_blue_field_position = rd8 s (vbe + 36), vbe_reserved_mask_size = rd8 s (vbe + 37),
      vbe_reserved_field_position = rd8 s (vbe + 38), vbe_direct_color_attributes = rd8 s (vbe + 39),
      vbe_framebuffer = rd32 s (vbe + 40), vbe_offscreen_mem_offset = rd32 s (vbe + 44),
      vbe_offscreen_mem_size = rd16 s (vbe + 48),
      vbe_reserved1 = map (\<lambda>i. rd8 s (vbe + 50 + of_nat i)) [0..<206]\<rparr>"

record framebuffer_info =
  fb_pitch :: u16
  fb_width :: u16
  fb_height :: u16
  fb_bpp :: u8
  fb_size :: u32
  fb_framebuffer :: u32

definition get_framebuffer_info :: "u32 \<Rightarrow> machine \<Rightarrow> framebuffer_info" where
  "get_framebuffer_info vbe s =
     (let vbe_info = read_vbe_mode_info vbe s
      in \<lparr>fb_pitch = vbe_pitch vbe_info, fb_width = vbe_width vbe_info, fb_height = vbe_height vbe_info,
          fb_bpp = vbe_bpp vbe_info,
          fb_size = ucast (vbe_pitch vbe_info) * ucast (vbe_height vbe_info) * (ucast (vbe_bpp vbe_info) div 8),
          fb_framebuffer = vbe_framebuffer vbe_info\<rparr>)"

lemma get_framebuffer_info_eq:
  "get_framebuffer_info vbe s =
     \<lparr>fb_pitch = rd16 s (vbe + 16), fb_width = rd16 s (vbe + 18), fb_height = rd16 s (vbe + 20),
      fb_bpp = rd8 s (vbe + 25),
      fb_size = ucast (rd16 s (vbe + 16)) * ucast (rd16 s (vbe + 20)) * (ucast (rd8 s (vbe + 25)) div 8),
      fb_framebuffer = rd32 s (vbe + 40)\<rparr>"
  by (simp add: get_framebuffer_info_def read_vbe_mode_info_def)

section \<open>Pixels\<close>

definition RGB :: "u32 \<Rightarrow> u32 \<Rightarrow> u32 \<Rightarrow> u32" where
  "RGB r g b = push_bit 16 r OR push_bit 8 g OR b"

definition COLOR_BLACK :: u32 where "COLOR_BLACK = RGB 0 0 0"
definition COLOR_BLUE :: u32 where "COLOR_BLUE = RGB 0 0 170"
definition COLOR_DARK_BLUE :: u32 where "COLOR_DARK_BLUE = RGB 0 0 85"
definition COLOR_GREEN :: u32 where "COLOR_GREEN = RGB 0 170 0"
definition COLOR_DARK_GREEN :: u32 where "COLOR_DARK_GREEN = RGB 0 85 0"
definition COLOR_CYAN :: u32 where "COLOR_CYAN = RGB 0 170 170"
definition COLOR_DARK_CYAN :: u32 where "COLOR_DARK_CYAN = RGB 0 85 85"
definition COLOR_RED :: u32 where "COLOR_RED = RGB 170 0 0"
definition COLOR_DARK_RED :: u32 where "COLOR_DARK_RED = RGB 85 0 0"
definition COLOR_MAGENTA :: u32 where "COLOR_MAGENTA = RGB 170 0 170"
definition COLOR_DARK_MAGENTA :: u32 where "COLOR_DARK_MAGENTA = RGB 85 0 85"
definition COLOR_BROWN :: u32 where "COLOR_BROWN = RGB 170 85 0"
definition COLOR_YELLOW :: u32 where "COLOR_YELLOW = RGB 170 170 0"
definition COLOR_LIGHT_GRAY :: u32 where "COLOR_LIGHT_GRAY = RGB 170 170 170"
definition COLOR_DARK_GRAY :: u32 where "COLOR_DARK_GRAY = RGB 85 85 85"
definition COLOR_LIGHT_BLUE :: u32 where "COLOR_LIGHT_BLUE = RGB 85 85 255"
definition COLOR_LIGHT_GREEN :: u32 where "COLOR_LIGHT_GREEN = RGB 85 255 85"
definition COLOR_LIGHT_CYAN :: u32 where "COLOR_LIGHT_CYAN = RGB 85 255 255"
definition COLOR_LIGHT_RED :: u32 where "COLOR_LIGHT_RED = RGB 255 85 85"
definition COLOR_LIGHT_MAGENTA :: u32 where "COLOR_LIGHT_MAGENTA = RGB 255 85 255"
definition COLOR_WHITE :: u32 where "COLOR_WHITE = RGB 255 255 255"

definition rgb565 :: "u32 \<Rightarrow> u16" where
  "rgb565 color = ucast
     (push_bit 11 (drop_bit 3 (drop_bit 16 color AND 0xFF))
      OR push_bit 5 (drop_bit 2 (drop_bit 8 color AND 0xFF))
      OR drop_bit 3 (color AND 0xFF))"

definition putpixel :: "u32 \<Rightarrow> int \<Rightarrow> int \<Rightarrow> u32 \<Rightarrow> machine \<Rightarrow> machine" where
  "putpixel vbe x y color s =
     (let fb = get_framebuffer_info vbe s
      in if x < 0 \<or> y < 0 \<or> x \<ge> int (unat (fb_width fb)) \<or> y \<ge> int (unat (fb_height fb)) then s
         else let bpp = int (unat (fb_bpp fb));
                  fb_offset = y * int (unat (fb_pitch fb)) + x * (bpp div 8);
                  p = fb_framebuffer fb + word_of_int fb_offset
              in if bpp = 32 then
                   let s = wr8 s p (ucast color);
                       s = wr8 s (p + 1) (ucast (drop_bit 8 color));
                       s = wr8 s (p + 2) (ucast (drop_bit 16 color))
                   in wr8 s (p + 3) (ucast (drop_bit 24 color))
                 else if bpp = 24 then
                   let s = wr8 s p (ucast color);
                       s = wr8 s (p + 1) (ucast (drop_bit 8 color))
                   in wr8 s (p + 2) (ucast (drop_bit 16 color))
                 else if bpp = 16 then
                   let c = rgb565 color; s = wr8 s p (ucast c)
                   in wr8 s (p + 1) (ucast (drop_bit 8 c))
                 else s)"

section \<open>Lines\<close>

text \<open>
  The coordinates and the error term are of type \<^verbatim>\<open>int\<close>, 32 bits wide.  A result outside that
  range is undefined behaviour: the computation then has no value (\<open>None\<close>, which also stands for
  a loop that does not end).
\<close>

definition iabs :: "int \<Rightarrow> int option" where
  "iabs x = (if x < 0 then int_val (- x) else Some x)"

partial_function (option) line_loop ::
  "u32 \<Rightarrow> int \<Rightarrow> int \<Rightarrow> int \<Rightarrow> int \<Rightarrow> int \<Rightarrow> int \<Rightarrow> u32 \<Rightarrow> int \<Rightarrow> int \<Rightarrow> int \<Rightarrow> machine \<Rightarrow> machine option" where
  "line_loop vbe dx sx dy sy x2 y2 color err x1 y1 s =
     (let s = putpixel vbe x1 y1 color s
      in if x1 = x2 \<and> y1 = y2 then Some s
         else Option.bind (int_val (2 * err)) (\<lambda>e2.
              Option.bind (if e2 \<ge> dy then
                  Option.bind (int_val (err + dy)) (\<lambda>err. map_option (Pair err) (int_val (x1 + sx)))
                else Some (err, x1)) (\<lambda>(err, x1).
              Option.bind (if e2 \<le> dx then
                  Option.bind (int_val (err + dx)) (\<lambda>err. map_option (Pair err) (int_val (y1 + sy)))
                else Some (err, y1)) (\<lambda>(err, y1).
              line_loop vbe dx sx dy sy x2 y2 color err x1 y1 s))))"

definition line :: "u32 \<Rightarrow> int \<Rightarrow> int \<Rightarrow> int \<Rightarrow> int \<Rightarrow> u32 \<Rightarrow> machine \<Rightarrow> machine option" where
  "line vbe x1 y1 x2 y2 color s =
     Option.bind (Option.bind (int_val (x2 - x1)) iabs) (\<lambda>dx. let sx = (if x1 < x2 then 1 else -1) in
     Option.bind (Option.bind (int_val (y2 - y1)) iabs) (\<lambda>ady.
     Option.bind (int_val (- ady)) (\<lambda>dy. let sy = (if y1 < y2 then 1 else -1) in
     Option.bind (int_val (dx + dy)) (\<lambda>err.
     line_loop vbe dx sx dy sy x2 y2 color err x1 y1 s))))"

section \<open>The contract of a pixel surface\<close>

text \<open>
  What the primitives rely on: a pixel that was put reads back, the others are as before, and
  a point outside the surface is ignored.
\<close>

locale pixel_surface =
  fixes put :: "int \<Rightarrow> int \<Rightarrow> u32 \<Rightarrow> 's \<Rightarrow> 's"
    and get :: "'s \<Rightarrow> int \<Rightarrow> int \<Rightarrow> 'p"
    and shade :: "u32 \<Rightarrow> 'p"
    and inside :: "int \<Rightarrow> int \<Rightarrow> bool"
    and ok :: "'s \<Rightarrow> bool"
  assumes put_ok: "ok s \<Longrightarrow> ok (put x y c s)"
    and get_put: "ok s \<Longrightarrow> inside u v \<Longrightarrow> get (put x y c s) u v = (if u = x \<and> v = y then shade c else get s u v)"
begin

lemma fold_put:
  assumes "ok s" "inside u v"
  shows "ok (fold (\<lambda>(x, y). put x y (g x y)) ps s) \<and>
    get (fold (\<lambda>(x, y). put x y (g x y)) ps s) u v = (if (u, v) \<in> set ps then shade (g u v) else get s u v)"
  using assms(1)
proof (induction ps arbitrary: s)
  case (Cons p ps)
  obtain x y where p: "p = (x, y)" by (cases p)
  from Cons.IH [OF put_ok [OF Cons.prems, of x y "g x y"]] get_put [OF Cons.prems assms(2), of x y "g x y"] p
  show ?case by auto
qed simp

lemma fold_put_ok: "ok s \<Longrightarrow> ok (fold (\<lambda>(x, y). put x y (g x y)) ps s)"
  by (induction ps arbitrary: s) (auto intro: put_ok)

end

section \<open>The framebuffer as pixels\<close>

text \<open>
  The bytes of a pixel in the three depths that \<open>putpixel\<close> supports, and a mode of such a depth:
  rows that hold their pixels and fit the address space, and the VBE block outside the
  framebuffer.
\<close>

definition supported_depth :: "framebuffer_info \<Rightarrow> bool" where
  "supported_depth fb \<longleftrightarrow> fb_bpp fb \<in> {16, 24, 32}"

definition px_size :: "framebuffer_info \<Rightarrow> nat" where
  "px_size fb = unat (fb_bpp fb) div 8"

definition pixel_bytes :: "framebuffer_info \<Rightarrow> u32 \<Rightarrow> u8 list" where
  "pixel_bytes fb c =
     (if fb_bpp fb = 32 then [ucast c, ucast (drop_bit 8 c), ucast (drop_bit 16 c), ucast (drop_bit 24 c)]
      else if fb_bpp fb = 24 then [ucast c, ucast (drop_bit 8 c), ucast (drop_bit 16 c)]
      else [ucast (rgb565 c), ucast (drop_bit 8 (rgb565 c))])"

definition fb_ok :: "u32 \<Rightarrow> framebuffer_info \<Rightarrow> machine \<Rightarrow> bool" where
  "fb_ok vbe fb s \<longleftrightarrow> get_framebuffer_info vbe s = fb \<and> supported_depth fb \<and>
     px_size fb * unat (fb_width fb) \<le> unat (fb_pitch fb) \<and>
     unat (fb_framebuffer fb) + unat (fb_pitch fb) * unat (fb_height fb) \<le> 4294967296 \<and>
     (unat vbe + 44 \<le> unat (fb_framebuffer fb) \<or>
      unat (fb_framebuffer fb) + unat (fb_pitch fb) * unat (fb_height fb) \<le> unat vbe) \<and>
     unat vbe + 44 \<le> 4294967296"

definition on_screen :: "framebuffer_info \<Rightarrow> int \<Rightarrow> int \<Rightarrow> bool" where
  "on_screen fb x y \<longleftrightarrow> 0 \<le> x \<and> x < int (unat (fb_width fb)) \<and> 0 \<le> y \<and> y < int (unat (fb_height fb))"

definition pixel_addr :: "framebuffer_info \<Rightarrow> int \<Rightarrow> int \<Rightarrow> u32" where
  "pixel_addr fb x y = fb_framebuffer fb + word_of_int (y * int (unat (fb_pitch fb)) + x * int (px_size fb))"

definition pixel :: "framebuffer_info \<Rightarrow> machine \<Rightarrow> int \<Rightarrow> int \<Rightarrow> u8 list" where
  "pixel fb s x y = load_bytes s (pixel_addr fb x y) (px_size fb)"

lemma on_screenD:
  "on_screen fb x y \<Longrightarrow> nat x < unat (fb_width fb) \<and> nat y < unat (fb_height fb) \<and> 0 \<le> x \<and> 0 \<le> y"
  unfolding on_screen_def by linarith

lemma length_pixel_bytes: "supported_depth fb \<Longrightarrow> length (pixel_bytes fb c) = px_size fb"
  by (auto simp: supported_depth_def pixel_bytes_def px_size_def)

lemma putpixel_eq:
  assumes "fb_ok vbe fb s"
  shows "putpixel vbe x y c s =
    (if on_screen fb x y then store_bytes (pixel_addr fb x y) (pixel_bytes fb c) s else s)"
proof -
  have fb: "get_framebuffer_info vbe s = fb" using assms by (simp add: fb_ok_def)
  consider "fb_bpp fb = 16" | "fb_bpp fb = 24" | "fb_bpp fb = 32"
    using assms by (auto simp: fb_ok_def supported_depth_def)
  then show ?thesis
    by cases (auto simp: putpixel_def fb on_screen_def pixel_addr_def pixel_bytes_def px_size_def Let_def add.assoc)
qed

lemma row_bound:
  assumes "B * w \<le> p" "i < w" "j < h"
  shows "j * p + i * B + B \<le> p * (h :: nat)"
proof -
  have "i * B + B = Suc i * B" by simp
  also have "\<dots> \<le> w * B" using assms(2) by (intro mult_le_mono1) simp
  finally have "j * p + i * B + B \<le> j * p + p" using assms(1) by (simp add: mult.commute)
  also have "\<dots> = Suc j * p" by simp
  also have "\<dots> \<le> h * p" using assms(3) by (intro mult_le_mono1) simp
  finally show ?thesis by (simp add: mult.commute)
qed

lemma row_apart:
  assumes "B * w \<le> p" "i < w" "i' < (w :: nat)" "j < j'"
  shows "j * p + i * B + B \<le> j' * p + i' * B"
  using row_bound [OF assms(1,2,4)] by (simp add: mult.commute)

lemma unat_pixel_addr:
  assumes "fb_ok vbe fb s" "on_screen fb x y"
  shows "unat (pixel_addr fb x y) = unat (fb_framebuffer fb) + (nat y * unat (fb_pitch fb) + nat x * px_size fb)"
    and "nat y * unat (fb_pitch fb) + nat x * px_size fb + px_size fb \<le> unat (fb_pitch fb) * unat (fb_height fb)"
proof -
  show b: "nat y * unat (fb_pitch fb) + nat x * px_size fb + px_size fb \<le> unat (fb_pitch fb) * unat (fb_height fb)"
    using assms(1) on_screenD [OF assms(2)]
    by (intro row_bound [of _ "unat (fb_width fb)"]) (simp_all add: fb_ok_def)
  have "y * int (unat (fb_pitch fb)) + x * int (px_size fb) = int (nat y * unat (fb_pitch fb) + nat x * px_size fb)"
    using assms(2) by (simp add: on_screen_def)
  then have "pixel_addr fb x y = fb_framebuffer fb + of_nat (nat y * unat (fb_pitch fb) + nat x * px_size fb)"
    by (simp add: pixel_addr_def)
  moreover have "0 < px_size fb" using assms(1) by (auto simp: fb_ok_def supported_depth_def px_size_def)
  then have "unat (fb_framebuffer fb) + (nat y * unat (fb_pitch fb) + nat x * px_size fb) < 4294967296"
    using assms(1) b by (simp add: fb_ok_def)
  ultimately show "unat (pixel_addr fb x y)
      = unat (fb_framebuffer fb) + (nat y * unat (fb_pitch fb) + nat x * px_size fb)"
    by (simp only: u32_plus_no_wrap unat_u32_of_nat)
qed

lemma pixels_apart:
  assumes ok: "fb_ok vbe fb s" and on: "on_screen fb x y" "on_screen fb u v" and ne: "\<not> (u = x \<and> v = y)"
  shows "unat (pixel_addr fb x y) + px_size fb \<le> unat (pixel_addr fb u v) \<or>
    unat (pixel_addr fb u v) + px_size fb \<le> unat (pixel_addr fb x y)"
proof -
  let ?B = "px_size fb"
  let ?a = "nat y * unat (fb_pitch fb) + nat x * ?B" and ?b = "nat v * unat (fb_pitch fb) + nat u * ?B"
  have w: "?B * unat (fb_width fb) \<le> unat (fb_pitch fb)" using ok by (simp add: fb_ok_def)
  have xu: "nat x < unat (fb_width fb)" "nat u < unat (fb_width fb)" using on on_screenD by blast+
  have same: "i * ?B + ?B \<le> j * ?B" if "i < j" for i j
    using mult_le_mono1 [of "Suc i" j ?B] that by simp
  have "?a + ?B \<le> ?b \<or> ?b + ?B \<le> ?a"
  proof (cases "nat y = nat v")
    case True
    with ne on have "nat x < nat u \<or> nat u < nat x" by (auto simp: on_screen_def)
    with True same show ?thesis by auto
  next
    case False
    then consider "nat y < nat v" | "nat v < nat y" by linarith
    then show ?thesis using row_apart [OF w xu] row_apart [OF w xu(2,1)] by cases auto
  qed
  then show ?thesis
    using unat_pixel_addr(1) [OF ok on(1)] unat_pixel_addr(1) [OF ok on(2)] by auto
qed

lemma fb_info_cong:
  assumes "unat vbe + 44 \<le> 4294967296"
    and "\<And>x. unat vbe \<le> unat x \<Longrightarrow> unat x < unat vbe + 44 \<Longrightarrow> mem t x = mem s x"
  shows "get_framebuffer_info vbe t = get_framebuffer_info vbe s"
proof -
  have m: "mem t (vbe + j) = mem s (vbe + j)" if "unat j < 44" for j
  proof -
    have "unat (vbe + j) = unat vbe + unat j" using that assms(1) by (intro u32_plus_no_wrap) simp
    then show ?thesis using that by (intro assms(2)) simp_all
  qed
  show ?thesis
    using m [of 16] m [of 17] m [of 18] m [of 19] m [of 20] m [of 21] m [of 25]
      m [of 40] m [of 41] m [of 42] m [of 43]
    by (simp add: get_framebuffer_info_eq rd16_def rd8_def load8_def rd32_def load32_def add.assoc)
qed

lemma fb_ok_cong:
  assumes "fb_ok vbe fb s" "\<And>x. unat vbe \<le> unat x \<Longrightarrow> unat x < unat vbe + 44 \<Longrightarrow> mem t x = mem s x"
  shows "fb_ok vbe fb t"
  using fb_info_cong [OF _ assms(2)] assms(1) by (simp add: fb_ok_def)

lemma fb_info_unchanged:
  assumes "fb_ok vbe fb s" "unchanged_outside (unat (fb_framebuffer fb))
    (unat (fb_framebuffer fb) + unat (fb_pitch fb) * unat (fb_height fb)) s t"
  shows "fb_ok vbe fb t"
  by (rule fb_ok_cong [OF assms(1)]) (use assms in \<open>auto simp: fb_ok_def unchanged_outside_def\<close>)

lemma putpixel_unchanged:
  assumes "fb_ok vbe fb s"
  shows "unchanged_outside (unat (fb_framebuffer fb))
    (unat (fb_framebuffer fb) + unat (fb_pitch fb) * unat (fb_height fb)) s (putpixel vbe x y c s)"
proof (cases "on_screen fb x y")
  case True
  have "length (pixel_bytes fb c) = px_size fb" "unat (fb_framebuffer fb) + unat (fb_pitch fb) * unat (fb_height fb) \<le> 4294967296"
    using assms by (simp_all add: fb_ok_def length_pixel_bytes)
  with unat_pixel_addr [OF assms True] show ?thesis
    by (simp add: putpixel_eq [OF assms] True store_bytes_unchanged)
qed (simp add: putpixel_eq [OF assms])

lemma pixel_putpixel:
  assumes "fb_ok vbe fb s" "on_screen fb u v"
  shows "pixel fb (putpixel vbe x y c s) u v = (if u = x \<and> v = y then pixel_bytes fb c else pixel fb s u v)"
proof (cases "on_screen fb x y")
  case True
  let ?p = "pixel_addr fb x y" and ?q = "pixel_addr fb u v"
  have l: "length (pixel_bytes fb c) = px_size fb" using assms(1) by (simp add: fb_ok_def length_pixel_bytes)
  have b: "unat ?p + px_size fb \<le> 4294967296" "unat ?q + px_size fb \<le> 4294967296"
    using unat_pixel_addr [OF assms(1) True] unat_pixel_addr [OF assms] assms(1) by (simp_all add: fb_ok_def)
  show ?thesis
  proof (cases "u = x \<and> v = y")
    case True
    with \<open>on_screen fb x y\<close> load_store_bytes [of ?p "pixel_bytes fb c" s] b(1) l show ?thesis
      by (simp add: pixel_def putpixel_eq [OF assms(1)])
  next
    case False
    have un: "unchanged_outside (unat ?p) (unat ?p + px_size fb) s (store_bytes ?p (pixel_bytes fb c) s)"
      by (rule store_bytes_unchanged) (use b(1) l in simp_all)
    have "load_bytes (store_bytes ?p (pixel_bytes fb c) s) ?q (px_size fb) = load_bytes s ?q (px_size fb)"
      by (rule load_bytes_unchanged [OF un]) (use pixels_apart [OF assms(1) True assms(2) False] b(2) in auto)
    with True show ?thesis unfolding if_not_P [OF False] by (simp add: pixel_def putpixel_eq [OF assms(1)])
  qed
next
  case False
  then have n: "\<not> (u = x \<and> v = y)" using assms(2) by auto
  show ?thesis unfolding if_not_P [OF n] using False by (simp add: putpixel_eq [OF assms(1)])
qed

interpretation ps: pixel_surface "putpixel vbe" "pixel fb" "pixel_bytes fb" "on_screen fb" "fb_ok vbe fb" for vbe fb
proof (unfold_locales, goal_cases)
  case (1 s x y c)
  then show ?case using fb_info_unchanged [OF 1 putpixel_unchanged [OF 1]] by simp
next
  case (2 s u v x y c)
  then show ?case by (rule pixel_putpixel)
qed

section \<open>Bresenham's loop\<close>

text \<open>
  After \<open>i\<close> steps in \<open>x\<close> and \<open>j\<close> steps in \<open>y\<close> the error term is
  \<open>(j + 1) * dx - (i + 1) * \<bar>dy\<bar>\<close>.  From that, neither coordinate passes its end point and
  every round makes a step, so the loop returns.
\<close>

definition bres_err :: "nat \<Rightarrow> nat \<Rightarrow> nat \<Rightarrow> nat \<Rightarrow> int" where
  "bres_err dx dy i j = (int j + 1) * int dx - (int i + 1) * int dy"

lemma bres_x_stays:
  assumes "j < dy" "- int dy \<le> 2 * bres_err dx dy dx j"
  shows False
proof -
  have "(int j + 1) * int dx \<le> int dy * int dx" using assms(1) by (intro mult_right_mono) auto
  moreover have "bres_err dx dy dx j = (int j + 1) * int dx - int dy * int dx - int dy"
    by (simp add: bres_err_def algebra_simps)
  ultimately show False using assms by linarith
qed

lemma bres_y_stays:
  assumes "i < dx" "2 * bres_err dx dy i dy \<le> int dx"
  shows False
proof -
  have "(int i + 1) * int dy \<le> int dx * int dy" using assms(1) by (intro mult_right_mono) auto
  moreover have "bres_err dx dy i dy = int dx * int dy + int dx - (int i + 1) * int dy"
    by (simp add: bres_err_def algebra_simps)
  ultimately show False using assms by linarith
qed

lemma bres_err_step:
  "bres_err dx dy (i + 1) j = bres_err dx dy i j - int dy"
  "bres_err dx dy i (j + 1) = bres_err dx dy i j + int dx"
  by (simp_all add: bres_err_def algebra_simps)

text \<open>
  The points reached stay within half a pixel of the ideal line: twice the cross product with
  the direction is at most the longer side.
\<close>

definition bres_close :: "nat \<Rightarrow> nat \<Rightarrow> nat \<Rightarrow> nat \<Rightarrow> bool" where
  "bres_close dx dy i j \<longleftrightarrow> 2 * \<bar>int j * int dx - int i * int dy\<bar> \<le> int (max dx dy)"

lemma twice_abs_le: "2 * \<bar>z :: int\<bar> \<le> m \<longleftrightarrow> - m \<le> 2 * z \<and> 2 * z \<le> m"
  by auto

lemma bres_arith:
  fixes X Y D :: int
  assumes "0 \<le> X" "0 \<le> Y" "2 * \<bar>D\<bar> \<le> max X Y"
  shows "2 * \<bar>(if - Y \<le> 2 * (D + X - Y) then
        (if 2 * (D + X - Y) \<le> X then D + X - Y else D - Y)
      else (if 2 * (D + X - Y) \<le> X then D + X else D))\<bar> \<le> max X Y"
proof (cases "X \<le> Y")
  case True
  then have m: "max X Y = Y" by simp
  show ?thesis using assms True unfolding m twice_abs_le by (simp split: if_splits) linarith?
next
  case False
  then have m: "max X Y = X" by simp
  show ?thesis using assms False unfolding m twice_abs_le by (simp split: if_splits) linarith?
qed

lemma bres_close_step:
  assumes "bres_close dx dy i j"
  defines "e \<equiv> bres_err dx dy i j"
  shows "bres_close dx dy (if - int dy \<le> 2 * e then i + 1 else i) (if 2 * e \<le> int dx then j + 1 else j)"
proof -
  define D where "D = int j * int dx - int i * int dy"
  have e: "e = D + int dx - int dy" by (simp add: e_def D_def bres_err_def algebra_simps)
  have c: "2 * \<bar>D\<bar> \<le> int (max dx dy)" using assms(1) by (simp add: bres_close_def D_def)
  have s: "int (j + 1) * int dx - int i * int dy = D + int dx"
    "int j * int dx - int (i + 1) * int dy = D - int dy"
    "int (j + 1) * int dx - int (i + 1) * int dy = D + int dx - int dy"
    by (simp_all add: D_def algebra_simps)
  have d: "2 * \<bar>(if - int dy \<le> 2 * e then
        (if 2 * e \<le> int dx then D + int dx - int dy else D - int dy)
      else (if 2 * e \<le> int dx then D + int dx else D))\<bar> \<le> int (max dx dy)"
    using bres_arith [OF of_nat_0_le_iff of_nat_0_le_iff, of D dx dy] c unfolding e of_nat_max by blast
  show ?thesis
    unfolding bres_close_def
    by (cases "- int dy \<le> 2 * e"; cases "2 * e \<le> int dx")
      (use d in \<open>simp_all only: if_True if_False s D_def [symmetric]\<close>)
qed

text \<open>A path of pixels: consecutive points differ by at most one in each coordinate.\<close>

fun pixel_path :: "(int \<times> int) list \<Rightarrow> bool" where
  "pixel_path ((a, b) # (c, d) # ps) \<longleftrightarrow>
     \<bar>c - a\<bar> \<le> 1 \<and> \<bar>d - b\<bar> \<le> 1 \<and> (a, b) \<noteq> (c, d) \<and> pixel_path ((c, d) # ps)"
| "pixel_path ps \<longleftrightarrow> True"

text \<open>Sides of at most \<open>0x2AAAAAAA\<close> pixels keep the error term within 32 bits.\<close>

lemma bres_err_bound: "bres_close dx dy i j \<Longrightarrow> 2 * \<bar>bres_err dx dy i j\<bar> \<le> 3 * int (max dx dy)"
proof -
  define D where "D = int j * int dx - int i * int dy"
  assume "bres_close dx dy i j"
  then have "2 * \<bar>D\<bar> \<le> max (int dx) (int dy)" by (simp add: bres_close_def D_def)
  moreover have "bres_err dx dy i j = D + int dx - int dy" by (simp add: D_def bres_err_def algebra_simps)
  ultimately show ?thesis unfolding of_nat_max by linarith
qed

lemma between_ok:
  assumes "int_ok a" "int_ok (a + z * int n)" "z = 1 \<or> z = -1" "i \<le> n"
  shows "int_ok (a + z * int i)"
  using assms by (auto simp: int_ok_def)

lemma line_loop_round:
  assumes "\<not> (x1 = x2 \<and> y1 = y2)" "3 * \<bar>dx\<bar> \<le> 0x7FFFFFFF" "3 * \<bar>dy\<bar> \<le> 0x7FFFFFFF" "0 \<le> dx" "dy \<le> 0"
    and "2 * \<bar>err\<bar> \<le> 0x7FFFFFFF"
    and "dy \<le> 2 * err \<Longrightarrow> int_ok (x1 + sx)" "2 * err \<le> dx \<Longrightarrow> int_ok (y1 + sy)"
  shows "line_loop vbe dx sx dy sy x2 y2 color err x1 y1 s =
     line_loop vbe dx sx dy sy x2 y2 color
       (err + (if dy \<le> 2 * err then dy else 0) + (if 2 * err \<le> dx then dx else 0))
       (if dy \<le> 2 * err then x1 + sx else x1) (if 2 * err \<le> dx then y1 + sy else y1)
       (putpixel vbe x1 y1 color s)"
proof -
  have "int_ok (2 * err)" "int_ok (err + dy)" "int_ok (err + dx)" "int_ok (err + dy + dx)"
    using assms(2-6) unfolding int_ok_def by linarith+
  then show ?thesis
    using assms(1,7,8) by (subst line_loop.simps) (auto simp: int_val_def)
qed

lemma line_loop_path:
  assumes "i \<le> dx" "j \<le> dy" "bres_close dx dy i j" "sx = 1 \<or> sx = -1" "sy = 1 \<or> sy = -1"
    and M: "3 * int (max dx dy) \<le> 0x7FFFFFFF"
    and ends: "int_ok x0" "int_ok (x0 + sx * int dx)" "int_ok y0" "int_ok (y0 + sy * int dy)"
  shows "\<exists>ps. line_loop vbe (int dx) sx (- int dy) sy (x0 + sx * int dx) (y0 + sy * int dy) c
        (bres_err dx dy i j) (x0 + sx * int i) (y0 + sy * int j) s
      = Some (fold (\<lambda>(x, y). putpixel vbe x y c) ((x0 + sx * int i, y0 + sy * int j) # ps) s)
    \<and> pixel_path ((x0 + sx * int i, y0 + sy * int j) # ps)
    \<and> last ((x0 + sx * int i, y0 + sy * int j) # ps) = (x0 + sx * int dx, y0 + sy * int dy)
    \<and> (\<forall>p \<in> set ((x0 + sx * int i, y0 + sy * int j) # ps).
          \<exists>k l. p = (x0 + sx * int k, y0 + sy * int l) \<and> bres_close dx dy k l)"
  using assms(1-3)
proof (induction "(dx - i) + (dy - j)" arbitrary: i j s rule: less_induct)
  case less
  let ?x = "x0 + sx * int i" and ?y = "y0 + sy * int j" and ?e = "bres_err dx dy i j"
  let ?s = "putpixel vbe ?x ?y c s"
  have fin: "?x = x0 + sx * int dx \<and> ?y = y0 + sy * int dy \<longleftrightarrow> i = dx \<and> j = dy"
    using assms(4,5) by auto
  show ?case
  proof (cases "i = dx \<and> j = dy")
    case True
    then show ?thesis
      using less.prems(3) by (intro exI [of _ "[]"]) (auto simp: line_loop.simps [of vbe])
  next
    case False
    define i' where "i' = (if - int dy \<le> 2 * ?e then i + 1 else i)"
    define j' where "j' = (if 2 * ?e \<le> int dx then j + 1 else j)"
    have bounds: "i' \<le> dx" "j' \<le> dy"
      using less.prems False bres_x_stays [of j dy dx] bres_y_stays [of i dx dy]
      by (auto simp: i'_def j'_def Suc_le_eq order_less_le)
    have close: "bres_close dx dy i' j'"
      using bres_close_step [OF less.prems(3)] by (simp add: i'_def j'_def)
    have prog: "i \<le> i'" "j \<le> j'" "i' + j' > i + j" "i' \<le> i + 1" "j' \<le> j + 1"
      by (auto simp: i'_def j'_def)
    have err: "bres_err dx dy i' j' = ?e + (if - int dy \<le> 2 * ?e then - int dy else 0)
        + (if 2 * ?e \<le> int dx then int dx else 0)"
      by (simp add: i'_def j'_def bres_err_step [unfolded Suc_eq_plus1 [symmetric]] bres_err_def algebra_simps)
    have sides: "3 * \<bar>int dx\<bar> \<le> 0x7FFFFFFF" "3 * \<bar>- int dy\<bar> \<le> 0x7FFFFFFF" "2 * \<bar>?e\<bar> \<le> 0x7FFFFFFF"
      using M bres_err_bound [OF less.prems(3)] by auto
    have ok: "int_ok (x0 + sx * int i')" "int_ok (y0 + sy * int j')"
      using between_ok [OF ends(1,2) assms(4) bounds(1)] between_ok [OF ends(3,4) assms(5) bounds(2)] by simp_all
    have step: "line_loop vbe (int dx) sx (- int dy) sy (x0 + sx * int dx) (y0 + sy * int dy) c ?e ?x ?y s
        = line_loop vbe (int dx) sx (- int dy) sy (x0 + sx * int dx) (y0 + sy * int dy) c
            (bres_err dx dy i' j') (x0 + sx * int i') (y0 + sy * int j') ?s"
      unfolding err
      by (subst line_loop_round) (use False fin sides ok in \<open>auto simp: i'_def j'_def algebra_simps\<close>)
    have "(dx - i') + (dy - j') < (dx - i) + (dy - j)" using bounds prog less.prems by linarith
    from less.hyps [OF this bounds close, of ?s] obtain ps where ps:
      "line_loop vbe (int dx) sx (- int dy) sy (x0 + sx * int dx) (y0 + sy * int dy) c
         (bres_err dx dy i' j') (x0 + sx * int i') (y0 + sy * int j') ?s
       = Some (fold (\<lambda>(x, y). putpixel vbe x y c) ((x0 + sx * int i', y0 + sy * int j') # ps) ?s)"
      "pixel_path ((x0 + sx * int i', y0 + sy * int j') # ps)"
      "last ((x0 + sx * int i', y0 + sy * int j') # ps) = (x0 + sx * int dx, y0 + sy * int dy)"
      "\<forall>p \<in> set ((x0 + sx * int i', y0 + sy * int j') # ps).
         \<exists>k l. p = (x0 + sx * int k, y0 + sy * int l) \<and> bres_close dx dy k l" by blast
    have near: "\<bar>(x0 + sx * int i') - ?x\<bar> \<le> 1" "\<bar>(y0 + sy * int j') - ?y\<bar> \<le> 1"
      using assms(4,5) prog by auto
    have moved: "(?x, ?y) \<noteq> (x0 + sx * int i', y0 + sy * int j')"
      using assms(4,5) prog by auto
    show ?thesis
      using ps near moved step less.prems(3)
      by (intro exI [of _ "(x0 + sx * int i', y0 + sy * int j') # ps"]) auto
  qed
qed

text \<open>End points that are 32-bit integers, at most \<open>0x2AAAAAAA\<close> apart in each coordinate.\<close>

definition line_fits :: "int \<Rightarrow> int \<Rightarrow> int \<Rightarrow> int \<Rightarrow> bool" where
  "line_fits x1 y1 x2 y2 \<longleftrightarrow> int_ok x1 \<and> int_ok y1 \<and> int_ok x2 \<and> int_ok y2 \<and>
     \<bar>x2 - x1\<bar> \<le> 0x2AAAAAAA \<and> \<bar>y2 - y1\<bar> \<le> 0x2AAAAAAA"

lemma line_path:
  assumes fits: "line_fits x1 y1 x2 y2"
  obtains ps where "line vbe x1 y1 x2 y2 c s = Some (fold (\<lambda>(x, y). putpixel vbe x y c) ps s)"
    "ps \<noteq> []" "hd ps = (x1, y1)" "last ps = (x2, y2)" "pixel_path ps"
    "\<forall>(x, y) \<in> set ps. 2 * \<bar>(y - y1) * (x2 - x1) - (x - x1) * (y2 - y1)\<bar> \<le> max \<bar>x2 - x1\<bar> \<bar>y2 - y1\<bar>"
proof -
  define dx where "dx = nat \<bar>x2 - x1\<bar>"
  define dy where "dy = nat \<bar>y2 - y1\<bar>"
  define sx :: int where "sx = (if x1 < x2 then 1 else -1)"
  define sy :: int where "sy = (if y1 < y2 then 1 else -1)"
  have ends: "x1 + sx * int dx = x2" "y1 + sy * int dy = y2"
    by (auto simp: dx_def dy_def sx_def sy_def)
  have M: "3 * int (max dx dy) \<le> 0x7FFFFFFF" using fits by (auto simp: line_fits_def dx_def dy_def)
  have ab: "Option.bind (int_val (x2 - x1)) iabs = Some (int dx)" "Option.bind (int_val (y2 - y1)) iabs = Some (int dy)"
    "int_val (- int dy) = Some (- int dy)" "int_val (int dx + - int dy) = Some (int dx + - int dy)"
    using fits by (auto simp: iabs_def dx_def dy_def line_fits_def int_val_def int_ok_def)
  have ok: "int_ok x1" "int_ok (x1 + sx * int dx)" "int_ok y1" "int_ok (y1 + sy * int dy)"
    using fits by (simp_all add: ends line_fits_def)
  have e0: "int dx + - int dy = bres_err dx dy 0 0" by (simp add: bres_err_def)
  have c0: "bres_close dx dy 0 0" by (simp add: bres_close_def)
  have sg: "sx = 1 \<or> sx = -1" "sy = 1 \<or> sy = -1" by (auto simp: sx_def sy_def)
  obtain ps where ps: "line_loop vbe (int dx) sx (- int dy) sy x2 y2 c (bres_err dx dy 0 0) x1 y1 s
      = Some (fold (\<lambda>(x, y). putpixel vbe x y c) ((x1, y1) # ps) s)"
    "pixel_path ((x1, y1) # ps)" "last ((x1, y1) # ps) = (x2, y2)"
    "\<forall>p \<in> set ((x1, y1) # ps). \<exists>k l. p = (x1 + sx * int k, y1 + sy * int l) \<and> bres_close dx dy k l"
    using line_loop_path [OF _ _ c0 sg M ok, of vbe c s] unfolding ends by auto
  have "line vbe x1 y1 x2 y2 c s = Some (fold (\<lambda>(x, y). putpixel vbe x y c) ((x1, y1) # ps) s)"
    unfolding line_def Let_def ab bind.bind_lunit unfolding e0 using ps(1) by (simp add: sx_def sy_def)
  moreover have "2 * \<bar>(y - y1) * (x2 - x1) - (x - x1) * (y2 - y1)\<bar> \<le> max \<bar>x2 - x1\<bar> \<bar>y2 - y1\<bar>"
    if xy: "(x, y) \<in> set ((x1, y1) # ps)" for x y
  proof -
    obtain k l where kl: "x = x1 + sx * int k" "y = y1 + sy * int l" "bres_close dx dy k l"
      using ps(4) xy by force
    have d: "x2 - x1 = sx * int dx" "y2 - y1 = sy * int dy" using ends by auto
    have "(y - y1) * (x2 - x1) - (x - x1) * (y2 - y1) = sx * sy * (int l * int dx - int k * int dy)"
      unfolding d kl by (simp add: algebra_simps)
    moreover have "\<bar>sx * sy * (int l * int dx - int k * int dy)\<bar> = \<bar>int l * int dx - int k * int dy\<bar>"
      using sg by auto
    moreover have "max \<bar>x2 - x1\<bar> \<bar>y2 - y1\<bar> = int (max dx dy)" by (simp add: dx_def dy_def)
    ultimately show ?thesis using kl(3) by (simp add: bres_close_def)
  qed
  ultimately show ?thesis using ps(2,3) by (intro that [of "(x1, y1) # ps"]) auto
qed

text \<open>A 1024 by 768 mode with its framebuffer at \<open>0xFD000000\<close>, for concrete runs.\<close>

definition mode_1024 :: framebuffer_info where
  "mode_1024 = \<lparr>fb_pitch = 4096, fb_width = 1024, fb_height = 768, fb_bpp = 32, fb_size = 0xC00000,
     fb_framebuffer = 0xFD000000\<rparr>"

definition screen_machine :: machine where
  "screen_machine = blank_machine\<lparr>mem := (\<lambda>_. 0)(0x8011 := 0x10, 0x8013 := 4, 0x8015 := 3, 0x8019 := 32,
     0x802B := 0xFD)\<rparr>"

lemma mode_1024_ok: "fb_ok 0x8000 mode_1024 screen_machine"
proof -
  have "get_framebuffer_info 0x8000 screen_machine = mode_1024"
    by (simp add: get_framebuffer_info_eq rd16_def rd8_def load8_def rd32_def load32_def
        screen_machine_def mode_1024_def)
  then show ?thesis by (simp add: fb_ok_def mode_1024_def supported_depth_def px_size_def)
qed

section \<open>Properties\<close>

text \<open>
  \<open>putpixel\<close> on a mode of 16, 24 or 32 bits sets the bytes of the pixel and no other, ignores coordinates off the
  screen, writes no byte outside the framebuffer and keeps the mode description.
\<close>

theorem putpixel_spec:
  assumes "fb_ok vbe fb s"
  shows "fb_ok vbe fb (putpixel vbe x y c s)
    \<and> (on_screen fb u v \<longrightarrow> pixel fb (putpixel vbe x y c s) u v = (if u = x \<and> v = y then pixel_bytes fb c else pixel fb s u v))
    \<and> (\<not> on_screen fb x y \<longrightarrow> putpixel vbe x y c s = s)
    \<and> unchanged_outside (unat (fb_framebuffer fb))
        (unat (fb_framebuffer fb) + unat (fb_pitch fb) * unat (fb_height fb)) s (putpixel vbe x y c s)"
  using ps.put_ok [OF assms] ps.get_put [OF assms] putpixel_unchanged [OF assms]
  by (simp add: putpixel_eq [OF assms])

theorem putpixel_spec_witness:
  "fb_ok 0x8000 mode_1024 screen_machine \<and>
   pixel mode_1024 (putpixel 0x8000 10 20 COLOR_RED screen_machine) 10 20 = [0, 0, 0xAA, 0]"
  using mode_1024_ok putpixel_spec [OF mode_1024_ok, of 10 20 COLOR_RED 10 20]
  by (simp add: on_screen_def mode_1024_def COLOR_RED_def RGB_def pixel_bytes_def)

text \<open>
  C27. \<open>line\<close> between 32-bit end points that are at most \<open>0x2AAAAAAA\<close> apart in each coordinate
  returns, and no computation of it overflows 32 bits.  The pixels it sets form a connected path from
  \<open>(x1, y1)\<close> to \<open>(x2, y2)\<close> whose points all lie within half a pixel of the ideal line; the
  on-screen points of the path get the colour, and every other pixel keeps its value.
\<close>

theorem line_spec:
  assumes "fb_ok vbe fb s" "line_fits x1 y1 x2 y2"
  shows "\<exists>ps t. line vbe x1 y1 x2 y2 c s = Some t \<and> ps \<noteq> [] \<and> hd ps = (x1, y1) \<and> last ps = (x2, y2)
    \<and> pixel_path ps
    \<and> (\<forall>(x, y) \<in> set ps. 2 * \<bar>(y - y1) * (x2 - x1) - (x - x1) * (y2 - y1)\<bar> \<le> max \<bar>x2 - x1\<bar> \<bar>y2 - y1\<bar>)
    \<and> fb_ok vbe fb t
    \<and> (\<forall>u v. on_screen fb u v \<longrightarrow> pixel fb t u v = (if (u, v) \<in> set ps then pixel_bytes fb c else pixel fb s u v))"
proof -
  obtain ps where ps: "line vbe x1 y1 x2 y2 c s = Some (fold (\<lambda>(x, y). putpixel vbe x y c) ps s)"
    "ps \<noteq> []" "hd ps = (x1, y1)" "last ps = (x2, y2)" "pixel_path ps"
    "\<forall>(x, y) \<in> set ps. 2 * \<bar>(y - y1) * (x2 - x1) - (x - x1) * (y2 - y1)\<bar> \<le> max \<bar>x2 - x1\<bar> \<bar>y2 - y1\<bar>"
    by (rule line_path [OF assms(2)])
  show ?thesis
    using ps ps.fold_put_ok [OF assms(1), of "\<lambda>_ _. c" ps] ps.fold_put [OF assms(1), of _ _ "\<lambda>_ _. c" ps]
    by blast
qed

theorem line_spec_witness:
  "\<exists>t. line 0x8000 10 10 100 100 COLOR_RED screen_machine = Some t \<and> fb_ok 0x8000 mode_1024 t"
  using line_spec [OF mode_1024_ok, of 10 10 100 100 COLOR_RED] by (auto simp: line_fits_def int_ok_def)

end
