(* ===== verification/Console.thy ===== *)
theory Console
  imports Framebuffer Font Memory_Map
begin

text \<open>
  \<^verbatim>\<open>driver/fb/primitives/char.cpp\<close>, \<^verbatim>\<open>string.cpp\<close>, \<^verbatim>\<open>driver/fb/kprint.cpp\<close>, and
  \<open>MemoryMap::print\<close>: text on the framebuffer.  A C string is the list of its bytes before the
  terminating 0 (a 0 inside a list ends it).  The cursor and the machine are one state record.
  Variable arguments are a list of values; taking one that is missing or of the wrong type is
  undefined in C++ and gives \<open>None\<close>.
\<close>

type_synonym cstr = "u8 list"

record tty =
  g_cursor_col :: int
  g_cursor_row :: int
  hw :: machine

abbreviation ch_bs :: u8 where "ch_bs \<equiv> 8"
abbreviation ch_tab :: u8 where "ch_tab \<equiv> 9"
abbreviation ch_nl :: u8 where "ch_nl \<equiv> 10"
abbreviation ch_cr :: u8 where "ch_cr \<equiv> 13"
abbreviation ch_space :: u8 where "ch_space \<equiv> 32"
abbreviation ch_percent :: u8 where "ch_percent \<equiv> 37"
abbreviation ch_minus :: u8 where "ch_minus \<equiv> 45"
abbreviation ch_question :: u8 where "ch_question \<equiv> 63"

section \<open>Characters and strings\<close>

definition draw_char :: "u32 \<Rightarrow> u8 \<Rightarrow> int \<Rightarrow> int \<Rightarrow> u32 \<Rightarrow> u32 \<Rightarrow> machine \<Rightarrow> machine" where
  "draw_char vbe chr x y fgcolor bgcolor s =
     fold (\<lambda>cy s. let row = IBM_VGA_8X16 ! (unat chr * 16 + cy)
        in fold (\<lambda>cx s. let color = (if row AND push_bit (8 - 1 - cx) 1 \<noteq> 0 then fgcolor else bgcolor)
                        in putpixel vbe (x + int cx) (y + int cy) color s) [0..<8] s)
       [0..<16] s"

fun draw_chars :: "u32 \<Rightarrow> u32 \<Rightarrow> u32 \<Rightarrow> int \<Rightarrow> int \<Rightarrow> int \<Rightarrow> cstr \<Rightarrow> machine \<Rightarrow> machine" where
  "draw_chars vbe fg bg start_x pos pos_y [] s = s"
| "draw_chars vbe fg bg start_x pos pos_y (b # cs) s =
     (if b = 0 then s
      else if b = ch_nl then draw_chars vbe fg bg start_x start_x (pos_y + 16) cs s
      else if b = ch_cr then draw_chars vbe fg bg start_x start_x pos_y cs s
      else if b = ch_bs then
        let pos = (if pos \<le> 0 then 0 else pos - 9);
            s = draw_char vbe ch_space pos pos_y fg bg s
        in draw_chars vbe fg bg start_x pos pos_y cs s
      else if b = ch_tab then draw_chars vbe fg bg start_x (pos + 9 * 4) pos_y cs s
      else
        let s = (if 32 \<le> b \<and> b \<le> 254 then draw_char vbe b pos pos_y fg bg s
                 else draw_char vbe ch_question pos pos_y fg bg s)
        in draw_chars vbe fg bg start_x (pos + 9) pos_y cs s)"

definition draw_string :: "u32 \<Rightarrow> cstr \<Rightarrow> u32 \<Rightarrow> u32 \<Rightarrow> int \<Rightarrow> int \<Rightarrow> machine \<Rightarrow> machine" where
  "draw_string vbe str fgcolor bgcolor start_x y s =
     (if str = [] \<or> hd str = 0 then s
      else draw_chars vbe fgcolor bgcolor start_x start_x y str s)"

definition draw_string_at :: "u32 \<Rightarrow> cstr \<Rightarrow> u32 \<Rightarrow> u32 \<Rightarrow> int \<Rightarrow> int \<Rightarrow> machine \<Rightarrow> machine" where
  "draw_string_at vbe str fgcolor bgcolor col row s =
     draw_string vbe str fgcolor bgcolor (col * 9) (row * 16) s"

section \<open>Printing at the cursor\<close>

fun advance :: "cstr \<Rightarrow> int \<Rightarrow> int \<Rightarrow> int \<times> int" where
  "advance [] col row = (col, row)"
| "advance (b # cs) col row =
     (if b = 0 then (col, row)
      else if b = ch_nl then advance cs 0 (row + 1)
      else if b = ch_cr then advance cs 0 row
      else if b = ch_tab then advance cs (col + 4) row
      else if b = ch_bs then advance cs (if col \<le> 0 then 0 else col - 1) row
      else advance cs (col + 1) row)"

definition kprint :: "u32 \<Rightarrow> cstr \<Rightarrow> tty \<Rightarrow> tty" where
  "kprint vbe str t =
     (let t = t\<lparr>hw := draw_string_at vbe str COLOR_WHITE COLOR_BLACK (g_cursor_col t) (g_cursor_row t) (hw t)\<rparr>;
          (col, row) = advance str (g_cursor_col t) (g_cursor_row t)
      in t\<lparr>g_cursor_col := col, g_cursor_row := row\<rparr>)"

definition kprint_at :: "u32 \<Rightarrow> cstr \<Rightarrow> int \<Rightarrow> int \<Rightarrow> tty \<Rightarrow> tty" where
  "kprint_at vbe str col row t =
     (let t = t\<lparr>g_cursor_col := col, g_cursor_row := row\<rparr> in kprint vbe str t)"

definition kputc :: "u32 \<Rightarrow> u8 \<Rightarrow> tty \<Rightarrow> tty" where
  "kputc vbe c t = kprint vbe [c, 0] t"

section \<open>Numbers\<close>

definition representation :: cstr where
  "representation = [48, 49, 50, 51, 52, 53, 54, 55, 56, 57, 65, 66, 67, 68, 69, 70]"

partial_function (option) convert_loop :: "u32 \<Rightarrow> u32 \<Rightarrow> cstr \<Rightarrow> cstr option" where
  "convert_loop num base ptr =
     (let ptr = representation ! unat (num mod base) # ptr; num = num div base
      in if num \<noteq> 0 then convert_loop num base ptr else Some ptr)"

definition convert :: "u32 \<Rightarrow> u32 \<Rightarrow> cstr option" where
  "convert num base = convert_loop num base []"

section \<open>Formatted output\<close>

datatype arg = IntArg u32 | StrArg "cstr option"

definition null_text :: cstr where
  "null_text = [40, 110, 117, 108, 108, 41]"

definition kprint_num :: "u32 \<Rightarrow> u32 \<Rightarrow> u32 \<Rightarrow> tty \<Rightarrow> tty option" where
  "kprint_num vbe v base t = map_option (\<lambda>str. kprint vbe str t) (convert v base)"

definition is_negative :: "u32 \<Rightarrow> bool" where
  "is_negative v \<longleftrightarrow> sint v < 0"

fun print_spec :: "u32 \<Rightarrow> u8 \<Rightarrow> arg list \<Rightarrow> tty \<Rightarrow> (arg list \<times> tty) option" where
  "print_spec vbe d args t =
     (if d = 99 then
        (case args of IntArg v # args \<Rightarrow> Some (args, kputc vbe (ucast v) t) | _ \<Rightarrow> None)
      else if d = 100 then
        (case args of IntArg v # args \<Rightarrow>
           let (v, t) = (if is_negative v then (- v, kputc vbe ch_minus t) else (v, t))
           in map_option (Pair args) (kprint_num vbe v 10 t)
         | _ \<Rightarrow> None)
      else if d = 117 then
        (case args of IntArg v # args \<Rightarrow> map_option (Pair args) (kprint_num vbe v 10 t) | _ \<Rightarrow> None)
      else if d = 111 then
        (case args of IntArg v # args \<Rightarrow> map_option (Pair args) (kprint_num vbe v 8 t) | _ \<Rightarrow> None)
      else if d = 115 then
        (case args of StrArg str # args \<Rightarrow>
           Some (args, kprint vbe (case str of None \<Rightarrow> null_text | Some str \<Rightarrow> str) t) | _ \<Rightarrow> None)
      else if d = 120 then
        (case args of IntArg v # args \<Rightarrow> map_option (Pair args) (kprint_num vbe v 16 t) | _ \<Rightarrow> None)
      else if d = ch_percent then Some (args, kputc vbe ch_percent t)
      else Some (args, kputc vbe d (kputc vbe ch_percent t)))"

fun kprintf :: "u32 \<Rightarrow> cstr \<Rightarrow> arg list \<Rightarrow> tty \<Rightarrow> tty option" where
  "kprintf vbe [] args t = Some t"
| "kprintf vbe (c # fmt) args t =
     (if c = 0 then Some t
      else if c \<noteq> ch_percent then kprintf vbe fmt args (kputc vbe c t)
      else (case fmt of [] \<Rightarrow> Some t
            | d # rest \<Rightarrow>
                if d = 0 then Some t
                else Option.bind (print_spec vbe d args t) (\<lambda>(args, t). kprintf vbe rest args t)))"

section \<open>Printing the memory map\<close>

definition bytes :: "string \<Rightarrow> cstr" where
  "bytes str = map of_char str"

definition print_entry :: "u32 \<Rightarrow> memory_map \<Rightarrow> nat \<Rightarrow> tty \<Rightarrow> tty option" where
  "print_entry vbe mm i t =
     (let entry = mm_entry (hw t) mm (of_nat i)
      in kprintf vbe (bytes ''Entry %d: Base=0x%x, Length=0x%x, Type=%d'' @ [ch_nl])
           [IntArg (of_nat i + 1), IntArg (ucast (e820_base entry)), IntArg (ucast (e820_length entry)),
            IntArg (e820_type entry)] t)"

definition mm_print :: "u32 \<Rightarrow> memory_map \<Rightarrow> tty \<Rightarrow> tty option" where
  "mm_print vbe mm t =
     fold (\<lambda>i r. Option.bind r (print_entry vbe mm i)) [0..<unat (mm_count mm)]
       (kprintf vbe (bytes ''Memory map entry count: %d'' @ [ch_nl]) [IntArg (mm_count mm)] t)"

section \<open>Cursor and screen agree\<close>

declare print_spec.simps [simp del]

lemma kprint_eq:
  "kprint vbe str t = t\<lparr>g_cursor_col := fst (advance str (g_cursor_col t) (g_cursor_row t)),
      g_cursor_row := snd (advance str (g_cursor_col t) (g_cursor_row t)),
      hw := draw_chars vbe COLOR_WHITE COLOR_BLACK (g_cursor_col t * 9) (g_cursor_col t * 9)
              (g_cursor_row t * 16) str (hw t)\<rparr>"
  by (cases str) (auto simp: kprint_def draw_string_at_def draw_string_def Let_def split_beta)

definition plain :: "cstr \<Rightarrow> bool" where
  "plain str \<longleftrightarrow> ch_nl \<notin> set str \<and> ch_cr \<notin> set str"

lemma kputc_zero [simp]: "kputc vbe 0 t = t"
  by (simp add: kputc_def kprint_eq)

lemma kprint_kputc:
  assumes "0 \<notin> set str" "c0 = 0 \<or> plain str"
  shows "\<lparr>g_cursor_col = fst (advance str col row), g_cursor_row = snd (advance str col row),
      hw = draw_chars vbe COLOR_WHITE COLOR_BLACK (c0 * 9) (col * 9) (row * 16) str s\<rparr>
    = fold (kputc vbe) str \<lparr>g_cursor_col = col, g_cursor_row = row, hw = s\<rparr>"
  using assms
proof (induction str arbitrary: col row s)
  case (Cons b str)
  then have b: "b \<noteq> 0" and ne: "c0 = 0 \<or> b \<noteq> ch_nl \<and> b \<noteq> ch_cr" and tl: "0 \<notin> set str" "c0 = 0 \<or> plain str"
    by (auto simp: plain_def)
  have bs: "(if col * 9 \<le> 0 then 0 else col * 9 - 9) = (if col \<le> 0 then 0 else col - 1) * 9" by auto
  consider "b = ch_nl" | "b = ch_cr" | "b = ch_bs" | "b = ch_tab"
    | "b \<notin> {0, ch_nl, ch_cr, ch_bs, ch_tab}" using b by blast
  then show ?case
  proof cases
    case 1
    with ne Cons.IH [OF tl, of 0 "row + 1" s] show ?thesis by (simp add: kputc_def kprint_eq distrib_right)
  next
    case 2
    with ne Cons.IH [OF tl, of 0 row s] show ?thesis by (simp add: kputc_def kprint_eq)
  next
    case 3
    with Cons.IH [OF tl, of "if col \<le> 0 then 0 else col - 1" row
        "draw_char vbe ch_space ((if col \<le> 0 then 0 else col - 1) * 9) (row * 16) COLOR_WHITE COLOR_BLACK s"]
    show ?thesis by (simp only: draw_chars.simps advance.simps fold_simps kputc_def kprint_eq bs Let_def) simp
  next
    case 4
    with Cons.IH [OF tl, of "col + 4" row s] show ?thesis by (simp add: kputc_def kprint_eq distrib_right)
  next
    case 5
    with Cons.IH [OF tl, of "col + 1" row "if 32 \<le> b \<and> b \<le> 254
        then draw_char vbe b (col * 9) (row * 16) COLOR_WHITE COLOR_BLACK s
        else draw_char vbe ch_question (col * 9) (row * 16) COLOR_WHITE COLOR_BLACK s"]
    show ?thesis by (simp add: kputc_def kprint_eq distrib_right)
  qed
qed simp

lemma kprint_fold:
  assumes "0 \<notin> set str" "g_cursor_col t = 0 \<or> plain str"
  shows "kprint vbe str t = fold (kputc vbe) str (t :: tty)"
  using kprint_kputc [OF assms, of "g_cursor_col t" "g_cursor_row t" vbe "hw t"]
  by (cases t) (simp add: kprint_eq)

section \<open>Number conversion\<close>

definition digits_value :: "nat \<Rightarrow> nat list \<Rightarrow> nat" where
  "digits_value b ds = foldl (\<lambda>a d. a * b + d) 0 ds"

lemma convert_loop_digits:
  assumes "2 \<le> unat base"
  shows "\<exists>ds. convert_loop num base ptr = Some (map (\<lambda>d. representation ! d) ds @ ptr)
    \<and> ds \<noteq> [] \<and> (\<forall>d \<in> set ds. d < unat base) \<and> digits_value (unat base) ds = unat num
    \<and> (length ds = 1 \<or> hd ds \<noteq> 0 \<and> 2 ^ (length ds - 1) \<le> unat num)
    \<and> (unat num \<noteq> 0 \<longrightarrow> hd ds \<noteq> 0 \<and> 2 ^ (length ds - 1) \<le> unat num)"
proof (induction "unat num" arbitrary: num ptr rule: less_induct)
  case less
  let ?m = "unat (num mod base)" and ?q = "num div base"
  have m: "?m < unat base" using assms by (simp add: unat_mod)
  have dm: "unat ?q * unat base + ?m = unat num" by (simp add: unat_div unat_mod)
  note loop = convert_loop.simps [of num base ptr]
  show ?case
  proof (cases "?q = 0")
    case True
    then have "?m = unat num" using dm by simp
    with True m show ?thesis
      by (intro exI [of _ "[?m]"]) (auto simp: loop Let_def digits_value_def Suc_le_eq)
  next
    case False
    then have q: "unat ?q \<noteq> 0" by (simp add: unat_eq_zero)
    have two: "2 * unat ?q \<le> unat num"
      using dm assms mult_le_mono2 [of 2 "unat base" "unat ?q"] by linarith
    with q have "unat ?q < unat num" by linarith
    from less [OF this, of "representation ! ?m # ptr"] q obtain ds where ds:
      "convert_loop ?q base (representation ! ?m # ptr)
         = Some (map (\<lambda>d. representation ! d) ds @ representation ! ?m # ptr)"
      "ds \<noteq> []" "\<forall>d \<in> set ds. d < unat base" "digits_value (unat base) ds = unat ?q"
      "hd ds \<noteq> 0" "2 ^ (length ds - 1) \<le> unat ?q" by blast
    have "(2 :: nat) ^ length ds = 2 * 2 ^ (length ds - 1)"
      using ds(2) by (cases ds) simp_all
    with ds(6) two have len: "2 ^ length ds \<le> unat num" by linarith
    show ?thesis
      using ds len m dm False q
      by (intro exI [of _ "ds @ [?m]"]) (auto simp: loop Let_def digits_value_def)
  qed
qed

lemma convert_digits:
  assumes "2 \<le> unat base"
  obtains ds where "convert num base = Some (map (\<lambda>d. representation ! d) ds)"
    "ds \<noteq> []" "\<forall>d \<in> set ds. d < unat base" "digits_value (unat base) ds = unat num"
    "length ds = 1 \<or> hd ds \<noteq> 0" "length ds \<le> 32"
proof -
  obtain ds where ds: "convert num base = Some (map (\<lambda>d. representation ! d) ds)"
    "ds \<noteq> []" "\<forall>d \<in> set ds. d < unat base" "digits_value (unat base) ds = unat num"
    "length ds = 1 \<or> hd ds \<noteq> 0 \<and> 2 ^ (length ds - 1) \<le> unat num"
    using convert_loop_digits [OF assms, of num "[]"] by (auto simp: convert_def)
  have "length ds \<le> 32"
  proof (cases "length ds = 1")
    case False
    with ds(5) have "(2 :: nat) ^ (length ds - 1) \<le> unat num" by simp
    also have "unat num < 2 ^ 32" using unat_u32_lt [of num] by simp
    finally have "length ds - 1 < 32" by (rule power_less_imp_less_exp [rotated]) simp
    then show ?thesis by linarith
  qed simp
  with ds that show ?thesis by blast
qed

lemma representation_plain:
  "d < 16 \<Longrightarrow> representation ! d \<noteq> 0 \<and> representation ! d \<noteq> ch_nl \<and> representation ! d \<noteq> ch_cr"
proof -
  assume "d < 16"
  then have "representation ! d \<in> set representation"
    by (intro nth_mem) (simp add: representation_def)
  moreover have "0 \<notin> set representation" "ch_nl \<notin> set representation" "ch_cr \<notin> set representation"
    by (simp_all add: representation_def)
  ultimately show ?thesis by metis
qed

lemma convert_plain:
  assumes "2 \<le> unat base" "unat base \<le> 16"
  obtains str where "convert num base = Some str" "plain str" "0 \<notin> set str"
proof -
  obtain ds where ds: "convert num base = Some (map (\<lambda>d. representation ! d) ds)"
    "\<forall>d \<in> set ds. d < unat base" by (rule convert_digits [OF assms(1), of num])
  have "representation ! d \<noteq> 0 \<and> representation ! d \<noteq> ch_nl \<and> representation ! d \<noteq> ch_cr" if "d \<in> set ds" for d
    using ds(2) assms(2) that by (intro representation_plain) fastforce
  then have "plain (map (\<lambda>d. representation ! d) ds)" "0 \<notin> set (map (\<lambda>d. representation ! d) ds)"
    by (auto simp: plain_def)
  with ds(1) that show ?thesis by blast
qed

section \<open>Formatted output as text\<close>

text \<open>The text a format and its arguments stand for.\<close>

definition num_text :: "u32 \<Rightarrow> u32 \<Rightarrow> cstr" where
  "num_text v base = the (convert v base)"

fun spec_text :: "u8 \<Rightarrow> arg list \<Rightarrow> (arg list \<times> cstr) option" where
  "spec_text d (IntArg v # args) =
     (if d = 99 then Some (args, if ucast v = (0 :: u8) then [] else [ucast v])
      else if d = 100 then
        Some (args, if is_negative v then ch_minus # num_text (- v) 10 else num_text v 10)
      else if d = 117 then Some (args, num_text v 10)
      else if d = 111 then Some (args, num_text v 8)
      else if d = 120 then Some (args, num_text v 16)
      else if d = 115 then None
      else if d = ch_percent then Some (IntArg v # args, [ch_percent])
      else Some (IntArg v # args, [ch_percent, d]))"
| "spec_text d (StrArg str # args) =
     (if d = 115 then Some (args, case str of None \<Rightarrow> null_text | Some str \<Rightarrow> str)
      else if d \<in> {99, 100, 117, 111, 120} then None
      else if d = ch_percent then Some (StrArg str # args, [ch_percent])
      else Some (StrArg str # args, [ch_percent, d]))"
| "spec_text d [] =
     (if d \<in> {99, 100, 117, 111, 115, 120} then None
      else if d = ch_percent then Some ([], [ch_percent]) else Some ([], [ch_percent, d]))"

fun format_text :: "cstr \<Rightarrow> arg list \<Rightarrow> cstr option" where
  "format_text [] args = Some []"
| "format_text (c # fmt) args =
     (if c = 0 then Some []
      else if c \<noteq> ch_percent then map_option ((#) c) (format_text fmt args)
      else (case fmt of [] \<Rightarrow> Some []
            | d # rest \<Rightarrow>
                if d = 0 then Some []
                else Option.bind (spec_text d args) (\<lambda>(args, str). map_option ((@) str) (format_text rest args))))"

definition arg_plain :: "arg \<Rightarrow> bool" where
  "arg_plain a \<longleftrightarrow> (\<forall>str. a = StrArg (Some str) \<longrightarrow> plain str \<and> 0 \<notin> set str)"

lemma kprint_num_text:
  assumes "2 \<le> unat base" "unat base \<le> 16"
  shows "kprint_num vbe v base t = Some (fold (kputc vbe) (num_text v base) t)"
proof -
  obtain str where "convert v base = Some str" "plain str" "0 \<notin> set str"
    by (rule convert_plain [OF assms])
  then show ?thesis by (simp add: kprint_num_def num_text_def kprint_fold)
qed

lemma print_spec_text:
  assumes "spec_text d args = Some (rest, str)" "\<forall>a \<in> set args. arg_plain a"
  shows "print_spec vbe d args t = Some (rest, fold (kputc vbe) str t) \<and> set rest \<subseteq> set args"
proof -
  have nul: "plain null_text" "0 \<notin> set null_text" by (simp_all add: plain_def null_text_def)
  show ?thesis
  proof (cases args)
    case Nil
    with assms(1) show ?thesis by (auto simp: print_spec.simps split: if_splits)
  next
    case (Cons a as)
    show ?thesis
    proof (cases a)
      case (IntArg v)
      with Cons assms(1) show ?thesis
        by (auto simp: print_spec.simps kprint_num_text Let_def split: if_splits)
    next
      case (StrArg s)
      with Cons assms nul show ?thesis
        by (cases s) (auto simp: print_spec.simps kprint_fold arg_plain_def split: if_splits)
    qed
  qed
qed

lemma kprintf_text:
  assumes "format_text fmt args = Some str" "\<forall>a \<in> set args. arg_plain a"
  shows "kprintf vbe fmt args t = Some (fold (kputc vbe) str t)"
  using assms
proof (induction vbe fmt args t arbitrary: str rule: kprintf.induct)
  case (2 vbe c fmt args t)
  show ?case
  proof (cases "c = 0 \<or> c \<noteq> ch_percent")
    case True
    with 2 show ?thesis by auto
  next
    case False
    show ?thesis
    proof (cases fmt)
      case Nil
      with False 2(3) show ?thesis by simp
    next
      case (Cons d rest)
      show ?thesis
      proof (cases "d = 0")
        case True
        with False Cons 2(3) show ?thesis by simp
      next
        case d: False
        with False Cons 2(3) obtain as st tail where
          s: "spec_text d args = Some (as, st)" "format_text rest as = Some tail" "str = st @ tail"
          by (auto simp: bind_eq_Some_conv)
        note p = print_spec_text [OF s(1) 2(4), of vbe t]
        have "kprintf vbe rest as (fold (kputc vbe) st t) = Some (fold (kputc vbe) tail (fold (kputc vbe) st t))"
          using 2(2) [OF _ _ Cons d, of "(as, fold (kputc vbe) st t)"] False p s(2) 2(4) by auto
        with False Cons d p s(3) show ?thesis by simp
      qed
    qed
  qed
qed simp

section \<open>Glyphs on the screen\<close>

definition cells :: "int \<Rightarrow> int \<Rightarrow> (int \<times> int) list" where
  "cells x y = concat (map (\<lambda>cy. map (\<lambda>cx. (x + int cx, y + int cy)) [0..<8]) [0..<16])"

definition glyph_color :: "u8 \<Rightarrow> int \<Rightarrow> int \<Rightarrow> u32 \<Rightarrow> u32 \<Rightarrow> int \<Rightarrow> int \<Rightarrow> u32" where
  "glyph_color chr x y fg bg u v =
     (if bit (IBM_VGA_8X16 ! (unat chr * 16 + nat (v - y))) (7 - nat (u - x)) then fg else bg)"

lemma cells_iff: "(u, v) \<in> set (cells x y) \<longleftrightarrow> x \<le> u \<and> u < x + 8 \<and> y \<le> v \<and> v < y + 16"
proof
  assume "x \<le> u \<and> u < x + 8 \<and> y \<le> v \<and> v < y + 16"
  then obtain i j where ij: "u = x + int i" "i < 8" "v = y + int j" "j < 16"
    by (intro that [of "nat (u - x)" "nat (v - y)"]) auto
  then have "(u, v) \<in> set (map (\<lambda>cx. (x + int cx, y + int j)) [0..<8])"
    unfolding set_map by (intro image_eqI [of _ _ i]) simp_all
  moreover have "map (\<lambda>cx. (x + int cx, y + int j)) [0..<8]
      \<in> set (map (\<lambda>cy. map (\<lambda>cx. (x + int cx, y + int cy)) [0..<8]) [0..<16])"
    unfolding set_map [of _ "[0..<16]"] using ij(4) by (intro image_eqI [of _ _ j]) simp_all
  ultimately show "(u, v) \<in> set (cells x y)" unfolding cells_def set_concat by blast
qed (auto simp: cells_def simp del: upt_rec_numeral)

lemma and_push_bit: "(w :: u8) AND push_bit k 1 \<noteq> 0 \<longleftrightarrow> bit w k"
  using and_exp_eq_0_iff_not_bit [of w k] by (simp add: push_bit_of_1)

lemma draw_char_cells:
  "draw_char vbe chr x y fg bg s =
     fold (\<lambda>(u, v). putpixel vbe u v (glyph_color chr x y fg bg u v)) (cells x y) s"
proof -
  let ?G = "\<lambda>(u, v). putpixel vbe u v (glyph_color chr x y fg bg u v)"
  have row: "(\<lambda>cx s. putpixel vbe (x + int cx) (y + int cy)
        (if IBM_VGA_8X16 ! (unat chr * 16 + cy) AND push_bit (8 - 1 - cx) 1 \<noteq> 0 then fg else bg) s)
      = ?G \<circ> (\<lambda>cx. (x + int cx, y + int cy))" for cy
    unfolding and_push_bit by (auto simp: fun_eq_iff glyph_color_def)
  have "fold (\<lambda>cy s. fold (?G \<circ> (\<lambda>cx. (x + int cx, y + int cy))) cxs s) cys s
      = fold ?G (concat (map (\<lambda>cy. map (\<lambda>cx. (x + int cx, y + int cy)) cxs) cys)) s" for cxs cys s
    by (induction cys arbitrary: s) (simp_all add: fold_map)
  then show ?thesis unfolding draw_char_def cells_def Let_def row .
qed

lemma draw_char_pixel:
  assumes "fb_ok vbe fb s" "on_screen fb u v"
  shows "pixel fb (draw_char vbe chr x y fg bg s) u v =
    (if x \<le> u \<and> u < x + 8 \<and> y \<le> v \<and> v < y + 16
     then pixel_bytes fb (glyph_color chr x y fg bg u v) else pixel fb s u v)"
  using ps.fold_put [OF assms] by (simp add: draw_char_cells cells_iff)

section \<open>Text output stays in the framebuffer\<close>

definition draws :: "u32 \<Rightarrow> framebuffer_info \<Rightarrow> machine \<Rightarrow> machine \<Rightarrow> bool" where
  "draws vbe fb s t \<longleftrightarrow> fb_ok vbe fb t \<and> unchanged_outside (unat (fb_framebuffer fb))
     (unat (fb_framebuffer fb) + unat (fb_pitch fb) * unat (fb_height fb)) s t"

lemma draws_refl: "fb_ok vbe fb s \<Longrightarrow> draws vbe fb s s"
  by (simp add: draws_def)

lemma draws_trans [trans]: "draws vbe fb s t \<Longrightarrow> draws vbe fb t u \<Longrightarrow> draws vbe fb s u"
  unfolding draws_def by (blast intro: unchanged_trans)

lemma draws_ok: "draws vbe fb s t \<Longrightarrow> fb_ok vbe fb t"
  by (simp add: draws_def)

lemma fold_putpixel_draws:
  "fb_ok vbe fb s \<Longrightarrow> draws vbe fb s (fold (\<lambda>(u, v). putpixel vbe u v (g u v)) ps s)"
proof (induction ps arbitrary: s)
  case (Cons p ps)
  obtain u v where p: "p = (u, v)" by (cases p)
  have "draws vbe fb s (putpixel vbe u v (g u v) s)"
    unfolding draws_def using ps.put_ok [OF Cons.prems] putpixel_unchanged [OF Cons.prems] by simp
  from draws_trans [OF this Cons.IH [OF draws_ok [OF this]]] p show ?case by simp
qed (simp add: draws_refl)

lemma draw_char_draws: "fb_ok vbe fb s \<Longrightarrow> draws vbe fb s (draw_char vbe chr x y fg bg s)"
  unfolding draw_char_cells by (rule fold_putpixel_draws)

lemma draw_chars_draws:
  "fb_ok vbe fb s \<Longrightarrow> draws vbe fb s (draw_chars vbe fg bg x0 pos pos_y str s)"
proof (induction str arbitrary: pos pos_y s)
  case (Cons b str)
  have ch: "draws vbe fb s (draw_chars vbe fg bg x0 p q str (draw_char vbe c x y fg bg s))" for c x y p q
    using draw_char_draws [OF Cons.prems, of c x y fg bg]
    by (rule draws_trans) (rule Cons.IH [OF draws_ok [OF draw_char_draws [OF Cons.prems]]])
  show ?case
    using ch Cons.IH [OF Cons.prems] draws_refl [OF Cons.prems] by (simp add: Let_def)
qed (simp add: draws_refl)

lemma kprint_draws: "fb_ok vbe fb (hw t) \<Longrightarrow> draws vbe fb (hw t) (hw (kprint vbe str t))"
  by (simp add: kprint_eq draw_chars_draws)

lemma kputcs_draws: "fb_ok vbe fb (hw t) \<Longrightarrow> draws vbe fb (hw t) (hw (fold (kputc vbe) str t))"
proof (induction str arbitrary: t)
  case (Cons c str)
  have "draws vbe fb (hw t) (hw (kputc vbe c t))" unfolding kputc_def by (rule kprint_draws [OF Cons.prems])
  from draws_trans [OF this Cons.IH [OF draws_ok [OF this]]] show ?case by simp
qed (simp add: draws_refl)

lemma kprint_num_draws:
  assumes "kprint_num vbe v base t = Some t'" "fb_ok vbe fb (hw t)"
  shows "draws vbe fb (hw t) (hw t')"
  using assms kprint_draws by (auto simp: kprint_num_def)

lemma print_spec_draws:
  assumes "print_spec vbe d args t = Some (rest, t')" "fb_ok vbe fb (hw t)"
  shows "draws vbe fb (hw t) (hw t')"
proof -
  have pc: "draws vbe fb (hw t) (hw (kputc vbe c t))" for c
    using kputcs_draws [OF assms(2), of "[c]"] by simp
  have pcc: "draws vbe fb (hw t) (hw (kputc vbe c (kputc vbe c' t)))" for c c'
    using kputcs_draws [OF assms(2), of "[c', c]"] by simp
  have pn: "draws vbe fb (hw t) (hw u)" if "kprint_num vbe v b (kputc vbe c t) = Some u" for v b c u
    using draws_trans [OF pc kprint_num_draws [OF that draws_ok [OF pc]]] .
  show ?thesis
    using assms pc pcc pn kprint_num_draws [of vbe _ _ t t' fb] kprint_draws [OF assms(2)]
    by (auto simp: print_spec.simps Let_def split: if_splits list.splits arg.splits)
qed

lemma kprintf_draws:
  "kprintf vbe fmt args t = Some t' \<Longrightarrow> fb_ok vbe fb (hw t) \<Longrightarrow> draws vbe fb (hw t) (hw t')"
proof (induction vbe fmt args t rule: kprintf.induct)
  case (1 vbe args t)
  then show ?case by (simp add: draws_refl)
next
  case (2 vbe c fmt args t)
  show ?case
  proof (cases "c = 0 \<or> c \<noteq> ch_percent")
    case True
    have "draws vbe fb (hw t) (hw (kputc vbe c t))" using kputcs_draws [OF 2(4), of "[c]"] by simp
    note put = this
    show ?thesis
    proof (cases "c = 0")
      case True
      with 2(3,4) show ?thesis by (simp add: draws_refl)
    next
      case False
      with True 2(3) have "kprintf vbe fmt args (kputc vbe c t) = Some t'" by simp
      with 2(1) False True draws_ok [OF put] have "draws vbe fb (hw (kputc vbe c t)) (hw t')" by simp
      with put show ?thesis by (rule draws_trans)
    qed
  next
    case False
    show ?thesis
    proof (cases "fmt = [] \<or> hd fmt = 0")
      case True
      with False 2(3,4) show ?thesis by (auto simp: draws_refl split: list.splits)
    next
      case ne: False
      then obtain d rest where fmt: "fmt = d # rest" "d \<noteq> 0" by (cases fmt) auto
      with False 2(3) obtain as u where s: "print_spec vbe d args t = Some (as, u)"
          "kprintf vbe rest as u = Some t'"
        by (auto simp: bind_eq_Some_conv)
      note d = print_spec_draws [OF s(1) 2(4)]
      from 2(2) [OF _ _ fmt, of "(as, u)" as u] False s d 2(4) draws_ok [OF d]
      have "draws vbe fb (hw u) (hw t')" by simp
      with d show ?thesis by (rule draws_trans)
    qed
  qed
qed

text \<open>A line feed inside a string: drawing returns to the column where the string started.\<close>

lemma draw_chars_newline:
  assumes "0 \<notin> set before"
  shows "draw_chars vbe fg bg x0 pos (row * 16) (before @ ch_nl # rest) s =
    draw_chars vbe fg bg x0 x0 ((snd (advance before col row) + 1) * 16) rest
      (draw_chars vbe fg bg x0 pos (row * 16) before s)"
  using assms
proof (induction before arbitrary: pos row col s)
  case Nil
  then show ?case by (simp add: distrib_right)
next
  case (Cons b before)
  from Cons.IH [of _ "row + 1"] Cons.IH [of _ row] Cons.prems show ?case
    by (simp add: Let_def distrib_right)
qed

lemma advance_newline:
  "0 \<notin> set before \<Longrightarrow> advance (before @ ch_nl # rest) col row = advance rest 0 (snd (advance before col row) + 1)"
  by (induction before arbitrary: col row) simp_all

text \<open>Printing the memory map returns, and draws only.\<close>

lemma bytes_simps [simp]: "bytes [] = []" "bytes (c # cs) = of_char c # bytes cs"
  by (simp_all add: bytes_def)

lemma entry_format_text:
  "\<exists>str. format_text (bytes ''Entry %d: Base=0x%x, Length=0x%x, Type=%d'' @ [ch_nl])
     [IntArg a, IntArg b, IntArg c, IntArg d] = Some str"
  by simp

lemma count_format_text: "\<exists>str. format_text (bytes ''Memory map entry count: %d'' @ [ch_nl]) [IntArg a] = Some str"
  by simp

lemma print_entry_returns:
  assumes "fb_ok vbe fb (hw t)"
  obtains u where "print_entry vbe mm i t = Some u" "draws vbe fb (hw t) (hw u)"
proof -
  obtain u where u: "print_entry vbe mm i t = Some u"
    unfolding print_entry_def Let_def
    using entry_format_text kprintf_text [of "bytes ''Entry %d: Base=0x%x, Length=0x%x, Type=%d'' @ [ch_nl]"]
    by (fastforce simp: arg_plain_def)
  with kprintf_draws [OF _ assms] that show ?thesis unfolding print_entry_def Let_def by blast
qed

lemma mm_print_returns:
  assumes "fb_ok vbe fb (hw t)"
  shows "\<exists>u. mm_print vbe mm t = Some u \<and> draws vbe fb (hw t) (hw u)"
proof -
  obtain u where u: "kprintf vbe (bytes ''Memory map entry count: %d'' @ [ch_nl]) [IntArg (mm_count mm)] t = Some u"
    using count_format_text kprintf_text [of "bytes ''Memory map entry count: %d'' @ [ch_nl]"]
    by (fastforce simp: arg_plain_def)
  have du: "draws vbe fb (hw t) (hw u)" by (rule kprintf_draws [OF u assms])
  have "\<exists>v. fold (\<lambda>i r. Option.bind r (print_entry vbe mm i)) xs (Some u) = Some v \<and> draws vbe fb (hw u) (hw v)" for xs
    using draws_ok [OF du]
  proof (induction xs arbitrary: u)
    case (Cons i xs)
    obtain w where w: "print_entry vbe mm i u = Some w" "draws vbe fb (hw u) (hw w)"
      by (rule print_entry_returns [OF Cons.prems])
    from Cons.IH [OF draws_ok [OF w(2)]] w show ?case by (auto intro: draws_trans)
  qed (simp add: draws_refl)
  with u du show ?thesis unfolding mm_print_def by (metis draws_trans)
qed

text \<open>A console on the 1024 by 768 screen.\<close>

definition boot_tty :: tty where
  "boot_tty = \<lparr>g_cursor_col = 0, g_cursor_row = 0, hw = screen_machine\<rparr>"

section \<open>Properties\<close>

text \<open>
  C28. \<open>draw_char\<close> paints the 8 by 16 cell at \<open>(x, y)\<close> with the glyph of the font, foreground
  where the glyph has a bit and background elsewhere (bit 7 is the leftmost column), in the byte
  format of the 16, 24 or 32-bit mode and clipped to the screen; every pixel outside the cell
  keeps its value.
\<close>

theorem draw_char_spec:
  assumes "fb_ok vbe fb s" "on_screen fb u v"
  shows "pixel fb (draw_char vbe chr x y fg bg s) u v =
      (if x \<le> u \<and> u < x + 8 \<and> y \<le> v \<and> v < y + 16
       then pixel_bytes fb (if bit (IBM_VGA_8X16 ! (unat chr * 16 + nat (v - y))) (7 - nat (u - x)) then fg else bg)
       else pixel fb s u v)
    \<and> fb_ok vbe fb (draw_char vbe chr x y fg bg s)"
  using draw_char_pixel [OF assms] draws_ok [OF draw_char_draws [OF assms(1)]]
  by (simp add: glyph_color_def)

theorem draw_char_spec_witness:
  "on_screen mode_1024 12 21 \<and>
   pixel mode_1024 (draw_char 0x8000 ch_space 10 20 COLOR_WHITE COLOR_BLACK screen_machine) 12 21 = [0, 0, 0, 0]"
proof -
  have on: "on_screen mode_1024 12 21" by (simp add: on_screen_def mode_1024_def)
  from draw_char_spec [OF mode_1024_ok this, of ch_space 10 20 COLOR_WHITE COLOR_BLACK] font_space [of 1] on
  show ?thesis by (simp add: COLOR_BLACK_def RGB_def pixel_bytes_def mode_1024_def)
qed

text \<open>
  C26. \<open>kprint\<close> of a string is \<open>kputc\<close> of its characters, screen and cursor alike, when the
  string starts in column 0 or has no line feed or carriage return: the separately kept pixel
  position of \<open>draw_string\<close> and cursor of \<open>kprint\<close> agree, also for tabs and backspaces.
\<close>

theorem kprint_is_kputc:
  assumes "0 \<notin> set str" "g_cursor_col t = 0 \<or> ch_nl \<notin> set str \<and> ch_cr \<notin> set str"
  shows "kprint vbe str t = fold (kputc vbe) str (t :: tty)"
  using assms by (intro kprint_fold) (simp_all add: plain_def)

theorem kprint_is_kputc_witness:
  "kprint 0x8000 [72, ch_nl, 105] boot_tty = fold (kputc 0x8000) [72, ch_nl, 105] boot_tty"
  by (rule kprint_is_kputc) (simp_all add: boot_tty_def)

text \<open>
  C40. Otherwise they disagree: at a line feed anywhere in a string that started in column \<open>k\<close>,
  \<open>draw_string\<close> goes back to column \<open>k\<close> and the cursor to column 0.  The screen is that of printing
  what follows the line feed from column \<open>k\<close> of the new line on, the cursor that of printing it
  from column 0 on.
\<close>

theorem kprint_newline_column:
  assumes "0 \<notin> set before" "u = kprint vbe before t" "v = kprint vbe (before @ ch_nl # rest) (t :: tty)"
  shows "hw v = hw (kprint vbe rest (u\<lparr>g_cursor_col := g_cursor_col t, g_cursor_row := g_cursor_row u + 1\<rparr>))
    \<and> g_cursor_col v = g_cursor_col (kprint vbe rest (u\<lparr>g_cursor_col := 0, g_cursor_row := g_cursor_row u + 1\<rparr>))
    \<and> g_cursor_row v = g_cursor_row (kprint vbe rest (u\<lparr>g_cursor_col := 0, g_cursor_row := g_cursor_row u + 1\<rparr>))"
  using draw_chars_newline [OF assms(1), where row = "g_cursor_row t" and col = "g_cursor_col t"]
    advance_newline [OF assms(1)]
  by (simp add: assms(2,3) kprint_eq)

theorem kprint_newline_column_witness:
  "hw (kprint 0x8000 [65, ch_nl, 66] (boot_tty\<lparr>g_cursor_col := 5\<rparr>)) =
     draw_char 0x8000 66 45 16 COLOR_WHITE COLOR_BLACK (draw_char 0x8000 65 45 0 COLOR_WHITE COLOR_BLACK screen_machine) \<and>
   g_cursor_col (kprint 0x8000 [65, ch_nl, 66] (boot_tty\<lparr>g_cursor_col := 5\<rparr>)) = 1"
  using kprint_newline_column [of "[65]" _ "0x8000" "boot_tty\<lparr>g_cursor_col := 5\<rparr>" _ "[66]", OF _ refl refl]
  by (simp add: boot_tty_def kprint_eq)

text \<open>
  C25. \<open>convert\<close> returns, for every number and every base from 2 to 16, a digit string that
  denotes the number, has no leading zero unless it is one digit, and is at most 32 characters
  long, so it fits the 50-byte buffer.
\<close>

theorem convert_spec:
  assumes "2 \<le> base" "base \<le> 16"
  shows "\<exists>ds. convert num base = Some (map (\<lambda>d. representation ! d) ds)
    \<and> (\<forall>d \<in> set ds. d < unat base) \<and> digits_value (unat base) ds = unat num
    \<and> (length ds = 1 \<or> hd ds \<noteq> 0) \<and> 1 \<le> length ds \<and> length ds \<le> 32"
proof -
  have "2 \<le> unat base" using assms(1) by (simp add: u32_le_iff)
  then obtain ds where "convert num base = Some (map (\<lambda>d. representation ! d) ds)"
    "ds \<noteq> []" "\<forall>d \<in> set ds. d < unat base" "digits_value (unat base) ds = unat num"
    "length ds = 1 \<or> hd ds \<noteq> 0" "length ds \<le> 32" by (rule convert_digits)
  then show ?thesis by (intro exI [of _ ds]) (simp add: Suc_le_eq)
qed

theorem convert_spec_witness:
  "(2 :: u32) \<le> 16 \<and> (\<exists>ds. convert 0xCAFE 16 = Some (map (\<lambda>d. representation ! d) ds)
    \<and> digits_value 16 ds = 0xCAFE)"
  using convert_spec [of 16 "0xCAFE"] by auto

text \<open>
  C24. \<open>kprintf\<close> prints, character by character, the text that its format and arguments stand
  for, if the strings among the arguments have no line feed or carriage return, and changes no
  byte outside the framebuffer.
\<close>

theorem kprintf_spec:
  assumes "fb_ok vbe fb (hw t)" "format_text fmt args = Some str" "\<forall>a \<in> set args. arg_plain a"
  shows "\<exists>u. kprintf vbe fmt args t = Some u \<and> u = fold (kputc vbe) str t \<and> fb_ok vbe fb (hw u)
    \<and> unchanged_outside (unat (fb_framebuffer fb))
        (unat (fb_framebuffer fb) + unat (fb_pitch fb) * unat (fb_height fb)) (hw t) (hw u)"
proof -
  note out = kprintf_text [OF assms(2,3), of vbe t]
  from out kprintf_draws [OF out assms(1)] show ?thesis by (simp add: draws_def)
qed

theorem kprintf_spec_witness:
  "format_text [65, ch_percent, 99, ch_percent, ch_percent] [IntArg 66] = Some [65, 66, ch_percent] \<and>
   (\<exists>u. kprintf 0x8000 [65, ch_percent, 99, ch_percent, ch_percent] [IntArg 66] boot_tty = Some u \<and>
      u = fold (kputc 0x8000) [65, 66, ch_percent] boot_tty)"
proof -
  have ok: "fb_ok 0x8000 mode_1024 (hw boot_tty)" using mode_1024_ok by (simp add: boot_tty_def)
  have f: "format_text [65, ch_percent, 99, ch_percent, ch_percent] [IntArg 66] = Some [65, 66, ch_percent]"
    by simp
  from kprintf_spec [OF ok f] f show ?thesis by (auto simp: arg_plain_def)
qed

end
