(* ===== verification/Keyboard.thy ===== *)
theory Keyboard
  imports Machine
begin

text \<open>
  \<^verbatim>\<open>driver/keyboard\<close>: the PS/2 keyboard driver.  The interrupt handler reads a scancode
  from port \<open>0x60\<close>, tracks the modifier keys, translates make codes and puts characters into a
  ring buffer of 256 bytes; \<open>read_char\<close> takes them out.  The positions are 32-bit counters that
  are never reduced, so they wrap around at \<open>2^32\<close>.  The ring buffer is shown to be a FIFO queue
  while at most 256 characters are outstanding.
\<close>

abbreviation KB_DATA_PORT :: u32 where "KB_DATA_PORT \<equiv> 0x60"
abbreviation KB_RELEASED :: u8 where "KB_RELEASED \<equiv> 0x80"
abbreviation KB_BUFFER_SIZE :: u32 where "KB_BUFFER_SIZE \<equiv> 256"
abbreviation SC_LSHIFT_PRESS :: u8 where "SC_LSHIFT_PRESS \<equiv> 0x2A"
abbreviation SC_RSHIFT_PRESS :: u8 where "SC_RSHIFT_PRESS \<equiv> 0x36"
abbreviation SC_LSHIFT_RELEASE :: u8 where "SC_LSHIFT_RELEASE \<equiv> 0xAA"
abbreviation SC_RSHIFT_RELEASE :: u8 where "SC_RSHIFT_RELEASE \<equiv> 0xB6"
abbreviation SC_CTRL_PRESS :: u8 where "SC_CTRL_PRESS \<equiv> 0x1D"
abbreviation SC_CTRL_RELEASE :: u8 where "SC_CTRL_RELEASE \<equiv> 0x9D"

section \<open>State and tables\<close>

record keyboard =
  buffer :: "u8 list"
  read_pos :: u32
  write_pos :: u32
  shift_held :: bool
  ctrl_held :: bool

definition scancode_to_ascii :: "u8 list" where
  "scancode_to_ascii =
    [0, 27, 49, 50, 51, 52, 53, 54, 55, 56, 57, 48, 45, 61, 8,
     9, 113, 119, 101, 114, 116, 121, 117, 105, 111, 112, 91, 93, 10,
     0, 97, 115, 100, 102, 103, 104, 106, 107, 108, 59, 39, 96,
     0, 92, 122, 120, 99, 118, 98, 110, 109, 44, 46, 47, 0,
     42, 0, 32] @ replicate 70 0"

definition scancode_to_ascii_shift :: "u8 list" where
  "scancode_to_ascii_shift =
    [0, 27, 33, 64, 35, 36, 37, 94, 38, 42, 40, 41, 95, 43, 8,
     9, 81, 87, 69, 82, 84, 89, 85, 73, 79, 80, 123, 125, 10,
     0, 65, 83, 68, 70, 71, 72, 74, 75, 76, 58, 34, 126,
     0, 124, 90, 88, 67, 86, 66, 78, 77, 60, 62, 63, 0,
     42, 0, 32] @ replicate 70 0"

section \<open>Operations\<close>

definition kb_init :: "keyboard \<Rightarrow> keyboard" where
  "kb_init kb = kb\<lparr>read_pos := 0, write_pos := 0, shift_held := False, ctrl_held := False\<rparr>"

definition kb_put :: "u8 \<Rightarrow> keyboard \<Rightarrow> keyboard" where
  "kb_put c kb =
     (let kb = kb\<lparr>buffer := (buffer kb)[unat (write_pos kb mod KB_BUFFER_SIZE) := c]\<rparr>
      in kb\<lparr>write_pos := write_pos kb + 1\<rparr>)"

definition handle_scancode :: "u8 \<Rightarrow> keyboard \<Rightarrow> keyboard" where
  "handle_scancode scancode kb =
     (if scancode = SC_LSHIFT_PRESS \<or> scancode = SC_RSHIFT_PRESS then kb\<lparr>shift_held := True\<rparr>
      else if scancode = SC_LSHIFT_RELEASE \<or> scancode = SC_RSHIFT_RELEASE then kb\<lparr>shift_held := False\<rparr>
      else if scancode = SC_CTRL_PRESS then kb\<lparr>ctrl_held := True\<rparr>
      else if scancode = SC_CTRL_RELEASE then kb\<lparr>ctrl_held := False\<rparr>
      else if scancode AND KB_RELEASED \<noteq> 0 then kb
      else let c = (if shift_held kb then scancode_to_ascii_shift ! unat scancode
                    else scancode_to_ascii ! unat scancode)
           in if c \<noteq> 0 then kb_put c kb else kb)"

definition handle_interrupt :: "machine \<Rightarrow> keyboard \<Rightarrow> keyboard" where
  "handle_interrupt s kb = handle_scancode (io_read8 s KB_DATA_PORT) kb"

definition read_char :: "keyboard \<Rightarrow> u8 \<times> keyboard" where
  "read_char kb =
     (if read_pos kb = write_pos kb then (0, kb)
      else let c = buffer kb ! unat (read_pos kb mod KB_BUFFER_SIZE)
           in (c, kb\<lparr>read_pos := read_pos kb + 1\<rparr>))"

definition has_input :: "keyboard \<Rightarrow> bool" where
  "has_input kb \<longleftrightarrow> read_pos kb \<noteq> write_pos kb"

section \<open>The contract of a character queue\<close>

text \<open>
  What the consumer of the keyboard (\<open>sys_read\<close>) relies on: characters come out in the order
  in which they went in, as long as the capacity is respected.
\<close>

primrec take_chars :: "('s \<Rightarrow> u8 \<times> 's) \<Rightarrow> nat \<Rightarrow> 's \<Rightarrow> u8 list \<times> 's" where
  "take_chars get 0 s = ([], s)"
| "take_chars get (Suc n) s = (let (c, s) = get s; (cs, s) = take_chars get n s in (c # cs, s))"

locale char_queue =
  fixes put :: "u8 \<Rightarrow> 's \<Rightarrow> 's"
    and get :: "'s \<Rightarrow> u8 \<times> 's"
    and nonempty :: "'s \<Rightarrow> bool"
    and contents :: "'s \<Rightarrow> u8 list"
    and cap :: nat
    and ok :: "'s \<Rightarrow> bool"
  assumes put_law: "ok s \<Longrightarrow> length (contents s) < cap \<Longrightarrow> ok (put c s) \<and> contents (put c s) = contents s @ [c]"
    and get_law: "ok s \<Longrightarrow> contents s = c # cs \<Longrightarrow> fst (get s) = c \<and> ok (snd (get s)) \<and> contents (snd (get s)) = cs"
    and get_empty: "contents s = [] \<Longrightarrow> get s = (0, s)"
    and nonempty_law: "nonempty s \<longleftrightarrow> contents s \<noteq> []"
begin

lemma put_all:
  assumes "ok s" "length (contents s) + length cs \<le> cap"
  shows "ok (fold put cs s) \<and> contents (fold put cs s) = contents s @ cs"
  using assms
proof (induction cs arbitrary: s)
  case (Cons c cs)
  then have "ok (put c s) \<and> contents (put c s) = contents s @ [c]" by (intro put_law) auto
  with Cons show ?case by simp
qed simp

lemma take_chars_contents:
  assumes "ok s" "n \<le> length (contents s)"
  shows "fst (take_chars get n s) = take n (contents s) \<and> ok (snd (take_chars get n s))
    \<and> contents (snd (take_chars get n s)) = drop n (contents s)"
  using assms
proof (induction n arbitrary: s)
  case (Suc n)
  then obtain c cs where c: "contents s = c # cs" by (cases "contents s") auto
  with get_law [OF Suc.prems(1) c] Suc show ?case by (auto simp: split_beta)
qed simp

text \<open>First in, first out.\<close>

lemma fifo:
  assumes "ok s" "contents s = []" "length cs \<le> cap"
  shows "fst (take_chars get (length cs) (fold put cs s)) = cs
    \<and> \<not> nonempty (snd (take_chars get (length cs) (fold put cs s)))"
  using put_all [OF assms(1), of cs] take_chars_contents [of "fold put cs s" "length cs"] assms
  by (simp add: nonempty_law)

end

section \<open>The ring buffer is a queue\<close>

definition kb_pending :: "keyboard \<Rightarrow> nat" where
  "kb_pending kb = unat (write_pos kb - read_pos kb)"

definition kb_contents :: "keyboard \<Rightarrow> u8 list" where
  "kb_contents kb =
     map (\<lambda>i. buffer kb ! ((unat (read_pos kb) + i) mod 256)) [0..<kb_pending kb]"

definition kb_ok :: "keyboard \<Rightarrow> bool" where
  "kb_ok kb \<longleftrightarrow> length (buffer kb) = 256 \<and> kb_pending kb \<le> 256"

text \<open>256 divides \<open>2^32\<close>, so the wrap-around of the counters does not disturb the slots.\<close>

lemma slot_add: "unat ((a + b :: u32)) mod 256 = (unat a + unat b) mod 256"
proof -
  have "unat (a + b) = (unat a + unat b) mod 2 ^ 32" by (simp add: unat_word_ariths)
  then show ?thesis by (simp add: mod_mod_cancel)
qed

lemma slot_of: "unat (a mod KB_BUFFER_SIZE :: u32) = unat a mod 256"
  by (simp add: unat_mod)

lemma pending_empty: "kb_pending kb = 0 \<longleftrightarrow> read_pos kb = write_pos kb"
  by (auto simp: kb_pending_def unat_eq_zero)

lemma write_slot: "unat (write_pos kb) mod 256 = (unat (read_pos kb) + kb_pending kb) mod 256"
  using slot_add [of "read_pos kb" "write_pos kb - read_pos kb"] by (simp add: kb_pending_def)

lemma pending_put: "kb_pending kb \<le> 256 \<Longrightarrow> kb_pending (kb_put c kb) = kb_pending kb + 1"
proof -
  assume a: "kb_pending kb \<le> 256"
  have "write_pos (kb_put c kb) - read_pos (kb_put c kb) = (write_pos kb - read_pos kb) + 1"
    by (simp add: kb_put_def Let_def)
  with a show ?thesis unfolding kb_pending_def by (simp only: u32_plus_no_wrap unat_1)
qed

lemma pending_read:
  "read_pos kb \<noteq> write_pos kb \<Longrightarrow> kb_pending (snd (read_char kb)) = kb_pending kb - 1"
proof -
  assume ne: "read_pos kb \<noteq> write_pos kb"
  then have "1 \<le> kb_pending kb" using pending_empty [of kb] by simp
  then have "1 \<le> unat (write_pos kb - read_pos kb)" by (simp add: kb_pending_def)
  moreover have "write_pos (snd (read_char kb)) - read_pos (snd (read_char kb)) = (write_pos kb - read_pos kb) - 1"
    using ne by (simp add: read_char_def Let_def)
  ultimately show ?thesis unfolding kb_pending_def by (simp only: u32_minus_no_wrap unat_1)
qed

lemma kb_put_fields [simp]:
  "read_pos (kb_put c kb) = read_pos kb" "shift_held (kb_put c kb) = shift_held kb"
  "ctrl_held (kb_put c kb) = ctrl_held kb" "length (buffer (kb_put c kb)) = length (buffer kb)"
  "buffer (kb_put c kb) = (buffer kb)[(unat (read_pos kb) + kb_pending kb) mod 256 := c]"
  by (simp_all add: kb_put_def Let_def slot_of write_slot)

interpretation kq: char_queue kb_put read_char has_input kb_contents 256 kb_ok
proof (unfold_locales, goal_cases)
  case (1 s c)
  then have ok: "length (buffer s) = 256" "kb_pending s < 256"
    by (auto simp: kb_ok_def kb_contents_def)
  have p: "kb_pending (kb_put c s) = kb_pending s + 1" using ok by (intro pending_put) simp
  have "(unat (read_pos s) + kb_pending s) mod 256 \<noteq> (unat (read_pos s) + i) mod 256"
    if "i < kb_pending s" for i
    using that ok(2) mod_eq_dvd_iff_nat [of "unat (read_pos s) + i" "unat (read_pos s) + kb_pending s" 256]
    by (auto dest!: dvd_imp_le)
  then have "kb_contents (kb_put c s) = kb_contents s @ [c]"
    using ok p by (simp add: kb_contents_def)
  with ok p show ?case by (simp add: kb_ok_def)
next
  case (2 s c cs)
  then have "kb_contents s \<noteq> []" by simp
  then have n: "kb_pending s \<noteq> 0" by (simp add: kb_contents_def)
  then have ne: "read_pos s \<noteq> write_pos s" using pending_empty [of s] by simp
  have p: "kb_pending (snd (read_char s)) = kb_pending s - 1" by (rule pending_read [OF ne])
  have r: "read_pos (snd (read_char s)) = read_pos s + 1" "buffer (snd (read_char s)) = buffer s"
    "fst (read_char s) = buffer s ! (unat (read_pos s) mod 256)"
    using ne by (simp_all add: read_char_def Let_def slot_of)
  have up: "[0..<kb_pending s] = 0 # map Suc [0..<kb_pending s - 1]"
    using n by (metis (no_types, lifting) Suc_pred' map_Suc_upt neq0_conv upt_conv_Cons)
  have slots: "(unat (read_pos s + 1) + i) mod 256 = (unat (read_pos s) + Suc i) mod 256" for i
    using slot_add [of "read_pos s" 1] by (simp add: mod_add_left_eq [of "unat (read_pos s + 1)", symmetric]) (simp add: mod_simps)
  have "kb_contents (snd (read_char s)) = tl (kb_contents s)" "fst (read_char s) = hd (kb_contents s)"
    unfolding kb_contents_def p r up by (simp_all add: slots o_def)
  with 2 p r show ?case by (auto simp: kb_ok_def)
next
  case (3 s)
  then show ?case using pending_empty [of s] by (simp add: kb_contents_def read_char_def)
next
  case (4 s)
  then show ?case using pending_empty [of s] by (simp add: kb_contents_def has_input_def)
qed

section \<open>Scancodes\<close>

text \<open>
  The reference decoder: the characters a sequence of scancodes stands for, given whether a
  shift key is held.
\<close>

definition shift_after :: "u8 \<Rightarrow> bool \<Rightarrow> bool" where
  "shift_after sc sh = (if sc \<in> {0x2A, 0x36} then True else if sc \<in> {0xAA, 0xB6} then False else sh)"

definition char_of :: "u8 \<Rightarrow> bool \<Rightarrow> u8 list" where
  "char_of sc sh =
     (if unat sc < 128 then
        let c = (if sh then scancode_to_ascii_shift else scancode_to_ascii) ! unat sc
        in if c = 0 then [] else [c]
      else [])"

primrec decode :: "bool \<Rightarrow> u8 list \<Rightarrow> u8 list" where
  "decode sh [] = []"
| "decode sh (sc # scs) = char_of sc sh @ decode (shift_after sc sh) scs"

lemma released_iff: "(sc AND KB_RELEASED \<noteq> 0) \<longleftrightarrow> 128 \<le> unat (sc :: u8)"
proof -
  have "(sc AND KB_RELEASED \<noteq> 0) \<longleftrightarrow> bit sc 7"
    using and_exp_eq_0_iff_not_bit [of sc 7] by simp
  also have "\<dots> \<longleftrightarrow> odd (unat sc div 128)"
  proof -
    have "bit sc 7 \<longleftrightarrow> bit (unat sc) 7" by (simp add: bit_unsigned_iff)
    then show ?thesis by (simp add: bit_iff_odd)
  qed
  also have "\<dots> \<longleftrightarrow> 128 \<le> unat sc"
  proof -
    have "unat sc < 256" using unsigned_less [of sc, where ?'a = nat] by simp
    then have "unat sc div 128 < 2" by (simp add: div_less_iff_less_mult)
    then have "unat sc div 128 = 0 \<or> unat sc div 128 = 1" by linarith
    then show ?thesis by (auto simp: div_eq_0_iff)
  qed
  finally show ?thesis .
qed

text \<open>The modifier keys have no character of their own.\<close>

lemma modifier_chars:
  "scancode_to_ascii ! 0x2A = 0" "scancode_to_ascii ! 0x36 = 0" "scancode_to_ascii ! 0x1D = 0"
  "scancode_to_ascii_shift ! 0x2A = 0" "scancode_to_ascii_shift ! 0x36 = 0"
  "scancode_to_ascii_shift ! 0x1D = 0"
  by (simp_all add: scancode_to_ascii_def scancode_to_ascii_shift_def)

lemma handle_scancode_char:
  "handle_scancode sc kb = fold kb_put (char_of sc (shift_held kb)) kb
     \<lparr>shift_held := shift_after sc (shift_held kb),
      ctrl_held := (if sc = SC_CTRL_PRESS then True else if sc = SC_CTRL_RELEASE then False else ctrl_held kb)\<rparr>"
  (is "_ = ?r")
proof -
  consider "sc \<in> {0x2A, 0x36, 0x1D}" | "sc \<in> {0xAA, 0xB6, 0x9D}"
    | "sc \<notin> {0x2A, 0x36, 0x1D, 0xAA, 0xB6, 0x9D}" by blast
  then show ?thesis
  proof cases
    case 1
    then show ?thesis
      by (auto simp: handle_scancode_def char_of_def shift_after_def modifier_chars)
  next
    case 2
    then show ?thesis by (auto simp: handle_scancode_def char_of_def shift_after_def)
  next
    case 3
    then have *: "shift_after sc sh = sh" for sh by (simp add: shift_after_def)
    have "fold kb_put (char_of sc (shift_held kb)) kb
        = (if sc AND KB_RELEASED \<noteq> 0 then kb
           else let c = (if shift_held kb then scancode_to_ascii_shift ! unat sc
                         else scancode_to_ascii ! unat sc) in if c \<noteq> 0 then kb_put c kb else kb)"
      unfolding released_iff by (simp add: char_of_def not_le Let_def)
    moreover have "?r = fold kb_put (char_of sc (shift_held kb)) kb"
      using 3 * by (simp add: char_of_def Let_def)
    ultimately show ?thesis using 3 by (simp add: handle_scancode_def)
  qed
qed

lemma contents_flags [simp]:
  "kb_contents (kb\<lparr>shift_held := x, ctrl_held := y\<rparr>) = kb_contents kb"
  "kb_ok (kb\<lparr>shift_held := x, ctrl_held := y\<rparr>) = kb_ok kb"
  by (simp_all add: kb_contents_def kb_ok_def kb_pending_def)

lemma handle_scancode_contents:
  assumes "kb_ok kb" "length (kb_contents kb) + length (char_of sc (shift_held kb)) \<le> 256"
  shows "kb_ok (handle_scancode sc kb)"
    "kb_contents (handle_scancode sc kb) = kb_contents kb @ char_of sc (shift_held kb)"
    "shift_held (handle_scancode sc kb) = shift_after sc (shift_held kb)"
  using kq.put_all [OF assms] by (simp_all add: handle_scancode_char)

lemma scancodes_contents:
  assumes "kb_ok kb" "length (kb_contents kb) + length (decode (shift_held kb) scs) \<le> 256"
  shows "kb_ok (fold handle_scancode scs kb) \<and>
    kb_contents (fold handle_scancode scs kb) = kb_contents kb @ decode (shift_held kb) scs"
  using assms
proof (induction scs arbitrary: kb)
  case (Cons sc scs)
  then have h: "length (kb_contents kb) + length (char_of sc (shift_held kb)) \<le> 256" by simp
  note s = handle_scancode_contents [OF Cons.prems(1) h]
  from Cons.IH [OF s(1)] Cons.prems(2) show ?case by (simp add: s)
qed simp

lemma kb_init_ok: "length (buffer kb) = 256 \<Longrightarrow> kb_ok (kb_init kb) \<and> kb_contents (kb_init kb) = []
    \<and> \<not> shift_held (kb_init kb)"
  by (simp add: kb_init_def kb_ok_def kb_pending_def kb_contents_def)

text \<open>
  Interrupts and reads in any order, with what was typed and what was read so far.  An
  interrupt is a step while fewer than 256 characters are outstanding.
\<close>

inductive kb_run :: "keyboard \<Rightarrow> u8 list \<Rightarrow> u8 list \<Rightarrow> bool" where
  kb_start: "length (buffer kb) = 256 \<Longrightarrow> kb_run (kb_init kb) [] []"
| kb_key: "kb_run kb typed got \<Longrightarrow> kb_pending kb < 256 \<Longrightarrow>
    kb_run (handle_interrupt s kb) (typed @ char_of (io_read8 s KB_DATA_PORT) (shift_held kb)) got"
| kb_read: "kb_run kb typed got \<Longrightarrow> has_input kb \<Longrightarrow> read_char kb = (c, kb') \<Longrightarrow>
    kb_run kb' typed (got @ [c])"

inductive_cases kb_runE: "kb_run kb typed got"

lemma char_of_length: "length (char_of sc sh) \<le> 1"
  by (simp add: char_of_def Let_def)

lemma kb_run_invariant:
  "kb_run kb typed got \<Longrightarrow> kb_ok kb \<and> typed = got @ kb_contents kb"
proof (induction rule: kb_run.induct)
  case (kb_start kb)
  then show ?case by (simp add: kb_init_ok)
next
  case (kb_key kb typed got s)
  have "length (kb_contents kb) + length (char_of (io_read8 s KB_DATA_PORT) (shift_held kb)) \<le> 256"
    using kb_key.hyps(2) char_of_length [of "io_read8 s KB_DATA_PORT" "shift_held kb"]
    by (simp add: kb_contents_def)
  from handle_scancode_contents [OF _ this] kb_key.IH show ?case by (simp add: handle_interrupt_def)
next
  case (kb_read kb typed got c kb')
  then obtain d cs where "kb_contents kb = d # cs" using kq.nonempty_law by (metis neq_Nil_conv)
  with kq.get_law [of kb d cs] kb_read show ?case by auto
qed

text \<open>A full buffer of capital letters, for a concrete run.\<close>

definition full_keyboard :: keyboard where
  "full_keyboard = \<lparr>buffer = replicate 256 0x41, read_pos = 0xFFFFFFFF, write_pos = 0xFF,
     shift_held = False, ctrl_held = False\<rparr>"

definition blank_keyboard :: keyboard where
  "blank_keyboard = \<lparr>buffer = replicate 256 0, read_pos = 0, write_pos = 0,
     shift_held = False, ctrl_held = False\<rparr>"

section \<open>Properties\<close>

text \<open>
  What is typed is what is read: after \<open>init\<close>, handling any sequence of scancodes that
  stands for at most 256 characters and then reading that many gives exactly the characters of
  the sequence in order (letters and symbols chosen by the shift keys held at that point,
  releases and modifiers skipped), and no input is left.
\<close>

theorem typed_text_is_read:
  assumes "length (buffer kb) = 256" "length (decode False scs) \<le> 256"
  shows "fst (take_chars read_char (length (decode False scs)) (fold handle_scancode scs (kb_init kb)))
      = decode False scs
    \<and> \<not> has_input (snd (take_chars read_char (length (decode False scs)) (fold handle_scancode scs (kb_init kb))))"
proof -
  let ?k = "fold handle_scancode scs (kb_init kb)"
  have "kb_ok ?k \<and> kb_contents ?k = decode False scs"
    using scancodes_contents [of "kb_init kb" scs] kb_init_ok [OF assms(1)] assms(2) by simp
  then show ?thesis
    using kq.take_chars_contents [of ?k "length (decode False scs)"] by (simp add: kq.nonempty_law)
qed

theorem typed_text_is_read_witness:
  "decode False [0x2A, 0x23, 0xA3, 0xAA, 0x17] = [0x48, 0x69] \<and>
   fst (take_chars read_char 2 (fold handle_scancode [0x2A, 0x23, 0xA3, 0xAA, 0x17] (kb_init blank_keyboard)))
     = [0x48, 0x69]"
proof -
  have d: "decode False [0x2A, 0x23, 0xA3, 0xAA, 0x17] = [0x48, 0x69]"
    by (simp add: char_of_def shift_after_def scancode_to_ascii_def scancode_to_ascii_shift_def)
  have "length (buffer blank_keyboard) = 256" by (simp add: blank_keyboard_def)
  from typed_text_is_read [OF this, of "[0x2A, 0x23, 0xA3, 0xAA, 0x17]"] d show ?thesis
    by (simp add: numeral_2_eq_2 del: fold.simps decode.simps)
qed

text \<open>
  C23. However interrupts and reads interleave, if an interrupt never comes while 256 characters
  are outstanding, what has been read followed by what is in the buffer is what was typed: no
  character is lost, repeated or reordered, also when the 32-bit positions wrap around.
\<close>

theorem keyboard_fifo:
  assumes "kb_run kb typed got"
  shows "typed = got @ kb_contents kb \<and> (has_input kb \<longleftrightarrow> got \<noteq> typed)"
  using kb_run_invariant [OF assms] by (auto simp: kq.nonempty_law)

theorem keyboard_fifo_witness:
  "\<exists>s kb. kb_run kb [0x61] [] \<and> kb_contents kb = [0x61] \<and> has_input kb \<and> kb = handle_interrupt s (kb_init blank_keyboard)"
proof -
  let ?s = "blank_machine\<lparr>port_in := (\<lambda>_. 0x1E)\<rparr>"
  have "length (buffer blank_keyboard) = 256" by (simp add: blank_keyboard_def)
  from kb_run.kb_key [OF kb_run.kb_start [OF this], of ?s]
  have r: "kb_run (handle_interrupt ?s (kb_init blank_keyboard)) [0x61] []"
    by (simp add: kb_init_def kb_pending_def char_of_def io_read8_def inb_def blank_machine_def scancode_to_ascii_def)
  from keyboard_fifo [OF r] r show ?thesis by auto
qed

text \<open>
  C39. Nothing guards against a full buffer: a character typed while 256 are outstanding
  overwrites the oldest one, and is the next one read.
\<close>

theorem keyboard_overflow:
  assumes "kb_ok kb" "kb_pending kb = 256" "char_of sc (shift_held kb) = [c]"
  shows "fst (read_char (handle_scancode sc kb)) = c
    \<and> length (kb_contents (handle_scancode sc kb)) = 257"
proof -
  let ?k = "handle_scancode sc kb"
  have buf: "buffer ?k = (buffer kb)[unat (read_pos kb) mod 256 := c]" "read_pos ?k = read_pos kb"
    and pend: "kb_pending ?k = 257"
    using assms pending_put [of kb c] by (simp_all add: handle_scancode_char kb_pending_def)
  have "length (buffer kb) = 256" using assms(1) by (simp add: kb_ok_def)
  then have "buffer ?k ! (unat (read_pos ?k) mod 256) = c" by (simp add: buf)
  moreover have "read_pos ?k \<noteq> write_pos ?k" using pend pending_empty [of ?k] by simp
  ultimately show ?thesis by (simp add: read_char_def Let_def slot_of kb_contents_def pend)
qed

theorem keyboard_overflow_witness:
  "kb_ok full_keyboard \<and> fst (read_char (handle_scancode 0x1E full_keyboard)) = 0x61"
proof -
  have k: "kb_ok full_keyboard" "kb_pending full_keyboard = 256"
    by (simp_all add: kb_ok_def kb_pending_def full_keyboard_def)
  have "char_of 0x1E (shift_held full_keyboard) = [0x61]"
    by (simp add: char_of_def full_keyboard_def scancode_to_ascii_def)
  from keyboard_overflow [OF k this] k(1) show ?thesis by simp
qed

end
