(* ===== verification/Kernel_State.thy ===== *)
theory Kernel_State
  imports Interrupt_Tables Console Keyboard
begin

text \<open>
  The state of the running kernel outside the memory managers: console, keyboard, the two
  descriptor tables with the registers that point to them, the dispatch table and the system
  call table.  The theory has the debug port (\<^verbatim>\<open>arch/x86/debug\<close>, \<^verbatim>\<open>driver/debug\<close>) and the
  operations that set the tables up: \<^verbatim>\<open>gdt::init\<close>, \<^verbatim>\<open>idt::init\<close>,
  \<^verbatim>\<open>interrupts::enable\<close> and \<^verbatim>\<open>disable\<close>, \<^verbatim>\<open>keyboard::init_keyboard\<close> and \<^verbatim>\<open>syscalls::init\<close>.
  Function pointers are the constructors of \<open>isr_t\<close> and \<open>syscall_imp\<close>.
\<close>

section \<open>State\<close>

datatype syscall_imp = Sys_default | Sys_read | Sys_write

record kernel =
  con :: tty
  kb :: keyboard
  g_IDT :: "idt_entry list"
  g_IDTDescriptor :: table_descriptor
  handlers :: "isr_t list"
  syscall_table :: "syscall_imp list"
  gdtr :: table_descriptor
  idtr :: table_descriptor
  cs_reg :: u16
  data_regs :: u16
  int_flag :: bool

definition on_hw :: "(machine \<Rightarrow> machine) \<Rightarrow> kernel \<Rightarrow> kernel" where
  "on_hw f k = k\<lparr>con := (con k)\<lparr>hw := f (hw (con k))\<rparr>\<rparr>"

section \<open>The debug port\<close>

abbreviation DEBUG_PORT :: u16 where "DEBUG_PORT \<equiv> 0xE9"

definition debug_putc :: "u8 \<Rightarrow> machine \<Rightarrow> machine" where
  "debug_putc c s = outb s DEBUG_PORT c"

primrec debug :: "cstr \<Rightarrow> machine \<Rightarrow> machine" where
  "debug [] s = s"
| "debug (c # str) s = (if c = 0 then s else debug str (debug_putc c s))"

definition kdebug :: "cstr \<Rightarrow> machine \<Rightarrow> machine" where
  "kdebug str s = debug [ch_nl] (debug str (debug (bytes ''[kernel]: '') s))"

definition kdebug_putc :: "u8 \<Rightarrow> machine \<Rightarrow> machine" where
  "kdebug_putc c s = debug_putc c s"

section \<open>Setting up the tables\<close>

definition load_gdt :: "table_descriptor \<Rightarrow> u16 \<Rightarrow> u16 \<Rightarrow> kernel \<Rightarrow> kernel" where
  "load_gdt d code_sel data_sel k = k\<lparr>gdtr := d, cs_reg := code_sel, data_regs := data_sel\<rparr>"

definition load_idt :: "table_descriptor \<Rightarrow> kernel \<Rightarrow> kernel" where
  "load_idt d k = k\<lparr>idtr := d\<rparr>"

definition gdt_init :: "u32 \<Rightarrow> kernel \<Rightarrow> kernel" where
  "gdt_init gdt_addr k =
     (let k = on_hw (kdebug (bytes ''GDT: Initializing Global Descriptor Table...'')) k;
          k = load_gdt (g_GDTDescriptor gdt_addr) GDT_CODE_SEGMENT GDT_DATA_SEGMENT k
      in on_hw (kdebug (bytes ''GDT: Global Descriptor Table loaded successfully.'')) k)"

definition idt_init :: "u32 \<Rightarrow> (nat \<Rightarrow> u32) \<Rightarrow> (nat \<Rightarrow> u32) \<Rightarrow> u32 \<Rightarrow> kernel \<Rightarrow> kernel" where
  "idt_init idt_addr isr irqp isr128 k =
     (let k = k\<lparr>g_IDTDescriptor := \<lparr>limit = of_nat (8 * IDT_MAX_ENTRIES - 1), base = idt_addr\<rparr>\<rparr>;
          k = k\<lparr>handlers := fill_handlers (handlers k)\<rparr>;
          k = k\<lparr>g_IDT := set_gates isr irqp isr128 (g_IDT k)\<rparr>;
          k = on_hw (pic_remap 32 40) k
      in load_idt (g_IDTDescriptor k) k)"

definition interrupts_enable :: "kernel \<Rightarrow> kernel" where
  "interrupts_enable k = k\<lparr>int_flag := True\<rparr>"

definition interrupts_disable :: "kernel \<Rightarrow> kernel" where
  "interrupts_disable k = k\<lparr>int_flag := False\<rparr>"

definition init_keyboard :: "kernel \<Rightarrow> kernel" where
  "init_keyboard k =
     (let k = k\<lparr>kb := kb_init (kb k)\<rparr>
      in k\<lparr>handlers := register_handler 33 Keyboard_irq_handler (handlers k)\<rparr>)"

definition keyboard_read_char :: "kernel \<Rightarrow> u8 \<times> kernel" where
  "keyboard_read_char k = (let (c, q) = read_char (kb k) in (c, k\<lparr>kb := q\<rparr>))"

definition keyboard_has_input :: "kernel \<Rightarrow> bool" where
  "keyboard_has_input k = has_input (kb k)"

definition syscalls_init :: "kernel \<Rightarrow> kernel" where
  "syscalls_init k =
     (let k = k\<lparr>handlers := register_handler 0x80 Syscall_handler (handlers k)\<rparr>;
          k = k\<lparr>syscall_table := fill (syscall_table k) Sys_default 0 256\<rparr>;
          k = k\<lparr>syscall_table := (syscall_table k)[0 := Sys_read]\<rparr>
      in k\<lparr>syscall_table := (syscall_table k)[1 := Sys_write]\<rparr>)"

section \<open>What the processor and the stubs make of the tables\<close>

text \<open>
  \<open>vector_entry\<close> is where an interrupt
  with vector \<open>n\<close> is delivered, \<open>None\<close> when there is no present gate (the processor then
  raises a fault instead); \<open>stub_vector\<close> is the number that the stub at an address pushes
  (\<^verbatim>\<open>idt.asm\<close>): the stubs of the vectors 0 to 47 and of 128.
\<close>

definition vector_entry :: "kernel \<Rightarrow> nat \<Rightarrow> u32 option" where
  "vector_entry k n =
     (if 8 * n + 7 \<le> unat (limit (idtr k)) \<and> gate_present (g_IDT k ! n)
      then Some (gate_target (g_IDT k ! n)) else None)"

definition stub_vectors :: "nat list" where
  "stub_vectors = [0..<48] @ [128]"

definition stub_addr :: "(nat \<Rightarrow> u32) \<Rightarrow> (nat \<Rightarrow> u32) \<Rightarrow> u32 \<Rightarrow> nat \<Rightarrow> u32" where
  "stub_addr isr irqp isr128 n = (if n < 32 then isr n else if n < 48 then irqp (n - 32) else isr128)"

definition stub_vector :: "(nat \<Rightarrow> u32) \<Rightarrow> (nat \<Rightarrow> u32) \<Rightarrow> u32 \<Rightarrow> u32 \<Rightarrow> nat option" where
  "stub_vector isr irqp isr128 a = find (\<lambda>n. stub_addr isr irqp isr128 n = a) stub_vectors"

definition kernel_ok :: "kernel \<Rightarrow> bool" where
  "kernel_ok k \<longleftrightarrow> length (g_IDT k) = 256 \<and> length (handlers k) = 256 \<and> length (syscall_table k) = 256"

lemma on_hw_fields [simp]:
  "hw (con (on_hw f k)) = f (hw (con k))" "kb (on_hw f k) = kb k" "g_IDT (on_hw f k) = g_IDT k"
  "handlers (on_hw f k) = handlers k" "syscall_table (on_hw f k) = syscall_table k"
  "gdtr (on_hw f k) = gdtr k" "idtr (on_hw f k) = idtr k" "cs_reg (on_hw f k) = cs_reg k"
  "data_regs (on_hw f k) = data_regs k" "int_flag (on_hw f k) = int_flag k"
  "g_IDTDescriptor (on_hw f k) = g_IDTDescriptor k"
  "g_cursor_col (con (on_hw f k)) = g_cursor_col (con k)"
  "g_cursor_row (con (on_hw f k)) = g_cursor_row (con k)"
  by (simp_all add: on_hw_def)

lemma find_unique:
  assumes "i \<in> set ns" "P i" "\<And>j. j \<in> set ns \<Longrightarrow> P j \<Longrightarrow> j = i"
  shows "find P ns = Some i"
  using assms
proof (induction ns)
  case (Cons n ns)
  show ?case
  proof (cases "P n")
    case True
    with Cons.prems(3) have "n = i" by simp
    with True show ?thesis by simp
  next
    case False
    with Cons.prems(1,2) have "i \<in> set ns" by auto
    with False Cons.IH [OF this Cons.prems(2)] Cons.prems(3) show ?thesis by simp
  qed
qed simp

lemma fill_handlers_length: "length hs = 256 \<Longrightarrow> length (fill_handlers hs) = 256"
  using fill_handlers_nth(1) [of hs 0] by simp

lemma set_gates_length: "length (set_gates isr irqp isr128 idt) = length idt"
proof -
  have "length (fold (\<lambda>i. idt_set_entry (of_nat i) (g i) fl) is t) = length t" for g fl "is" t
    by (induction "is" arbitrary: t) (simp_all add: idt_set_entry_def)
  then show ?thesis by (simp add: set_gates_def idt_set_entry_def del: upt_rec_numeral)
qed

lemma kernel_ok_ops [simp]:
  assumes "kernel_ok k"
  shows "kernel_ok (idt_init a isr irqp isr128 k)" "kernel_ok (gdt_init b k)"
    "kernel_ok (init_keyboard k)" "kernel_ok (syscalls_init k)" "kernel_ok (on_hw f k)"
    "kernel_ok (interrupts_enable k)"
  using assms
  by (simp_all add: kernel_ok_def idt_init_def gdt_init_def init_keyboard_def syscalls_init_def
      Let_def load_gdt_def load_idt_def register_handler_def set_gates_length fill_handlers_length
      interrupts_enable_def fill_nth(1) [of _ 256])

lemma idt_init_fields:
  "handlers (idt_init a isr irqp isr128 k) = fill_handlers (handlers k)"
  "g_IDT (idt_init a isr irqp isr128 k) = set_gates isr irqp isr128 (g_IDT k)"
  "idtr (idt_init a isr irqp isr128 k) = \<lparr>limit = 2047, base = a\<rparr>"
  "hw (con (idt_init a isr irqp isr128 k)) = pic_remap 32 40 (hw (con k))"
  by (simp_all add: idt_init_def Let_def load_idt_def)

lemma stub_vectors_iff: "n \<in> set stub_vectors \<longleftrightarrow> n < 48 \<or> n = 128"
  by (auto simp: stub_vectors_def simp del: upt_rec_numeral)

lemma vector_entry_idt_init:
  assumes "kernel_ok k" "n < 256"
  shows "vector_entry (idt_init a isr irqp isr128 k) n =
    (if n \<in> set stub_vectors then Some (stub_addr isr irqp isr128 n)
     else if gate_present (g_IDT k ! n) then Some (gate_target (g_IDT k ! n)) else None)"
  using assms
  by (simp add: vector_entry_def idt_init_fields set_gates_nth kernel_ok_def stub_vectors_iff
      stub_addr_def gate_fields)

lemma stub_vector_addr:
  assumes "distinct (map (stub_addr isr irqp isr128) stub_vectors)" "n \<in> set stub_vectors"
  shows "stub_vector isr irqp isr128 (stub_addr isr irqp isr128 n) = Some n"
  unfolding stub_vector_def
proof (rule find_unique)
  fix j assume "j \<in> set stub_vectors" "stub_addr isr irqp isr128 j = stub_addr isr irqp isr128 n"
  with assms show "j = n" by (auto simp: distinct_map dest: inj_onD)
qed (use assms in simp_all)

lemma syscalls_init_fields:
  "handlers (syscalls_init k) = (handlers k)[128 := Syscall_handler]"
  "syscall_table (syscalls_init k) = (fill (syscall_table k) Sys_default 0 256)[0 := Sys_read, 1 := Sys_write]"
  "con (syscalls_init k) = con k" "kb (syscalls_init k) = kb k" "g_IDT (syscalls_init k) = g_IDT k"
  "idtr (syscalls_init k) = idtr k"
  by (simp_all add: syscalls_init_def Let_def register_handler_def)

lemma syscall_table_init:
  assumes "length (syscall_table k) = 256" "n < 256"
  shows "syscall_table (syscalls_init k) ! n = (if n = 0 then Sys_read else if n = 1 then Sys_write else Sys_default)"
  using assms by (simp add: syscalls_init_fields fill_nth [of _ 256] nth_list_update)

lemma init_keyboard_fields:
  "handlers (init_keyboard k) = (handlers k)[33 := Keyboard_irq_handler]"
  "kb (init_keyboard k) = kb_init (kb k)" "con (init_keyboard k) = con k"
  "syscall_table (init_keyboard k) = syscall_table k" "g_IDT (init_keyboard k) = g_IDT k"
  "idtr (init_keyboard k) = idtr k"
  by (simp_all add: init_keyboard_def Let_def register_handler_def)

section \<open>Properties\<close>

definition power_on :: kernel where
  "power_on = \<lparr>con = boot_tty, kb = blank_keyboard,
     g_IDT = replicate 256 \<lparr>offset_low = 0, selector = 0, reserved = 0, flags = 0, offset_high = 0\<rparr>,
     g_IDTDescriptor = \<lparr>limit = 0, base = 0\<rparr>, handlers = replicate 256 Null_handler,
     syscall_table = replicate 256 Sys_default, gdtr = \<lparr>limit = 0, base = 0\<rparr>,
     idtr = \<lparr>limit = 0, base = 0\<rparr>, cs_reg = 8, data_regs = 16, int_flag = False\<rparr>"

lemma power_on_ok: "kernel_ok power_on"
  by (simp add: power_on_def kernel_ok_def)

lemma power_on_gates: "n < 256 \<Longrightarrow> \<not> gate_present (g_IDT power_on ! n)"
  by (simp add: power_on_def gate_present_def)

text \<open>C29. After \<open>idt::init\<close>, keyboard and system call set-up in the order of the boot, with stubs
at distinct addresses: a vector that has a stub is delivered to the stub that pushes that very
number; every other vector has no present gate, when it had none before; the loaded limit covers
the 256 entries; and the dispatch table has the keyboard handler at 33, the system call handler
at 128, the exception handler at 0 to 31, the interrupt handler at the other entries to 47 and the default
handler elsewhere, none null.\<close>

theorem interrupt_tables_after_boot:
  fixes isr irqp :: "nat \<Rightarrow> u32" and isr128 a :: u32
  defines "k' \<equiv> \<lambda>k. init_keyboard (syscalls_init (interrupts_enable (idt_init a isr irqp isr128 k)))"
  assumes "kernel_ok k" "\<And>n. n < 256 \<Longrightarrow> \<not> gate_present (g_IDT k ! n)"
    and "distinct (map (stub_addr isr irqp isr128) stub_vectors)" "n < 256"
  shows "Option.bind (vector_entry (k' k) n) (stub_vector isr irqp isr128) =
      (if n \<in> set stub_vectors then Some n else None) \<and>
    idtr (k' k) = \<lparr>limit = 2047, base = a\<rparr> \<and>
    int_flag (k' k) \<and>
    handlers (k' k) ! n =
      (if n = 33 then Keyboard_irq_handler else if n = 128 then Syscall_handler
       else if n < 32 then Default_exception_handler else if n < 48 then Default_irq_handler
       else Default_handler)"
proof (intro conjI)
  have "vector_entry (k' k) n = vector_entry (idt_init a isr irqp isr128 k) n"
    by (simp add: k'_def vector_entry_def init_keyboard_fields syscalls_init_fields interrupts_enable_def)
  then show "Option.bind (vector_entry (k' k) n) (stub_vector isr irqp isr128) =
      (if n \<in> set stub_vectors then Some n else None)"
    using assms(2-) by (simp add: vector_entry_idt_init stub_vector_addr)
  show "handlers (k' k) ! n =
      (if n = 33 then Keyboard_irq_handler else if n = 128 then Syscall_handler
       else if n < 32 then Default_exception_handler else if n < 48 then Default_irq_handler
       else Default_handler)"
    using assms(2,5)
    by (simp add: k'_def init_keyboard_fields syscalls_init_fields interrupts_enable_def
        idt_init_fields kernel_ok_def fill_handlers_length fill_handlers_nth nth_list_update)
qed (simp_all add: k'_def init_keyboard_def syscalls_init_def Let_def interrupts_enable_def idt_init_fields)

text \<open>Stubs sixteen bytes apart from \<open>0xC0001000\<close> on, from the power-on state.\<close>

theorem interrupt_tables_after_boot_witness:
  "handlers (init_keyboard (syscalls_init (interrupts_enable
      (idt_init 0xC0020000 (\<lambda>n. 0xC0001000 + 16 * of_nat n) (\<lambda>n. 0xC0002000 + 16 * of_nat n) 0xC0003000
        power_on)))) ! 33 = Keyboard_irq_handler"
proof -
  have "distinct (map (stub_addr (\<lambda>n. 0xC0001000 + 16 * of_nat n) (\<lambda>n. 0xC0002000 + 16 * of_nat n) 0xC0003000)
      stub_vectors)"
    by code_simp
  then show ?thesis
    using interrupt_tables_after_boot [where k = power_on and n = 33 and a = "0xC0020000"
        and isr = "\<lambda>n. 0xC0001000 + 16 * of_nat n" and irqp = "\<lambda>n. 0xC0002000 + 16 * of_nat n"
        and ?isr128.0 = "0xC0003000"] power_on_ok power_on_gates
    by simp
qed

end
