(* ===== verification/Syscalls.thy ===== *)
theory Syscalls
  imports Kernel_State
begin

text \<open>
  \<^verbatim>\<open>arch/x86/syscall\<close>: the system calls \<^verbatim>\<open>read\<close> and \<^verbatim>\<open>write\<close> and the dispatcher.  The argument
  blocks are structures in memory (\<^verbatim>\<open>count\<close> at offset 0, \<^verbatim>\<open>fd\<close> at 4, \<^verbatim>\<open>buf\<close> at 8) that the loops
  read again in every iteration, as the code does; the lemmas say when that makes no
  difference.  A system call runs with interrupts off (interrupt gate), so the keyboard does not
  change while it runs.
\<close>

section \<open>Argument blocks\<close>

definition args_count :: "machine \<Rightarrow> u32 \<Rightarrow> u32" where
  "args_count s args = rd32 s args"

definition args_fd :: "machine \<Rightarrow> u32 \<Rightarrow> u32" where
  "args_fd s args = rd32 s (args + 4)"

definition args_buf :: "machine \<Rightarrow> u32 \<Rightarrow> u32" where
  "args_buf s args = rd32 s (args + 8)"

section \<open>The calls\<close>

function sys_read_loop :: "u32 \<Rightarrow> u32 \<Rightarrow> kernel \<Rightarrow> u32 \<times> kernel" where
  "sys_read_loop args chars_processed k =
     (if chars_processed < args_count (hw (con k)) args then
        if \<not> keyboard_has_input k then (chars_processed, k)
        else
          let (c, k) = keyboard_read_char k;
              k = on_hw (\<lambda>s. wr8 s (args_buf s args + chars_processed) c) k
          in sys_read_loop args (chars_processed + 1) k
      else (chars_processed, k))"
  by pat_completeness auto

termination
proof (relation "measure (\<lambda>(args, n, k). kb_pending (kb k))", simp)
  fix args n c and k k1 k2 :: kernel and x
  assume "\<not> \<not> keyboard_has_input k" "x = keyboard_read_char k" "(c, k1) = x"
    "k2 = on_hw (\<lambda>s. wr8 s (args_buf s args + n) c) k1"
  then show "((args, n + 1, k2), (args, n, k)) \<in> measure (\<lambda>(args, n, k). kb_pending (kb k))"
    using pending_read [of "kb k"] pending_empty [of "kb k"]
    by (auto simp: keyboard_has_input_def keyboard_read_char_def has_input_def read_char_def Let_def)
qed

definition sys_read :: "u32 \<Rightarrow> kernel \<Rightarrow> u32 \<times> kernel" where
  "sys_read arg1 k = sys_read_loop arg1 0 k"

function sys_write_loop :: "u32 \<Rightarrow> u32 \<Rightarrow> u32 \<Rightarrow> tty \<Rightarrow> u32 \<times> tty" where
  "sys_write_loop vbe args chars_processed t =
     (if chars_processed < args_count (hw t) args then
        let c = rd8 (hw t) (args_buf (hw t) args + chars_processed);
            t = kputc vbe c t
        in sys_write_loop vbe args (chars_processed + 1) t
      else (chars_processed, t))"
  by pat_completeness auto

termination
proof (relation "measure (\<lambda>(vbe, args, n, t). 4294967295 - unat n)", simp)
  fix vbe args n c and t t' :: tty
  assume n: "n < args_count (hw t) args"
  then have "unat n < 4294967295"
    using unat_u32_lt [of "args_count (hw t) args"] by (simp add: word_less_nat_alt del: unat_u32_lt)
  then show "((vbe, args, n + 1, t'), (vbe, args, n, t)) \<in> measure (\<lambda>(vbe, args, n, t). 4294967295 - unat n)"
    by (simp add: u32_plus_no_wrap)
qed

definition sys_write :: "u32 \<Rightarrow> u32 \<Rightarrow> kernel \<Rightarrow> u32 \<times> kernel" where
  "sys_write vbe arg1 k = (case sys_write_loop vbe arg1 0 (con k) of (n, t) \<Rightarrow> (n, k\<lparr>con := t\<rparr>))"

definition sys_default :: "u32 \<Rightarrow> kernel \<Rightarrow> u32 \<times> kernel" where
  "sys_default arg1 k = (- 1, k)"

fun run_syscall :: "u32 \<Rightarrow> syscall_imp \<Rightarrow> u32 \<Rightarrow> kernel \<Rightarrow> u32 \<times> kernel" where
  "run_syscall vbe Sys_read arg1 k = sys_read arg1 k"
| "run_syscall vbe Sys_write arg1 k = sys_write vbe arg1 k"
| "run_syscall vbe Sys_default arg1 k = sys_default arg1 k"

declare sys_read_loop.simps [simp del] sys_write_loop.simps [simp del]

text \<open>One round of the read loop, and what every round keeps the loop keeps.\<close>

definition read_round :: "u32 \<Rightarrow> u32 \<Rightarrow> kernel \<Rightarrow> kernel" where
  "read_round args n k =
     (let (c, q) = read_char (kb k) in on_hw (\<lambda>s. wr8 s (args_buf s args + n) c) (k\<lparr>kb := q\<rparr>))"

lemma sys_read_loop_round:
  "sys_read_loop args n k =
     (if n < args_count (hw (con k)) args \<and> has_input (kb k)
      then sys_read_loop args (n + 1) (read_round args n k) else (n, k))"
  by (subst sys_read_loop.simps)
    (simp add: keyboard_has_input_def keyboard_read_char_def read_round_def Let_def split_beta)

lemma read_round_pending: "has_input (kb k) \<Longrightarrow> kb_pending (kb (read_round args n k)) < kb_pending (kb k)"
  using pending_read [of "kb k"] pending_empty [of "kb k"]
  by (simp add: read_round_def has_input_def read_char_def Let_def)

lemma sys_read_loop_keeps:
  assumes "\<And>n k. P k \<Longrightarrow> P (read_round args n k)" "P k"
  shows "P (snd (sys_read_loop args n k))"
  using assms(2)
proof (induction "kb_pending (kb k)" arbitrary: n k rule: less_induct)
  case less
  show ?case
  proof (cases "n < args_count (hw (con k)) args \<and> has_input (kb k)")
    case True
    then have "has_input (kb k)" by simp
    from less.hyps [OF read_round_pending [OF this] assms(1) [OF less.prems]] True show ?thesis
      by (subst sys_read_loop_round) simp
  qed (subst sys_read_loop_round, use less.prems in auto)
qed

section \<open>What the loops do\<close>

text \<open>
  A well-placed argument block: twelve bytes at \<open>args\<close>, a buffer of \<open>count\<close> bytes, neither
  wrapping around the address space, and a region \<open>lo\<close> to \<open>hi\<close> they both avoid.
\<close>

definition args_placed :: "machine \<Rightarrow> u32 \<Rightarrow> bool" where
  "args_placed s args \<longleftrightarrow> unat args + 12 \<le> 4294967296 \<and>
     unat (args_buf s args) + unat (args_count s args) \<le> 4294967296"

definition args_avoid :: "nat \<Rightarrow> nat \<Rightarrow> machine \<Rightarrow> u32 \<Rightarrow> bool" where
  "args_avoid lo hi s args \<longleftrightarrow> (unat args + 12 \<le> lo \<or> hi \<le> unat args) \<and>
     (unat (args_buf s args) + unat (args_count s args) \<le> lo \<or> hi \<le> unat (args_buf s args))"

definition buf_apart :: "machine \<Rightarrow> u32 \<Rightarrow> bool" where
  "buf_apart s args \<longleftrightarrow> unat (args_buf s args) + unat (args_count s args) \<le> unat args
     \<or> unat args + 12 \<le> unat (args_buf s args)"

lemma args_unchanged:
  assumes "unchanged_outside lo hi s s'" "unat args + 12 \<le> 4294967296"
    "unat args + 12 \<le> lo \<or> hi \<le> unat args"
  shows "args_count s' args = args_count s args" "args_buf s' args = args_buf s args"
proof -
  have "unat (args + 8) = unat args + 8" using assms(2) by (simp add: u32_plus_no_wrap)
  then show "args_count s' args = args_count s args" "args_buf s' args = args_buf s args"
    unfolding args_count_def args_buf_def using assms
    by (auto intro!: rd32_unchanged [OF assms(1)])
qed

lemma u32_Suc: "unat n < unat c \<Longrightarrow> unat (n + 1 :: u32) = unat n + 1" for c :: u32
  using unat_u32_lt [of c] u32_plus_no_wrap [of n 1] by (simp del: unat_u32_lt)

lemma on_hw_on_hw: "on_hw f (on_hw g k) = on_hw (f \<circ> g) k"
  by (simp add: on_hw_def)

lemma on_hw_kb: "(on_hw f k)\<lparr>kb := q\<rparr> = on_hw f (k\<lparr>kb := q\<rparr>)"
  by (simp add: on_hw_def)

lemma sys_read_loop_eq:
  assumes "m = min (unat (args_count (hw (con k)) args) - unat n) (length (kb_contents (kb k)))"
    and "kb_ok (kb k)" "args_placed (hw (con k)) args" "buf_apart (hw (con k)) args"
    and "unat n \<le> unat (args_count (hw (con k)) args)"
  shows "sys_read_loop args n k = (n + of_nat m,
     on_hw (store_bytes (args_buf (hw (con k)) args + n) (take m (kb_contents (kb k))))
       (k\<lparr>kb := snd (take_chars read_char m (kb k))\<rparr>))"
  using assms
proof (induction m arbitrary: n k)
  case 0
  then have "\<not> n < args_count (hw (con k)) args \<or> \<not> has_input (kb k)"
    by (auto simp: word_less_nat_alt kq.nonempty_law min_def split: if_splits)
  then show ?case by (subst sys_read_loop_round) (auto simp: on_hw_def)
next
  case (Suc m)
  let ?s = "hw (con k)" let ?b = "args_buf ?s args" let ?c = "args_count ?s args"
  from Suc.prems(1) have n: "unat n < unat ?c" and ne: "kb_contents (kb k) \<noteq> []" by auto
  then obtain c cs where cs: "kb_contents (kb k) = c # cs" by (meson neq_Nil_conv)
  obtain q where q: "read_char (kb k) = (c, q)" "kb_ok q" "kb_contents q = cs"
    using kq.get_law [OF Suc.prems(2) cs] by (cases "read_char (kb k)") auto
  define k1 where "k1 = on_hw (\<lambda>s. wr8 s (args_buf s args + n) c) (k\<lparr>kb := q\<rparr>)"
  have "unat (?b + n) = unat ?b + unat n"
    using n Suc.prems(3) by (intro u32_plus_no_wrap) (simp add: args_placed_def)
  then have "unchanged_outside (unat ?b) (unat ?b + unat ?c) ?s (wr8 ?s (?b + n) c)"
    using n by (intro unchanged_wr8) simp_all
  then have "unchanged_outside (unat ?b) (unat ?b + unat ?c) ?s (hw (con k1))" by (simp add: k1_def)
  from args_unchanged [OF this, of args] Suc.prems(3,4)
  have a: "args_count (hw (con k1)) args = ?c" "args_buf (hw (con k1)) args = ?b"
    by (auto simp: args_placed_def buf_apart_def)
  have m: "m = min (unat ?c - unat (n + 1)) (length cs)"
    using Suc.prems(1) n unfolding u32_Suc [OF n] cs list.size(4) by linarith
  have "sys_read_loop args n k = sys_read_loop args (n + 1) k1"
    using n ne by (subst sys_read_loop_round) (simp add: word_less_nat_alt kq.nonempty_law q k1_def read_round_def)
  also have "\<dots> = (n + 1 + of_nat m, on_hw (store_bytes (?b + (n + 1)) (take m cs))
      (k1\<lparr>kb := snd (take_chars read_char m q)\<rparr>))"
  proof -
    have "kb k1 = q" by (simp add: k1_def)
    moreover have "unat (n + 1) \<le> unat ?c" using n by (simp add: u32_Suc [OF n])
    ultimately show ?thesis
      using Suc.IH [of k1 "n + 1"] Suc.prems(3,4) m q(2,3) a by (simp add: args_placed_def buf_apart_def)
  qed
  finally show ?case
    by (simp add: cs q k1_def on_hw_kb on_hw_on_hw split_beta) (simp add: on_hw_def algebra_simps)
qed

lemma sys_read_eq:
  assumes "m = min (unat (args_count (hw (con k)) args)) (length (kb_contents (kb k)))"
    and "kb_ok (kb k)" "args_placed (hw (con k)) args" "buf_apart (hw (con k)) args"
  shows "sys_read args k = (of_nat m,
     on_hw (store_bytes (args_buf (hw (con k)) args) (take m (kb_contents (kb k))))
       (k\<lparr>kb := snd (take_chars read_char m (kb k))\<rparr>))"
  using sys_read_loop_eq [of m k args 0] assms by (simp add: sys_read_def)

lemma sys_write_loop_eq:
  assumes "m = unat (args_count (hw t) args) - unat n" "unat n \<le> unat (args_count (hw t) args)"
    and "fb_ok vbe fb (hw t)" "args_placed (hw t) args"
    and "args_avoid (unat (fb_framebuffer fb))
      (unat (fb_framebuffer fb) + unat (fb_pitch fb) * unat (fb_height fb)) (hw t) args"
  shows "sys_write_loop vbe args n t =
    (n + of_nat m, fold (kputc vbe) (load_bytes (hw t) (args_buf (hw t) args + n) m) t)"
  using assms
proof (induction m arbitrary: n t)
  case 0
  then show ?case by (subst sys_write_loop.simps) (simp add: word_less_nat_alt)
next
  case (Suc m)
  let ?b = "args_buf (hw t) args" let ?c = "args_count (hw t) args"
  from Suc.prems(1) have n: "unat n < unat ?c" by simp
  let ?t = "kputc vbe (rd8 (hw t) (?b + n)) t"
  have d: "draws vbe fb (hw t) (hw ?t)" using kputcs_draws [OF Suc.prems(3), of "[rd8 (hw t) (?b + n)]"] by simp
  then have un: "unchanged_outside (unat (fb_framebuffer fb))
      (unat (fb_framebuffer fb) + unat (fb_pitch fb) * unat (fb_height fb)) (hw t) (hw ?t)"
    by (simp add: draws_def)
  have a: "args_count (hw ?t) args = ?c" "args_buf (hw ?t) args = ?b"
    using args_unchanged [OF un, of args] Suc.prems(4,5) by (auto simp: args_placed_def args_avoid_def)
  have bn: "unat (?b + (n + 1)) = unat ?b + unat n + 1" if "0 < m"
  proof -
    from that Suc.prems(1,4) have "unat ?b + unat (n + 1) < 4294967296"
      unfolding u32_Suc [OF n] args_placed_def by linarith
    from u32_plus_no_wrap [OF this] show ?thesis by (simp add: u32_Suc [OF n])
  qed
  have "load_bytes (hw ?t) (?b + (n + 1)) m = load_bytes (hw t) (?b + (n + 1)) m"
  proof (cases "m = 0")
    case False
    show ?thesis
    proof (rule load_bytes_unchanged [OF un])
      show "unat (?b + (n + 1)) + m \<le> unat (fb_framebuffer fb) \<or>
        unat (fb_framebuffer fb) + unat (fb_pitch fb) * unat (fb_height fb) \<le> unat (?b + (n + 1))"
        using False bn Suc.prems(1,5) n by (auto simp: args_avoid_def)
      show "unat (?b + (n + 1)) + m \<le> 4294967296"
        using bn False Suc.prems(1,4) unfolding args_placed_def by linarith
    qed
  qed simp
  moreover have "m = unat ?c - unat (n + 1)" "unat (n + 1) \<le> unat ?c"
    using Suc.prems(1) n unfolding u32_Suc [OF n] by linarith+
  ultimately have "sys_write_loop vbe args (n + 1) ?t =
      (n + 1 + of_nat m, fold (kputc vbe) (load_bytes (hw t) (?b + (n + 1)) m) ?t)"
    using Suc.IH [of ?t "n + 1"] Suc.prems(4,5) a draws_ok [OF d]
    by (simp add: args_placed_def args_avoid_def del: of_nat_diff of_nat_unat)
  then show ?case
    using n by (subst sys_write_loop.simps)
      (simp add: word_less_nat_alt load_bytes_Suc Let_def algebra_simps)
qed

text \<open>An argument block at \<open>0x1000\<close> for the four bytes at \<open>0x2000\<close>, and two typed characters.\<close>

definition call_machine :: machine where
  "call_machine = screen_machine\<lparr>mem := (mem screen_machine)(0x1000 := 4, 0x1009 := 0x20,
     0x2000 := 0x54, 0x2001 := 0x45, 0x2002 := 0x53, 0x2003 := 0x54)\<rparr>"

definition call_kernel :: kernel where
  "call_kernel = power_on\<lparr>con := boot_tty\<lparr>hw := call_machine\<rparr>,
     kb := fold handle_scancode [0x23, 0x17] (kb_init blank_keyboard)\<rparr>"

lemma call_machine_args:
  "args_count call_machine 0x1000 = 4" "args_buf call_machine 0x1000 = 0x2000"
  "load_bytes call_machine 0x2000 4 = [0x54, 0x45, 0x53, 0x54]" "fb_ok 0x8000 mode_1024 call_machine"
proof -
  have "get_framebuffer_info 0x8000 call_machine = mode_1024"
    by (simp add: get_framebuffer_info_eq rd16_def rd8_def load8_def rd32_def load32_def
        call_machine_def screen_machine_def mode_1024_def)
  then show "fb_ok 0x8000 mode_1024 call_machine" by (simp add: fb_ok_def mode_1024_def supported_depth_def px_size_def)
  have "[0..<4] = [0, 1, 2, 3 :: nat]" by (simp add: upt_rec)
  then show "load_bytes call_machine 0x2000 4 = [0x54, 0x45, 0x53, 0x54]"
    by (simp add: load_bytes_def rd8_def load8_def call_machine_def)
qed (simp_all add: args_count_def args_buf_def load_bytes_def rd32_def load32_def rd8_def load8_def
    call_machine_def screen_machine_def blank_machine_def)

lemma call_kernel_kb: "kb_ok (kb call_kernel)" "kb_contents (kb call_kernel) = [0x68, 0x69]"
proof -
  have i: "kb_ok (kb_init blank_keyboard)" "kb_contents (kb_init blank_keyboard) = []" "\<not> shift_held (kb_init blank_keyboard)"
    using kb_init_ok [of blank_keyboard] by (simp_all add: blank_keyboard_def)
  have d: "decode False [0x23, 0x17] = [0x68, 0x69]"
    by (simp add: char_of_def shift_after_def scancode_to_ascii_def)
  show "kb_ok (kb call_kernel)" "kb_contents (kb call_kernel) = [0x68, 0x69]"
    using scancodes_contents [of "kb_init blank_keyboard" "[0x23, 0x17]"] i d
    by (simp_all add: call_kernel_def del: fold.simps decode.simps)
qed

section \<open>Properties\<close>

text \<open>C21. \<open>sys_read\<close> never blocks and copies the oldest \<open>min count pending\<close> characters, in order,
into the buffer: it returns that number, removes exactly these characters from the keyboard
buffer, and writes no other byte of memory.  The argument block may lie anywhere that the
buffer does not overlap.\<close>

theorem sys_read_spec:
  fixes k :: kernel and arg1 :: u32
  defines "s \<equiv> hw (con k)"
  defines "buf \<equiv> args_buf s arg1"
  defines "m \<equiv> min (unat (args_count s arg1)) (length (kb_contents (kb k)))"
  defines "k' \<equiv> snd (sys_read arg1 k)"
  assumes "kb_ok (kb k)" "args_placed s arg1" "buf_apart s arg1"
  shows "fst (sys_read arg1 k) = of_nat m \<and>
    load_bytes (hw (con k')) buf m = take m (kb_contents (kb k)) \<and>
    kb_ok (kb k') \<and>
    kb_contents (kb k') = drop m (kb_contents (kb k)) \<and>
    unchanged_outside (unat buf) (unat buf + m) s (hw (con k')) \<and>
    k' = k\<lparr>kb := kb k', con := (con k)\<lparr>hw := hw (con k')\<rparr>\<rparr>"
proof (intro conjI)
  let ?cs = "take m (kb_contents (kb k))"
  have r: "sys_read arg1 k = (of_nat m, on_hw (store_bytes buf ?cs) (k\<lparr>kb := snd (take_chars read_char m (kb k))\<rparr>))"
    using sys_read_eq [of m k arg1] assms by simp
  have len: "length ?cs = m" by (simp add: m_def)
  have "m \<le> unat (args_count s arg1)" by (simp add: m_def)
  then have fits: "unat buf + length ?cs \<le> 4294967296"
    using assms(6) unfolding len args_placed_def buf_def by linarith
  from r show "fst (sys_read arg1 k) = of_nat m" by simp
  from r have k': "k' = on_hw (store_bytes buf ?cs) (k\<lparr>kb := snd (take_chars read_char m (kb k))\<rparr>)"
    by (simp add: k'_def)
  show "load_bytes (hw (con k')) buf m = ?cs"
    using load_store_bytes [OF fits, of s] by (simp add: k' len s_def del: length_take)
  show "kb_ok (kb k')" "kb_contents (kb k') = drop m (kb_contents (kb k))"
    using kq.take_chars_contents [OF assms(5), of m] by (simp_all add: k' m_def)
  show "unchanged_outside (unat buf) (unat buf + m) s (hw (con k'))"
    using store_bytes_unchanged [of "unat buf" buf ?cs "unat buf + m" s] fits len by (simp add: k' s_def)
  show "k' = k\<lparr>kb := kb k', con := (con k)\<lparr>hw := hw (con k')\<rparr>\<rparr>"
    by (simp add: k' on_hw_def)
qed

theorem sys_read_spec_witness:
  "fst (sys_read 0x1000 call_kernel) = 2 \<and>
   load_bytes (hw (con (snd (sys_read 0x1000 call_kernel)))) 0x2000 2 = [0x68, 0x69]"
proof -
  have "hw (con call_kernel) = call_machine" by (simp add: call_kernel_def)
  then show ?thesis
    using sys_read_spec [OF call_kernel_kb(1), of "0x1000"]
    by (simp add: call_machine_args call_kernel_kb args_placed_def buf_apart_def flip: numeral_2_eq_2)
qed

text \<open>C22. \<open>sys_write\<close> prints the \<open>count\<close> bytes of the buffer one after another, as \<open>kputc\<close> does,
and returns \<open>count\<close>, provided neither the argument block nor the buffer lies in the framebuffer;
nothing but the framebuffer and the cursor changes.  It returns for every argument block
whatever.\<close>

theorem sys_write_spec:
  fixes k :: kernel
  defines "s \<equiv> hw (con k)"
  defines "lo \<equiv> \<lambda>fb. unat (fb_framebuffer fb)"
  defines "hi \<equiv> \<lambda>fb. unat (fb_framebuffer fb) + unat (fb_pitch fb) * unat (fb_height fb)"
  assumes "fb_ok vbe fb s" "args_placed s arg1" "args_avoid (lo fb) (hi fb) s arg1"
  shows "fst (sys_write vbe arg1 k) = args_count s arg1 \<and>
    snd (sys_write vbe arg1 k) = k\<lparr>con :=
       fold (kputc vbe) (load_bytes s (args_buf s arg1) (unat (args_count s arg1))) (con k)\<rparr> \<and>
    unchanged_outside (lo fb) (hi fb) s (hw (con (snd (sys_write vbe arg1 k))))"
proof (intro conjI)
  have "sys_write_loop vbe arg1 0 (con k) = (args_count s arg1,
      fold (kputc vbe) (load_bytes s (args_buf s arg1) (unat (args_count s arg1))) (con k))"
    using sys_write_loop_eq [of "unat (args_count s arg1)" "con k" arg1 0 vbe fb] assms by simp
  then have w: "sys_write vbe arg1 k = (args_count s arg1, k\<lparr>con :=
      fold (kputc vbe) (load_bytes s (args_buf s arg1) (unat (args_count s arg1))) (con k)\<rparr>)"
    by (simp add: sys_write_def)
  then show "fst (sys_write vbe arg1 k) = args_count s arg1"
    "snd (sys_write vbe arg1 k) = k\<lparr>con :=
       fold (kputc vbe) (load_bytes s (args_buf s arg1) (unat (args_count s arg1))) (con k)\<rparr>" by simp_all
  show "unchanged_outside (lo fb) (hi fb) s (hw (con (snd (sys_write vbe arg1 k))))"
    using kputcs_draws [OF assms(4) [unfolded s_def]] by (simp add: w draws_def s_def lo_def hi_def)
qed

theorem sys_write_spec_witness:
  "fst (sys_write 0x8000 0x1000 call_kernel) = 4 \<and>
   con (snd (sys_write 0x8000 0x1000 call_kernel)) = fold (kputc 0x8000) [0x54, 0x45, 0x53, 0x54] (con call_kernel)"
proof -
  have "hw (con call_kernel) = call_machine" by (simp add: call_kernel_def)
  then show ?thesis
    using sys_write_spec [where k = call_kernel and vbe = "0x8000" and fb = mode_1024 and ?arg1.0 = "0x1000"]
      call_machine_args(4) [unfolded mode_1024_def]
    by (simp add: call_machine_args args_placed_def args_avoid_def mode_1024_def del: fold.simps)
qed

end
