(* ===== verification/Interrupts.thy ===== *)
theory Interrupts
  imports Syscalls
begin

text \<open>
  The path of an interrupt: gate, assembly stub (\<^verbatim>\<open>idt.asm\<close>), \<^verbatim>\<open>isr_handler\<close>, the registered
  handler, end-of-interrupt, return; and a system call as such an interrupt
  (\<^verbatim>\<open>syscall.asm\<close>, \<^verbatim>\<open>arch/x86/syscall\<close>, \<^verbatim>\<open>kernel/syscall\<close>).  A handler returns a frame and a
  state, or stops the machine (\<open>Halted\<close>); \<open>None\<close> is an interrupt number outside the tables or a
  fault that they do not route to a stub.  That the other array accesses are in bounds is shown in
  \<open>Checked_Access\<close> and \<open>Kernel_Safety\<close>.  The frame is a value: the model does not place it on the
  stack in memory.
\<close>

section \<open>Frames and handlers\<close>

record interrupt_frame =
  edi :: u32
  esi :: u32
  ebp :: u32
  esp_dummy :: u32
  ebx :: u32
  edx :: u32
  ecx :: u32
  eax :: u32
  interrupt_number :: u32
  error_code :: u32
  eip :: u32
  cs :: u32
  eflags :: u32

datatype outcome = Returned interrupt_frame kernel | Halted kernel

definition exception_names :: "string list" where
  "exception_names =
     [''Division by Zero'', ''Debug'', ''Non-Maskable Interrupt'', ''Breakpoint'', ''Overflow'',
      ''Bound Range Exceeded'', ''Invalid Opcode'', ''Device Not Available'', ''Double Fault'',
      ''Coprocessor Segment'', ''Invalid TSS'', ''Segment Not Present'', ''Stack-Segment Fault'',
      ''General Protection Fault'', ''Page Fault'', ''Reserved'', ''x87 FP Exception'',
      ''Alignment Check'', ''Machine Check'', ''SIMD FP Exception'', ''Virtualization Exception'',
      ''Control Protection'', ''Reserved'', ''Reserved'', ''Reserved'', ''Reserved'', ''Reserved'',
      ''Reserved'', ''Hypervisor Injection'', ''VMM Communication'', ''Security Exception'',
      ''Reserved'']"

definition default_exception_handler :: "u32 \<Rightarrow> interrupt_frame \<Rightarrow> kernel \<Rightarrow> outcome option" where
  "default_exception_handler vbe frame k =
     (if unat (interrupt_number frame) < length exception_names then
        Option.bind (kprintf vbe (bytes ''Exception %d: %s'' @ [ch_nl])
          [IntArg (interrupt_number frame),
           StrArg (Some (bytes (exception_names ! unat (interrupt_number frame))))] (con k)) (\<lambda>t.
        Option.bind (kprintf vbe (bytes ''Error code: 0x%x'' @ [ch_nl]) [IntArg (error_code frame)] t) (\<lambda>t.
        Option.bind (kprintf vbe (bytes ''EIP: 0x%x'' @ [ch_nl]) [IntArg (eip frame)] t) (\<lambda>t.
        Some (Halted (interrupts_disable (k\<lparr>con := t\<rparr>))))))
      else None)"

definition default_irq_handler :: "interrupt_frame \<Rightarrow> kernel \<Rightarrow> outcome option" where
  "default_irq_handler frame k = Some (Returned frame k)"

definition default_handler :: "interrupt_frame \<Rightarrow> kernel \<Rightarrow> outcome option" where
  "default_handler frame k = Some (Returned frame k)"

definition keyboard_irq_handler :: "interrupt_frame \<Rightarrow> kernel \<Rightarrow> outcome option" where
  "keyboard_irq_handler frame k =
     Some (Returned frame (k\<lparr>kb := handle_interrupt (hw (con k)) (kb k)\<rparr>))"

definition syscall_handler :: "u32 \<Rightarrow> interrupt_frame \<Rightarrow> kernel \<Rightarrow> outcome option" where
  "syscall_handler vbe frame k =
     (let syscall_number = eax frame AND 0xFF;
          (r, k) = run_syscall vbe (syscall_table k ! unat syscall_number) (ebx frame) k
      in Some (Returned (frame\<lparr>eax := r\<rparr>) k))"

fun run_handler :: "u32 \<Rightarrow> isr_t \<Rightarrow> interrupt_frame \<Rightarrow> kernel \<Rightarrow> outcome option" where
  "run_handler vbe Null_handler frame k = Some (Returned frame k)"
| "run_handler vbe Default_handler frame k = default_handler frame k"
| "run_handler vbe Default_exception_handler frame k = default_exception_handler vbe frame k"
| "run_handler vbe Default_irq_handler frame k = default_irq_handler frame k"
| "run_handler vbe Keyboard_irq_handler frame k = keyboard_irq_handler frame k"
| "run_handler vbe Syscall_handler frame k = syscall_handler vbe frame k"

definition isr_handler :: "u32 \<Rightarrow> interrupt_frame \<Rightarrow> kernel \<Rightarrow> outcome option" where
  "isr_handler vbe frame k =
     (let intno = interrupt_number frame in
      if unat intno \<ge> IDT_MAX_ENTRIES then None
      else case run_handler vbe (handlers k ! unat intno) frame k of
        Some (Returned frame' k') \<Rightarrow>
          Some (Returned frame'
            (if intno \<ge> 32 \<and> intno < 48 then on_hw (pic_send_eoi (ucast (intno - 32))) k' else k'))
      | r \<Rightarrow> r)"

section \<open>Delivery\<close>

definition stub_error :: "nat \<Rightarrow> u32 \<Rightarrow> u32" where
  "stub_error n err = (if n \<in> {8, 10, 11, 12, 13, 14, 17, 21, 29, 30} then err else 0)"

definition deliver :: "(nat \<Rightarrow> u32) \<Rightarrow> (nat \<Rightarrow> u32) \<Rightarrow> u32 \<Rightarrow> u32 \<Rightarrow> nat \<Rightarrow> u32 \<Rightarrow> interrupt_frame \<Rightarrow>
    kernel \<Rightarrow> outcome option" where
  "deliver isr irqp isr128 vbe n err regs k =
     Option.bind (Option.bind (vector_entry k n) (stub_vector isr irqp isr128)) (\<lambda>v.
       case isr_handler vbe (regs\<lparr>interrupt_number := of_nat v, error_code := stub_error v err\<rparr>)
           (interrupts_disable k) of
         Some (Returned frame k') \<Rightarrow> Some (Returned frame (k'\<lparr>int_flag := int_flag k\<rparr>))
       | r \<Rightarrow> r)"

definition send_syscall :: "(nat \<Rightarrow> u32) \<Rightarrow> (nat \<Rightarrow> u32) \<Rightarrow> u32 \<Rightarrow> u32 \<Rightarrow> interrupt_frame \<Rightarrow> u32 \<Rightarrow> u32 \<Rightarrow>
    kernel \<Rightarrow> (u32 \<times> kernel) option" where
  "send_syscall isr irqp isr128 vbe regs syscall_number arg1 k =
     (case deliver isr irqp isr128 vbe 128 0 (regs\<lparr>eax := syscall_number, ebx := arg1\<rparr>) k of
        Some (Returned frame k') \<Rightarrow> Some (eax frame, k')
      | _ \<Rightarrow> None)"

definition syscalls_send :: "(nat \<Rightarrow> u32) \<Rightarrow> (nat \<Rightarrow> u32) \<Rightarrow> u32 \<Rightarrow> u32 \<Rightarrow> interrupt_frame \<Rightarrow> u32 \<Rightarrow> u32 \<Rightarrow>
    kernel \<Rightarrow> (u32 \<times> kernel) option" where
  "syscalls_send isr irqp isr128 vbe regs syscall_number arg1 k =
     send_syscall isr irqp isr128 vbe regs syscall_number arg1 k"

definition syscall :: "(nat \<Rightarrow> u32) \<Rightarrow> (nat \<Rightarrow> u32) \<Rightarrow> u32 \<Rightarrow> u32 \<Rightarrow> interrupt_frame \<Rightarrow> u32 \<Rightarrow> u32 \<Rightarrow>
    kernel \<Rightarrow> (u32 \<times> kernel) option" where
  "syscall isr irqp isr128 vbe regs number arg1 k = syscalls_send isr irqp isr128 vbe regs number arg1 k"

section \<open>Frame properties\<close>

text \<open>Drawing and system calls use no ports; the interrupt flag plays no part in a system call.\<close>

definition same_ports :: "machine \<Rightarrow> machine \<Rightarrow> bool" where
  "same_ports s t \<longleftrightarrow> port_in t = port_in s \<and> port_out t = port_out s"

lemma same_ports_refl [simp]: "same_ports s s"
  by (simp add: same_ports_def)

lemma same_ports_trans: "same_ports s t \<Longrightarrow> same_ports t u \<Longrightarrow> same_ports s u"
  by (simp add: same_ports_def)

lemma putpixel_ports [simp]: "same_ports s (putpixel vbe x y c s)"
  by (simp add: putpixel_def same_ports_def Let_def)

lemma draw_char_ports [simp]: "same_ports s (draw_char vbe chr x y fg bg s)"
  unfolding draw_char_cells
  by (rule fold_keeps) (auto intro: same_ports_trans)

lemma draw_chars_ports: "same_ports s (draw_chars vbe fg bg x0 pos pos_y str s)"
proof (induction str arbitrary: pos pos_y s)
  case (Cons b str)
  have "same_ports s (draw_chars vbe fg bg x0 p q str (draw_char vbe c x y fg bg s))" for c x y p q
    by (rule same_ports_trans [OF draw_char_ports Cons.IH])
  with Cons.IH show ?case by (simp add: Let_def)
qed simp

lemma kputc_ports: "same_ports (hw t) (hw (kputc vbe c t))"
  by (simp add: kputc_def kprint_eq draw_chars_ports del: draw_chars.simps)

lemma sys_read_loop_ports:
  "same_ports (hw (con k)) (hw (con (snd (sys_read_loop args n k))))"
  by (rule sys_read_loop_keeps) (auto simp: same_ports_def read_round_def split_beta Let_def)

lemma sys_write_loop_ports: "same_ports (hw t) (hw (snd (sys_write_loop vbe args n t)))"
proof (induction vbe args n t rule: sys_write_loop.induct)
  case (1 vbe args n t)
  then show ?case
    by (subst sys_write_loop.simps) (auto simp: Let_def intro: same_ports_trans [OF kputc_ports])
qed

lemma run_syscall_ports: "same_ports (hw (con k)) (hw (con (snd (run_syscall vbe f arg1 k))))"
  using sys_read_loop_ports sys_write_loop_ports
  by (cases f) (auto simp: sys_read_def sys_write_def sys_default_def split_beta)

lemma on_hw_flag: "on_hw f (k\<lparr>int_flag := b, kb := q\<rparr>) = (on_hw f (k\<lparr>kb := q\<rparr>))\<lparr>int_flag := b\<rparr>"
  by (cases k) (simp add: on_hw_def)

lemma read_round_flag: "read_round args n (k\<lparr>int_flag := b\<rparr>) = (read_round args n k)\<lparr>int_flag := b\<rparr>"
  by (simp add: read_round_def split_beta Let_def on_hw_flag)

lemma sys_read_loop_flag:
  "sys_read_loop args n (k\<lparr>int_flag := b\<rparr>) = apsnd (int_flag_update (\<lambda>_. b)) (sys_read_loop args n k)"
proof (induction "kb_pending (kb k)" arbitrary: n k rule: less_induct)
  case less
  show ?case
  proof (cases "n < args_count (hw (con k)) args \<and> has_input (kb k)")
    case True
    then have "has_input (kb k)" by simp
    from less.hyps [OF read_round_pending [OF this]] True show ?thesis
      by (subst (1 2) sys_read_loop_round) (simp add: read_round_flag)
  qed (subst (1 2) sys_read_loop_round, auto)
qed

lemma run_syscall_flag:
  "run_syscall vbe f arg1 (k\<lparr>int_flag := b\<rparr>) = apsnd (int_flag_update (\<lambda>_. b)) (run_syscall vbe f arg1 k)"
  by (cases f) (simp_all add: sys_read_def sys_read_loop_flag sys_write_def sys_default_def split_beta apsnd_def)

lemma run_syscall_keeps_flag: "int_flag (snd (run_syscall vbe f arg1 k)) = int_flag k"
proof -
  have "run_syscall vbe f arg1 k = apsnd (int_flag_update (\<lambda>_. int_flag k)) (run_syscall vbe f arg1 k)"
    using run_syscall_flag [of vbe f arg1 "int_flag k" k] by simp
  then have "int_flag (snd (run_syscall vbe f arg1 k)) =
      int_flag (snd (apsnd (int_flag_update (\<lambda>_. int_flag k)) (run_syscall vbe f arg1 k)))"
    by (rule arg_cong)
  then show ?thesis by simp
qed

section \<open>The running system\<close>

definition boot_table :: "nat \<Rightarrow> syscall_imp" where
  "boot_table n = (if n = 0 then Sys_read else if n = 1 then Sys_write else Sys_default)"

definition booted :: "(nat \<Rightarrow> u32) \<Rightarrow> (nat \<Rightarrow> u32) \<Rightarrow> u32 \<Rightarrow> kernel \<Rightarrow> bool" where
  "booted isr irqp isr128 k \<longleftrightarrow> kernel_ok k \<and>
     distinct (map (stub_addr isr irqp isr128) stub_vectors) \<and>
     (\<forall>n \<in> set stub_vectors. vector_entry k n = Some (stub_addr isr irqp isr128 n)) \<and>
     handlers k ! 33 = Keyboard_irq_handler \<and> handlers k ! 128 = Syscall_handler \<and>
     (\<forall>n. 32 \<le> n \<and> n < 48 \<and> n \<noteq> 33 \<longrightarrow> handlers k ! n = Default_irq_handler) \<and>
     (\<forall>n < 256. syscall_table k ! n = boot_table n)"

definition boot_sequence :: "u32 \<Rightarrow> (nat \<Rightarrow> u32) \<Rightarrow> (nat \<Rightarrow> u32) \<Rightarrow> u32 \<Rightarrow> kernel \<Rightarrow> kernel" where
  "boot_sequence a isr irqp isr128 k =
     init_keyboard (syscalls_init (interrupts_enable (idt_init a isr irqp isr128 k)))"

lemma boot_sequence_booted:
  assumes "kernel_ok k" "distinct (map (stub_addr isr irqp isr128) stub_vectors)"
  shows "booted isr irqp isr128 (boot_sequence a isr irqp isr128 k)"
proof -
  let ?k = "interrupts_enable (idt_init a isr irqp isr128 k)"
  have ok: "kernel_ok ?k" by (simp add: assms(1))
  have v: "vector_entry (boot_sequence a isr irqp isr128 k) n = vector_entry (idt_init a isr irqp isr128 k) n" for n
    by (simp add: boot_sequence_def vector_entry_def init_keyboard_fields syscalls_init_fields interrupts_enable_def)
  have "n < 256" if "n \<in> set stub_vectors" for n using that by (auto simp: stub_vectors_iff)
  then have "\<forall>n \<in> set stub_vectors. vector_entry (boot_sequence a isr irqp isr128 k) n = Some (stub_addr isr irqp isr128 n)"
    by (simp add: v vector_entry_idt_init assms(1))
  moreover have "length (handlers ?k) = 256" "length (syscall_table ?k) = 256"
    using ok by (simp_all add: kernel_ok_def)
  then have "handlers (boot_sequence a isr irqp isr128 k) ! 33 = Keyboard_irq_handler"
    "handlers (boot_sequence a isr irqp isr128 k) ! 128 = Syscall_handler"
    "\<forall>n < 256. syscall_table (boot_sequence a isr irqp isr128 k) ! n = boot_table n"
    by (simp_all add: boot_sequence_def init_keyboard_fields syscalls_init_fields(1) syscall_table_init boot_table_def)
  moreover have "handlers (boot_sequence a isr irqp isr128 k) ! n = Default_irq_handler" if "32 \<le> n \<and> n < 48 \<and> n \<noteq> 33" for n
    using that assms(1)
    by (simp add: boot_sequence_def init_keyboard_fields syscalls_init_fields(1) interrupts_enable_def
        idt_init_fields(1) fill_handlers_nth kernel_ok_def)
  ultimately show ?thesis
    using assms by (simp add: booted_def boot_sequence_def)
qed

lemma booted_cong:
  assumes "g_IDT k' = g_IDT k" "idtr k' = idtr k" "handlers k' = handlers k" "syscall_table k' = syscall_table k"
  shows "booted isr irqp isr128 k' = booted isr irqp isr128 k"
  using assms by (simp add: booted_def kernel_ok_def vector_entry_def)

lemma booted_vector:
  "booted isr irqp isr128 k \<Longrightarrow> n \<in> set stub_vectors \<Longrightarrow>
   Option.bind (vector_entry k n) (stub_vector isr irqp isr128) = Some n"
  by (simp add: booted_def stub_vector_addr)

text \<open>An interrupt with the default handler is acknowledged, and that is all.\<close>

lemma deliver_default:
  assumes "Option.bind (vector_entry k n) (stub_vector isr irqp isr128) = Some n"
    and "handlers k ! n = Default_irq_handler" "32 \<le> n" "n < 48"
  shows "deliver isr irqp isr128 vbe n 0 regs k =
    Some (Returned (regs\<lparr>interrupt_number := of_nat n, error_code := stub_error n 0\<rparr>)
      (on_hw (pic_send_eoi (ucast (of_nat n - 32 :: u32))) k))"
proof -
  have u: "unat (of_nat n :: u32) = n" "(32 :: u32) \<le> of_nat n" "of_nat n < (48 :: u32)"
    using assms(3,4) by (simp_all add: unat_u32_of_nat word_le_nat_alt word_less_nat_alt)
  have "(on_hw f (k\<lparr>int_flag := False\<rparr>))\<lparr>int_flag := int_flag k\<rparr> = on_hw f k" for f
    by (cases k) (simp add: on_hw_def)
  then show ?thesis
    unfolding deliver_def assms(1) using assms(2,4) u
    by (simp add: isr_handler_def interrupts_disable_def default_irq_handler_def Let_def)
qed

lemma and_FF: "unat (w AND 0xFF :: u32) = unat w mod 256"
proof -
  have "(0xFF :: u32) = mask 8" by (simp add: mask_eq_exp_minus_1)
  then show ?thesis by (simp only: take_bit_eq_mask [symmetric] unsigned_take_bit_eq take_bit_eq_mod) (simp add: unat_mod)
qed

lemma syscall_booted:
  assumes "booted isr irqp isr128 k"
  shows "syscall isr irqp isr128 vbe regs number arg1 k =
    Some (run_syscall vbe (boot_table (unat number mod 256)) arg1 k)"
proof -
  have b: "Option.bind (vector_entry k 128) (stub_vector isr irqp isr128) = Some 128"
    by (rule booted_vector [OF assms]) (simp add: stub_vectors_iff)
  let ?k = "k\<lparr>int_flag := False\<rparr>"
  let ?f = "boot_table (unat number mod 256)"
  obtain r k' where r: "run_syscall vbe ?f arg1 k = (r, k')" by fastforce
  then have f: "run_syscall vbe ?f arg1 ?k = (r, k'\<lparr>int_flag := False\<rparr>)" by (simp add: run_syscall_flag)
  have "k'\<lparr>int_flag := int_flag k\<rparr> = k'" using run_syscall_keeps_flag [of vbe ?f arg1 k] r by simp
  moreover have "handlers k ! 128 = Syscall_handler" "syscall_table k ! (unat number mod 256) = ?f"
    using assms by (simp_all add: booted_def)
  ultimately show ?thesis
    using b f by (simp add: syscall_def syscalls_send_def send_syscall_def deliver_def isr_handler_def
        interrupts_disable_def syscall_handler_def stub_error_def and_FF r)
qed

section \<open>The read loop of kmain\<close>

text \<open>
  \<^verbatim>\<open>kmain\<close> reads four characters by calling \<^verbatim>\<open>SYS_READ\<close> until it has them all.  Between two
  calls devices may interrupt, if interrupts are on: the keyboard at vector 33, with a scancode
  that its controller holds at port \<^verbatim>\<open>0x60\<close>, and the others at theirs.  A run has the number of
  characters read so far, the state, and the text typed since the loop started.
\<close>

abbreviation SYS_READ :: u32 where "SYS_READ \<equiv> 0"
abbreviation SYS_WRITE :: u32 where "SYS_WRITE \<equiv> 1"

definition set_read_args :: "u32 \<Rightarrow> u32 \<Rightarrow> u32 \<Rightarrow> machine \<Rightarrow> machine" where
  "set_read_args ra buf count s = (let s = wr32 s (ra + 8) buf in wr32 s ra count)"

definition read_step :: "(nat \<Rightarrow> u32) \<Rightarrow> (nat \<Rightarrow> u32) \<Rightarrow> u32 \<Rightarrow> u32 \<Rightarrow> interrupt_frame \<Rightarrow> u32 \<Rightarrow> u32 \<Rightarrow> u32 \<Rightarrow>
    u32 \<times> kernel \<Rightarrow> (u32 \<times> kernel) option" where
  "read_step isr irqp isr128 vbe regs ra buf_ra wanted =
     (\<lambda>(got, k). map_option (\<lambda>(r, k'). (got + r, k'))
        (syscall isr irqp isr128 vbe regs SYS_READ ra
          (on_hw (set_read_args ra (buf_ra + got) (wanted - got)) k)))"

definition press :: "u8 \<Rightarrow> kernel \<Rightarrow> kernel" where
  "press sc k = on_hw (\<lambda>s. s\<lparr>port_in := (port_in s)(0x60 := ucast sc)\<rparr>) k"

inductive read_run :: "(nat \<Rightarrow> u32) \<Rightarrow> (nat \<Rightarrow> u32) \<Rightarrow> u32 \<Rightarrow> u32 \<Rightarrow> interrupt_frame \<Rightarrow> u32 \<Rightarrow> u32 \<Rightarrow> kernel \<Rightarrow>
    u32 \<Rightarrow> kernel \<Rightarrow> u8 list \<Rightarrow> bool"
  for isr irqp isr128 vbe regs ra buf_ra k0 where
  read_start: "read_run isr irqp isr128 vbe regs ra buf_ra k0 0 k0 []"
| read_key: "read_run isr irqp isr128 vbe regs ra buf_ra k0 got k typed \<Longrightarrow> int_flag k \<Longrightarrow>
    kb_pending (kb k) < 256 \<Longrightarrow>
    deliver isr irqp isr128 vbe 33 0 regs (press sc k) = Some (Returned frame k') \<Longrightarrow>
    read_run isr irqp isr128 vbe regs ra buf_ra k0 got k' (typed @ char_of sc (shift_held (kb k)))"
| read_device: "read_run isr irqp isr128 vbe regs ra buf_ra k0 got k typed \<Longrightarrow> int_flag k \<Longrightarrow>
    32 \<le> n \<Longrightarrow> n < 48 \<Longrightarrow> n \<noteq> 33 \<Longrightarrow> deliver isr irqp isr128 vbe n 0 regs k = Some (Returned frame k') \<Longrightarrow>
    read_run isr irqp isr128 vbe regs ra buf_ra k0 got k' typed"
| read_call: "read_run isr irqp isr128 vbe regs ra buf_ra k0 got k typed \<Longrightarrow> got < 4 \<Longrightarrow>
    read_step isr irqp isr128 vbe regs ra buf_ra 4 (got, k) = Some (got', k') \<Longrightarrow>
    read_run isr irqp isr128 vbe regs ra buf_ra k0 got' k' typed"

lemma deliver_key:
  assumes "booted isr irqp isr128 k"
  shows "deliver isr irqp isr128 vbe 33 0 regs (press sc k) =
    Some (Returned (regs\<lparr>interrupt_number := 33, error_code := 0\<rparr>)
      (on_hw (pic_send_eoi 1) (press sc (k\<lparr>kb := handle_scancode sc (kb k)\<rparr>))))"
proof -
  have b: "booted isr irqp isr128 (press sc k)"
    using booted_cong [of "press sc k" k] assms by (simp add: press_def)
  have "Option.bind (vector_entry (press sc k) 33) (stub_vector isr irqp isr128) = Some 33"
    by (rule booted_vector [OF b]) (simp add: stub_vectors_iff)
  moreover have "handlers k ! 33 = Keyboard_irq_handler" using assms by (simp add: booted_def)
  moreover have "ucast (ucast sc :: u32) = sc" by (rule bit_word_eqI) (simp add: bit_simps)
  ultimately show ?thesis
    by (cases k) (simp add: deliver_def isr_handler_def keyboard_irq_handler_def handle_interrupt_def
        io_read8_def inb_def stub_error_def interrupts_disable_def press_def on_hw_def)
qed

lemma set_read_args_effect:
  assumes "unat ra + 12 \<le> 4294967296"
  shows "args_count (set_read_args ra buf n s) ra = n" "args_buf (set_read_args ra buf n s) ra = buf"
    "unchanged_outside (unat ra) (unat ra + 12) s (set_read_args ra buf n s)"
proof -
  have ra8: "unat (ra + 8) = unat ra + 8" using assms by (simp add: u32_plus_no_wrap)
  then have "apart4 ra (ra + 8)" using assms by (intro apart4_natI) simp_all
  then show "args_buf (set_read_args ra buf n s) ra = buf"
    by (simp add: args_buf_def set_read_args_def Let_def rd32_wr32_other)
  show "args_count (set_read_args ra buf n s) ra = n"
    by (simp add: args_count_def set_read_args_def Let_def)
  show "unchanged_outside (unat ra) (unat ra + 12) s (set_read_args ra buf n s)"
    unfolding set_read_args_def Let_def
    by (rule unchanged_trans; rule unchanged_wr32) (use ra8 assms in simp_all)
qed

text \<open>Where the argument block and the buffer of \<^verbatim>\<open>kmain\<close> lie: apart from each other.\<close>

definition read_layout :: "u32 \<Rightarrow> u32 \<Rightarrow> bool" where
  "read_layout ra buf \<longleftrightarrow> unat ra + 12 \<le> 4294967296 \<and> unat buf + 4 \<le> 4294967296 \<and>
     (unat buf + 4 \<le> unat ra \<or> unat ra + 12 \<le> unat buf)"

definition rest_kept :: "u32 \<Rightarrow> u32 \<Rightarrow> machine \<Rightarrow> machine \<Rightarrow> bool" where
  "rest_kept ra buf s t \<longleftrightarrow> (\<forall>x. \<not> (unat ra \<le> unat x \<and> unat x < unat ra + 12) \<and>
     \<not> (unat buf \<le> unat x \<and> unat x < unat buf + 4) \<longrightarrow> mem t x = mem s x)"

definition read_inv :: "(nat \<Rightarrow> u32) \<Rightarrow> (nat \<Rightarrow> u32) \<Rightarrow> u32 \<Rightarrow> u32 \<Rightarrow> u32 \<Rightarrow> kernel \<Rightarrow> u32 \<Rightarrow> kernel \<Rightarrow> u8 list \<Rightarrow> bool" where
  "read_inv isr irqp isr128 ra buf k0 got k typed \<longleftrightarrow> booted isr irqp isr128 k \<and> int_flag k \<and> kb_ok (kb k) \<and>
     unat got \<le> 4 \<and> load_bytes (hw (con k)) buf (unat got) @ kb_contents (kb k) = typed \<and>
     rest_kept ra buf (hw (con k0)) (hw (con k)) \<and>
     g_cursor_col (con k) = g_cursor_col (con k0) \<and> g_cursor_row (con k) = g_cursor_row (con k0)"

lemma read_step_mem:
  assumes "read_layout ra buf" "unat got + m \<le> 4" "length new = m"
  shows "load_bytes (store_bytes (buf + got) new (set_read_args ra a n s)) buf (unat got + m) =
    load_bytes s buf (unat got) @ new"
proof -
  let ?s = "set_read_args ra a n s"
  from assms(1) have lay: "unat ra + 12 \<le> 4294967296" "unat buf + 4 \<le> 4294967296"
    "unat buf + 4 \<le> unat ra \<or> unat ra + 12 \<le> unat buf" by (simp_all add: read_layout_def)
  have s: "load_bytes ?s buf (unat got) = load_bytes s buf (unat got)"
    by (rule load_bytes_unchanged [OF set_read_args_effect(3) [OF lay(1)]]) (use assms(2) lay in auto)
  show ?thesis
  proof (cases "m = 0")
    case False
    then have bg: "unat (buf + got) = unat buf + unat got"
      using assms(2) lay(2) by (intro u32_plus_no_wrap) linarith
    then have "load_bytes (store_bytes (buf + got) new ?s) (buf + got) m = new"
      using load_store_bytes [of "buf + got" new ?s] assms lay(2) by simp
    moreover have "load_bytes (store_bytes (buf + got) new ?s) buf (unat got) = load_bytes ?s buf (unat got)"
      by (rule load_bytes_unchanged [OF store_bytes_unchanged [of "unat (buf + got)" _ _ 4294967296]])
        (use bg assms lay in auto)
    ultimately show ?thesis by (simp add: load_bytes_append s)
  qed (use assms(3) s in simp)
qed

lemma read_step_rest:
  assumes "read_layout ra buf" "unat got + length new \<le> 4"
  shows "rest_kept ra buf s (store_bytes (buf + got) new (set_read_args ra a n s))"
proof -
  let ?s = "set_read_args ra a n s"
  from assms(1) have lay: "unat ra + 12 \<le> 4294967296" "unat buf + 4 \<le> 4294967296"
    by (simp_all add: read_layout_def)
  have s: "unchanged_outside (unat ra) (unat ra + 12) s ?s" by (rule set_read_args_effect(3) [OF lay(1)])
  have "unchanged_outside (unat buf) (unat buf + 4) ?s (store_bytes (buf + got) new ?s)"
  proof (cases "new = []")
    case False
    then have "0 < length new" by simp
    with assms(2) lay(2) have "unat (buf + got) = unat buf + unat got" by (intro u32_plus_no_wrap) linarith
    with assms(2) lay(2) show ?thesis by (intro store_bytes_unchanged) simp_all
  qed simp
  with s show ?thesis by (auto simp: rest_kept_def unchanged_outside_def)
qed

lemma read_step_effect:
  fixes got :: u32
  assumes "read_inv isr irqp isr128 ra buf k0 got k typed" "read_layout ra buf" "got < 4"
  shows "\<exists>k'. read_step isr irqp isr128 vbe regs ra buf 4 (got, k) = Some (of_nat (min 4 (length typed)), k')
    \<and> read_inv isr irqp isr128 ra buf k0 (of_nat (min 4 (length typed))) k' typed"
proof -
  let ?k = "on_hw (set_read_args ra (buf + got) (4 - got)) k"
  let ?K = "kb_contents (kb k)"
  define m where "m = min (4 - unat got) (length ?K)"
  from assms(1) have inv: "booted isr irqp isr128 k" "int_flag k" "kb_ok (kb k)"
    "load_bytes (hw (con k)) buf (unat got) @ ?K = typed" by (simp_all add: read_inv_def)
  from assms(2) have lay: "unat ra + 12 \<le> 4294967296" "unat buf + 4 \<le> 4294967296"
    "unat buf + 4 \<le> unat ra \<or> unat ra + 12 \<le> unat buf" by (simp_all add: read_layout_def)
  have g: "unat got < 4" using assms(3) by (simp add: word_less_nat_alt)
  then have bg: "unat (buf + got) = unat buf + unat got" "unat (4 - got) = 4 - unat got"
    using lay(2) by (simp_all add: u32_plus_no_wrap u32_minus_no_wrap)
  note args = set_read_args_effect [OF lay(1), where buf = "buf + got" and n = "4 - got" and s = "hw (con k)"]
  have lt: "length (load_bytes (hw (con k)) buf (unat got)) = unat got" by (simp add: load_bytes_def)
  then have tot: "unat got + m = min 4 (length typed)"
    using g inv(4) by (auto simp: m_def min_def)
  have b: "booted isr irqp isr128 ?k" using booted_cong [of ?k k] inv(1) by simp
  have "sys_read ra ?k = (of_nat m, on_hw (store_bytes (buf + got) (take m ?K))
      (?k\<lparr>kb := snd (take_chars read_char m (kb k))\<rparr>))"
    using sys_read_eq [of m ?k ra] inv(3) lay g bg args
    by (auto simp: args_placed_def buf_apart_def m_def)
  then obtain k' where k': "syscall isr irqp isr128 vbe regs SYS_READ ra ?k = Some (of_nat m, k')"
    "k' = on_hw (store_bytes (buf + got) (take m ?K)) (?k\<lparr>kb := snd (take_chars read_char m (kb k))\<rparr>)"
    using syscall_booted [OF b] by (simp add: boot_table_def)
  have sum: "got + of_nat m = of_nat (min 4 (length typed))" by (simp flip: tot)
  have t4: "unat (of_nat (min 4 (length typed)) :: u32) = unat got + m"
    unfolding tot by (subst unat_u32_of_nat) simp_all
  have q: "kb_ok (kb k')" "kb_contents (kb k') = drop m ?K"
    using kq.take_chars_contents [OF inv(3), of m] by (simp_all add: k' m_def)
  have "load_bytes (hw (con k')) buf (unat got + m) = load_bytes (hw (con k)) buf (unat got) @ take m ?K"
    using read_step_mem [OF assms(2), of got m "take m ?K"] g
    by (simp add: k' m_def)
  moreover have "booted isr irqp isr128 k'" using booted_cong [of k' ?k] b by (simp add: k')
  moreover have "int_flag k'" using inv(2) by (simp add: k')
  moreover have "rest_kept ra buf (hw (con k)) (hw (con k'))"
    using read_step_rest [OF assms(2), of got "take m ?K"] g by (simp add: k' m_def)
  then have "rest_kept ra buf (hw (con k0)) (hw (con k'))"
    using assms(1) by (auto simp: read_inv_def rest_kept_def)
  moreover have "g_cursor_col (con k') = g_cursor_col (con k0)" "g_cursor_row (con k') = g_cursor_row (con k0)"
    using assms(1) by (simp_all add: k' read_inv_def)
  ultimately have "read_inv isr irqp isr128 ra buf k0 (of_nat (min 4 (length typed))) k' typed"
    unfolding read_inv_def t4 using q tot inv(4) by simp
  moreover have "read_step isr irqp isr128 vbe regs ra buf 4 (got, k) = Some (of_nat (min 4 (length typed)), k')"
    by (simp add: read_step_def k'(1) sum)
  ultimately show ?thesis by blast
qed

lemma read_run_inv:
  assumes "read_run isr irqp isr128 vbe regs ra buf k0 got k typed"
    and "read_layout ra buf" "booted isr irqp isr128 k0" "int_flag k0" "kb_ok (kb k0)"
  shows "read_inv isr irqp isr128 ra buf k0 got k (kb_contents (kb k0) @ typed)"
  using assms(1)
proof (induction rule: read_run.induct)
  case read_start
  then show ?case using assms by (simp add: read_inv_def rest_kept_def)
next
  case (read_key got k typed sc frame k')
  then have inv: "booted isr irqp isr128 k" "kb_ok (kb k)" by (simp_all add: read_inv_def)
  have k': "k' = on_hw (pic_send_eoi 1) (press sc (k\<lparr>kb := handle_scancode sc (kb k)\<rparr>))"
    using read_key.hyps(4) deliver_key [OF inv(1)] by simp
  have "length (kb_contents (kb k)) + length (char_of sc (shift_held (kb k))) \<le> 256"
    using read_key.hyps(3) char_of_length [of sc "shift_held (kb k)"] by (simp add: kb_contents_def)
  note h = handle_scancode_contents [OF inv(2) this]
  have "mem (hw (con k')) = mem (hw (con k))" by (simp add: k' press_def pic_send_eoi_def Let_def)
  then have "load_bytes (hw (con k')) a n = load_bytes (hw (con k)) a n" for a n
    by (simp add: load_bytes_def rd8_def)
  moreover have "booted isr irqp isr128 k'" using booted_cong [of k' k] inv(1) by (simp add: k' press_def)
  moreover have "rest_kept ra buf (hw (con k0)) (hw (con k'))"
    using read_key.IH \<open>mem (hw (con k')) = mem (hw (con k))\<close> by (simp add: read_inv_def rest_kept_def)
  ultimately show ?case using read_key.IH h by (auto simp: read_inv_def k' press_def)
next
  case (read_device got k typed n frame k')
  then have b: "booted isr irqp isr128 k" by (simp add: read_inv_def)
  have "n \<in> set stub_vectors" "handlers k ! n = Default_irq_handler"
    using read_device.hyps(3-5) b by (simp_all add: stub_vectors_iff booted_def)
  from deliver_default [OF booted_vector [OF b this(1)] this(2) read_device.hyps(3,4), of vbe regs] read_device.hyps(6)
  have k': "k' = on_hw (pic_send_eoi (ucast (of_nat n - 32 :: u32))) k" by simp
  have m: "mem (hw (con k')) = mem (hw (con k))" by (simp add: k' pic_send_eoi_def Let_def)
  have "booted isr irqp isr128 k'" using booted_cong [of k' k] b by (simp add: k')
  with read_device.IH m show ?case by (simp add: read_inv_def k' rest_kept_def load_bytes_def rd8_def)
next
  case (read_call got k typed got' k')
  from read_step_effect [OF read_call.IH assms(2) read_call.hyps(2), of vbe regs] read_call.hyps(3) show ?case by auto
qed

lemma sys_read_loop_tables:
  "\<exists>q s. snd (sys_read_loop args n k) = k\<lparr>kb := q, con := (con k)\<lparr>hw := s\<rparr>\<rparr>"
proof (rule sys_read_loop_keeps)
  show "\<exists>q s. k = k\<lparr>kb := q, con := (con k)\<lparr>hw := s\<rparr>\<rparr>"
    by (intro exI [of _ "kb k"] exI [of _ "hw (con k)"]) simp
qed (auto simp: read_round_def split_beta Let_def on_hw_def, blast)

lemma run_syscall_booted:
  "booted isr irqp isr128 (snd (run_syscall vbe f arg1 k)) = booted isr irqp isr128 k"
proof -
  obtain q s where "snd (sys_read arg1 k) = k\<lparr>kb := q, con := (con k)\<lparr>hw := s\<rparr>\<rparr>"
    using sys_read_loop_tables unfolding sys_read_def by blast
  then show ?thesis
    by (intro booted_cong; cases f) (simp_all add: sys_write_def sys_default_def split_beta)
qed

section \<open>The report of an exception\<close>

definition crash_text :: "interrupt_frame \<Rightarrow> cstr" where
  "crash_text frame =
     bytes ''Exception '' @ num_text (interrupt_number frame) 10 @ bytes '': '' @
     bytes (exception_names ! unat (interrupt_number frame)) @ [ch_nl] @
     bytes ''Error code: 0x'' @ num_text (error_code frame) 16 @ [ch_nl] @
     bytes ''EIP: 0x'' @ num_text (eip frame) 16 @ [ch_nl]"

lemma exception_names_plain:
  "\<forall>name \<in> set exception_names. plain (bytes name) \<and> 0 \<notin> set (bytes name)"
  by (simp add: exception_names_def plain_def)

lemma small_not_negative: "unat v < 32 \<Longrightarrow> \<not> is_negative v"
proof -
  assume v: "unat v < 32"
  then have "\<not> bit (unat v) 31" by (simp add: bit_iff_odd)
  then have "\<not> bit v 31" by (simp add: bit_unsigned_iff)
  then show ?thesis using bit_last_iff [of v] by (simp add: is_negative_def)
qed

lemma format_text_prefix:
  "ch_percent \<notin> set str \<Longrightarrow> 0 \<notin> set str \<Longrightarrow>
   format_text (str @ fmt) args = map_option ((@) str) (format_text fmt args)"
  by (induction str) (cases "format_text fmt args"; simp)+

lemma crash_formats:
  assumes "unat n < 32"
  shows "format_text (bytes ''Exception %d: %s'' @ [ch_nl]) [IntArg n, StrArg (Some str)] =
      Some (bytes ''Exception '' @ num_text n 10 @ bytes '': '' @ str @ [ch_nl])"
    "format_text (bytes ''Error code: 0x%x'' @ [ch_nl]) [IntArg e] = Some (bytes ''Error code: 0x'' @ num_text e 16 @ [ch_nl])"
    "format_text (bytes ''EIP: 0x%x'' @ [ch_nl]) [IntArg e] = Some (bytes ''EIP: 0x'' @ num_text e 16 @ [ch_nl])"
proof -
  have split: "bytes ''Exception %d: %s'' = bytes ''Exception '' @ [ch_percent, 100] @ bytes '': '' @ [ch_percent, 115]"
    "bytes ''Error code: 0x%x'' = bytes ''Error code: 0x'' @ [ch_percent, 120]"
    "bytes ''EIP: 0x%x'' = bytes ''EIP: 0x'' @ [ch_percent, 120]"
    by simp_all
  have clean: "ch_percent \<notin> set (bytes ''Exception '')" "0 \<notin> set (bytes ''Exception '')"
    "ch_percent \<notin> set (bytes '': '')" "0 \<notin> set (bytes '': '')"
    "ch_percent \<notin> set (bytes ''Error code: 0x'')" "0 \<notin> set (bytes ''Error code: 0x'')"
    "ch_percent \<notin> set (bytes ''EIP: 0x'')" "0 \<notin> set (bytes ''EIP: 0x'')"
    by simp_all
  show "format_text (bytes ''Exception %d: %s'' @ [ch_nl]) [IntArg n, StrArg (Some str)] =
      Some (bytes ''Exception '' @ num_text n 10 @ bytes '': '' @ str @ [ch_nl])"
    "format_text (bytes ''Error code: 0x%x'' @ [ch_nl]) [IntArg e] = Some (bytes ''Error code: 0x'' @ num_text e 16 @ [ch_nl])"
    "format_text (bytes ''EIP: 0x%x'' @ [ch_nl]) [IntArg e] = Some (bytes ''EIP: 0x'' @ num_text e 16 @ [ch_nl])"
    unfolding split append_assoc using small_not_negative [OF assms]
    by (simp_all add: format_text_prefix clean del: bytes_simps)
qed

lemma default_exception_handler_eq:
  assumes "unat (interrupt_number frame) < 32"
  shows "default_exception_handler vbe frame k =
    Some (Halted (k\<lparr>con := fold (kputc vbe) (crash_text frame) (con k), int_flag := False\<rparr>))"
proof -
  let ?name = "exception_names ! unat (interrupt_number frame)"
  have l: "length exception_names = 32" by (simp add: exception_names_def)
  then have "?name \<in> set exception_names" using assms by (intro nth_mem) simp
  then have "\<forall>a \<in> set [IntArg (interrupt_number frame), StrArg (Some (bytes ?name))]. arg_plain a"
    using exception_names_plain by (simp add: arg_plain_def)
  note p1 = kprintf_text [OF crash_formats(1) [OF assms] this]
  have i: "\<forall>a \<in> set [IntArg v]. arg_plain a" for v by (simp add: arg_plain_def)
  note p2 = kprintf_text [OF crash_formats(2) [OF assms] i] and p3 = kprintf_text [OF crash_formats(3) [OF assms] i]
  show ?thesis
    unfolding default_exception_handler_def l p1 bind.bind_lunit p2 p3 crash_text_def
    using assms by (simp add: interrupts_disable_def del: bytes_simps)
qed

section \<open>Properties\<close>

text \<open>A kernel started with stubs sixteen bytes apart, for concrete runs.\<close>

definition demo_isr :: "nat \<Rightarrow> u32" where "demo_isr n = 0xC0001000 + 16 * of_nat n"
definition demo_irqp :: "nat \<Rightarrow> u32" where "demo_irqp n = 0xC0002000 + 16 * of_nat n"

definition running :: kernel where
  "running = boot_sequence 0xC0020000 demo_isr demo_irqp 0xC0003000 (power_on\<lparr>con := boot_tty\<lparr>hw := call_machine\<rparr>\<rparr>)"

definition some_regs :: interrupt_frame where
  "some_regs = \<lparr>edi = 0, esi = 0, ebp = 0, esp_dummy = 0, ebx = 0, edx = 0, ecx = 0, eax = 0,
     interrupt_number = 0, error_code = 0, eip = 0xC0000010, cs = 8, eflags = 0x202\<rparr>"

lemma running_booted: "booted demo_isr demo_irqp 0xC0003000 running"
  unfolding running_def
proof (rule boot_sequence_booted)
  show "kernel_ok (power_on\<lparr>con := boot_tty\<lparr>hw := call_machine\<rparr>\<rparr>)" by (simp add: power_on_def kernel_ok_def)
  show "distinct (map (stub_addr demo_isr demo_irqp 0xC0003000) stub_vectors)" by code_simp
qed

lemma running_state: "int_flag running" "kb_ok (kb running)" "kb_contents (kb running) = []"
  using kb_init_ok [of blank_keyboard]
  by (simp_all add: running_def boot_sequence_def init_keyboard_def syscalls_init_def Let_def
      interrupts_enable_def idt_init_def load_idt_def power_on_def blank_keyboard_def)

text \<open>C17. \<open>isr_handler\<close> returns for every vector below 256 whose handler is not the exception
handler, after running the handler.  It writes exactly the end-of-interrupt commands to the
ports: none for a vector outside 32 to 47, one to the master for 32 to 39, slave and then master
for 40 to 47.  The saved registers come back unchanged, but for the result register of a system
call; the keyboard handler feeds the byte at port \<^verbatim>\<open>0x60\<close> to the keyboard; the default handlers
change neither memory nor keyboard.\<close>

theorem isr_handler_spec:
  fixes frame :: interrupt_frame
  defines "n \<equiv> unat (interrupt_number frame)"
  assumes "n < 256" "handlers k ! n \<noteq> Default_exception_handler"
  shows "\<exists>f k'. isr_handler vbe frame k = Some (Returned f k') \<and>
    port_out (hw (con k')) = port_out (hw (con k)) @
      (if 32 \<le> n \<and> n < 48 then
         (if 40 \<le> n then [Out8 PIC2_COMMAND PIC_EOI] else []) @ [Out8 PIC1_COMMAND PIC_EOI] else []) \<and>
    f = (if handlers k ! n = Syscall_handler then frame\<lparr>eax := eax f\<rparr> else frame) \<and>
    (handlers k ! n = Keyboard_irq_handler \<longrightarrow> kb k' = handle_scancode (inb (hw (con k)) 0x60) (kb k)) \<and>
    (handlers k ! n \<in> {Null_handler, Default_handler, Default_irq_handler} \<longrightarrow>
       kb k' = kb k \<and> mem (hw (con k')) = mem (hw (con k)))"
proof -
  let ?no = "interrupt_number frame"
  have irq: "32 \<le> ?no \<and> ?no < 48 \<longleftrightarrow> 32 \<le> n \<and> n < 48"
    by (simp add: n_def word_le_nat_alt word_less_nat_alt)
  have hi: "8 \<le> (ucast (?no - 32) :: u8) \<longleftrightarrow> 40 \<le> n" if "32 \<le> n" "n < 48"
    using that by (simp add: n_def word_le_nat_alt unsigned_ucast_eq take_bit_eq_mod u32_minus_no_wrap) linarith
  obtain f k1 where r: "run_handler vbe (handlers k ! n) frame k = Some (Returned f k1)"
      "same_ports (hw (con k)) (hw (con k1))"
      "f = (if handlers k ! n = Syscall_handler then frame\<lparr>eax := eax f\<rparr> else frame)"
      "handlers k ! n = Keyboard_irq_handler \<longrightarrow> kb k1 = handle_scancode (inb (hw (con k)) 0x60) (kb k)"
      "handlers k ! n \<in> {Null_handler, Default_handler, Default_irq_handler} \<longrightarrow> k1 = k"
  proof (cases "handlers k ! n = Syscall_handler")
    case True
    let ?r = "run_syscall vbe (syscall_table k ! unat (eax frame AND 0xFF)) (ebx frame) k"
    show ?thesis
      by (rule that [of "frame\<lparr>eax := fst ?r\<rparr>" "snd ?r"])
        (simp_all add: True syscall_handler_def Let_def split_beta run_syscall_ports)
  next
    case False
    show ?thesis
    proof (cases "handlers k ! n = Keyboard_irq_handler")
      case True
      show ?thesis
        by (rule that [of frame "k\<lparr>kb := handle_interrupt (hw (con k)) (kb k)\<rparr>"])
          (simp_all add: True keyboard_irq_handler_def handle_interrupt_def io_read8_def)
    next
      case other: False
      show ?thesis
        by (rule that [of frame k]; cases "handlers k ! n")
          (use False other assms in \<open>simp_all add: default_handler_def default_irq_handler_def\<close>)
    qed
  qed
  let ?k' = "if 32 \<le> n \<and> n < 48 then on_hw (pic_send_eoi (ucast (?no - 32))) k1 else k1"
  have "isr_handler vbe frame k = Some (Returned f ?k')"
    using assms(2) r(1) irq by (simp add: isr_handler_def Let_def flip: n_def)
  moreover have "port_out (hw (con ?k')) = port_out (hw (con k)) @
      (if 32 \<le> n \<and> n < 48 then
         (if 40 \<le> n then [Out8 PIC2_COMMAND PIC_EOI] else []) @ [Out8 PIC1_COMMAND PIC_EOI] else [])"
    using r(2) hi by (simp add: pic_send_eoi_def outb_def same_ports_def)
  moreover have "kb ?k' = kb k1" "mem (hw (con ?k')) = mem (hw (con k1))"
    by (simp_all add: pic_send_eoi_def Let_def)
  ultimately show ?thesis using r(3-5) by (intro exI [of _ f] exI [of _ ?k']) simp
qed

theorem isr_handler_spec_witness:
  "\<exists>f k'. isr_handler 0x8000 (some_regs\<lparr>interrupt_number := 33\<rparr>) running = Some (Returned f k') \<and>
     f = some_regs\<lparr>interrupt_number := 33\<rparr>"
proof -
  have "handlers running ! 33 = Keyboard_irq_handler" using running_booted by (simp add: booted_def)
  then show ?thesis
    using isr_handler_spec [of "some_regs\<lparr>interrupt_number := 33\<rparr>" running "0x8000"]
    by (auto simp: some_regs_def)
qed

text \<open>C36. An exception (vectors 0 to 31) while the exception handler is registered stops the machine
with interrupts off, after printing the number, the name, the error code and the faulting
address as decimal and hexadecimal text; no end-of-interrupt is sent.\<close>

theorem exception_reported:
  assumes "unat (interrupt_number frame) < 32"
    and "handlers k ! unat (interrupt_number frame) = Default_exception_handler"
  shows "isr_handler vbe frame k =
    Some (Halted (k\<lparr>con := fold (kputc vbe) (crash_text frame) (con k), int_flag := False\<rparr>))"
  using assms by (simp add: isr_handler_def default_exception_handler_eq)

theorem exception_reported_witness:
  "isr_handler 0x8000 (some_regs\<lparr>interrupt_number := 14, error_code := 2\<rparr>)
     (power_on\<lparr>handlers := replicate 256 Default_exception_handler\<rparr>) =
   Some (Halted (power_on\<lparr>handlers := replicate 256 Default_exception_handler,
     con := fold (kputc 0x8000) (crash_text (some_regs\<lparr>interrupt_number := 14, error_code := 2\<rparr>)) (con power_on),
     int_flag := False\<rparr>))"
  using exception_reported [of "some_regs\<lparr>interrupt_number := 14, error_code := 2\<rparr>"
      "power_on\<lparr>handlers := replicate 256 Default_exception_handler\<rparr>" "0x8000"]
  by (simp add: some_regs_def)

text \<open>C19. A system call on a running kernel goes through gate 128 to its implementation and comes
back with the result: number 0 is \<open>sys_read\<close>, 1 is \<open>sys_write\<close>, and any other low byte gives
\<open>-1\<close> with the state untouched; only the low byte of the number counts.  The tables are as
before, so the next call works too.\<close>

theorem syscall_dispatch:
  assumes "booted isr irqp isr128 k"
  shows "\<exists>r k'. syscall isr irqp isr128 vbe regs number arg1 k = Some (r, k') \<and>
    booted isr irqp isr128 k' \<and> int_flag k' = int_flag k \<and>
    (r, k') = (if unat number mod 256 = 0 then sys_read arg1 k
               else if unat number mod 256 = 1 then sys_write vbe arg1 k else (- 1, k))"
proof -
  let ?r = "run_syscall vbe (boot_table (unat number mod 256)) arg1 k"
  obtain r k' where rk: "?r = (r, k')" by fastforce
  have "booted isr irqp isr128 k'"
    using run_syscall_booted [of isr irqp isr128 vbe "boot_table (unat number mod 256)" arg1 k] assms rk by simp
  moreover have "int_flag k' = int_flag k"
    using run_syscall_keeps_flag [of vbe "boot_table (unat number mod 256)" arg1 k] rk by simp
  moreover have "?r = (if unat number mod 256 = 0 then sys_read arg1 k
      else if unat number mod 256 = 1 then sys_write vbe arg1 k else (- 1, k))"
    by (simp add: boot_table_def sys_default_def)
  ultimately show ?thesis
    using rk by (intro exI [of _ r] exI [of _ k']) (simp add: syscall_booted [OF assms])
qed

theorem syscall_dispatch_witness:
  "\<exists>k'. syscall demo_isr demo_irqp 0xC0003000 0x8000 some_regs 7 0x1000 running = Some (- 1, k')"
  using syscall_dispatch [OF running_booted, of "0x8000" some_regs 7 "0x1000"] by auto

text \<open>C10. The read loop of \<open>kmain\<close>, with interrupts of all devices between its system calls in any order
and at most 256 characters outstanding.  The input is what the keyboard held when the loop
started, followed by what is typed: at every moment the buffer holds the first characters of the
input, in order, the keyboard the rest, and memory outside buffer and argument block is as it
was; and the next round always returns with as many of the four characters as there are.  So the
loop ends, with the first four characters of the input in the buffer, as soon as there are four.\<close>

theorem kmain_reads_typed_text:
  fixes k0 :: kernel and typed :: "u8 list"
  defines "str \<equiv> kb_contents (kb k0) @ typed"
  assumes "read_run isr irqp isr128 vbe regs ra buf k0 got k typed"
    and "read_layout ra buf" "booted isr irqp isr128 k0" "int_flag k0" "kb_ok (kb k0)"
  shows "unat got \<le> 4 \<and> load_bytes (hw (con k)) buf (unat got) = take (unat got) str
      \<and> kb_contents (kb k) = drop (unat got) str \<and> rest_kept ra buf (hw (con k0)) (hw (con k))
    \<and> (got < 4 \<longrightarrow> (\<exists>k'. read_step isr irqp isr128 vbe regs ra buf 4 (got, k) =
          Some (of_nat (min 4 (length str)), k')
        \<and> load_bytes (hw (con k')) buf (min 4 (length str)) = take 4 str))"
proof -
  have split: "load_bytes (hw (con k)) buf (unat g) = take (unat g) str"
      "kb_contents (kb k) = drop (unat g) str"
    if "read_inv isr irqp isr128 ra buf k0 g k str" for g k
    using that by (auto simp: read_inv_def load_bytes_def)
  have inv: "read_inv isr irqp isr128 ra buf k0 got k str" unfolding str_def by (rule read_run_inv [OF assms(2-)])
  have "\<exists>k'. read_step isr irqp isr128 vbe regs ra buf 4 (got, k) = Some (of_nat (min 4 (length str)), k')
      \<and> load_bytes (hw (con k')) buf (min 4 (length str)) = take 4 str" if less: "got < 4"
  proof -
    obtain k' where k': "read_step isr irqp isr128 vbe regs ra buf 4 (got, k) = Some (of_nat (min 4 (length str)), k')"
      "read_inv isr irqp isr128 ra buf k0 (of_nat (min 4 (length str))) k' str"
      using read_step_effect [OF inv assms(3) less] by blast
    have "unat (of_nat (min 4 (length str)) :: u32) = min 4 (length str)"
      by (subst unat_u32_of_nat) simp_all
    with split(1) [OF k'(2)] have "load_bytes (hw (con k')) buf (min 4 (length str)) = take 4 str"
      by (simp add: min_def split: if_splits)
    with k'(1) show ?thesis by blast
  qed
  with inv split [OF inv] show ?thesis by (simp add: read_inv_def)
qed

text \<open>A key pressed before the first call: the call reads it.\<close>

theorem kmain_reads_typed_text_witness:
  "\<exists>k k'. read_run demo_isr demo_irqp 0xC0003000 0x8000 some_regs 0x1000 0x2000 running 0 k [0x61] \<and>
     read_step demo_isr demo_irqp 0xC0003000 0x8000 some_regs 0x1000 0x2000 4 (0, k) = Some (1, k') \<and>
     load_bytes (hw (con k')) 0x2000 1 = [0x61]"
proof -
  let ?k = "on_hw (pic_send_eoi 1) (press 0x1E (running\<lparr>kb := handle_scancode 0x1E (kb running)\<rparr>))"
  have "kb_pending (kb running) < 256" "\<not> shift_held (kb running)"
    by (simp_all add: kb_pending_def running_def boot_sequence_def init_keyboard_def Let_def kb_init_def)
  moreover have d: "deliver demo_isr demo_irqp 0xC0003000 0x8000 33 0 some_regs (press 0x1E running) =
      Some (Returned (some_regs\<lparr>interrupt_number := 33, error_code := 0\<rparr>) ?k)"
    by (rule deliver_key [OF running_booted])
  ultimately have run: "read_run demo_isr demo_irqp 0xC0003000 0x8000 some_regs 0x1000 0x2000 running 0 ?k [0x61]"
    using read_run.read_key [OF read_run.read_start _ _ d] running_state(1)
    by (simp add: char_of_def scancode_to_ascii_def)
  have "read_layout 0x1000 0x2000" by (simp add: read_layout_def)
  from kmain_reads_typed_text [OF run this running_booted running_state(1,2)] run running_state(3) show ?thesis by auto
qed

end
