(* ===== verification/Platform.thy ===== *)
theory Platform
  imports Kernel_Heap Virtual_Memory Bootstrap Interrupts
begin

text \<open>
  \<^verbatim>\<open>arch/x86/platform\<close>: how the components are put together at boot.
  \<open>platform_map\<close> is the part of \<^verbatim>\<open>platform_init\<close> up to \<^verbatim>\<open>pd.enable()\<close>; \<open>platform_init\<close> is the
  whole function, with a page fault as an outcome of every step after that.  The boot information
  block is read from memory.  Addresses of objects the linker places (the two descriptor tables, the function itself) are arguments.
\<close>

section \<open>The boot information block\<close>

definition bi_e820_map :: "machine \<Rightarrow> u32 \<Rightarrow> u32" where
  "bi_e820_map s bi = rd32 s bi"

definition bi_e820_entry_count :: "machine \<Rightarrow> u32 \<Rightarrow> u32" where
  "bi_e820_entry_count s bi = rd32 s (bi + 4)"

definition bi_page_directory :: "machine \<Rightarrow> u32 \<Rightarrow> u32" where
  "bi_page_directory s bi = rd32 s (bi + 8)"

section \<open>Mapping the kernel\<close>

definition platform_map :: "u32 \<Rightarrow> u32 \<Rightarrow> machine \<Rightarrow> page_directory \<times> memory_map \<times> machine" where
  "platform_map vbe boot_info s =
     (let (pd, s) = pd_init (bi_page_directory s boot_info) s;
          s = map_range pd KERNEL_VMA 0x00000000 0x00400000 s;
          s = identity_map_range pd 0x00000000 0x00100000 s;
          s = identity_map_range pd PAGE_TABLES_BASE (PAGE_TABLES_BASE + PAGE_SIZE * PAGE_TABLE_COUNT) s;
          fb_info = get_framebuffer_info vbe s;
          s = identity_map_range pd (fb_framebuffer fb_info) (fb_framebuffer fb_info + fb_size fb_info) s;
          mmap = mm_init (bi_e820_map s boot_info) (bi_e820_entry_count s boot_info);
          s = identity_map_usable mmap pd s;
          s = pd_enable pd s
      in (pd, mmap, s))"

section \<open>The whole of platform_init\<close>

text \<open>
  From \<^verbatim>\<open>pd.enable()\<close> on every access goes through the page tables.  The operations of the
  components work on physical memory; they behave as they are modelled when the addresses they use
  translate to themselves, and code, constants and globals of the kernel, which are used at
  \<open>KERNEL_VMA\<close> and above, to the image at the bottom of memory.  Every step below is therefore
  preceded by a check that the pages it may use are mapped that way, and has no result (a page
  fault, before there is an interrupt table) when they are not.  The checks are per step and ask
  for all pages the step may use:
  \<^item> the four megabytes of the kernel, the five megabytes of low memory with the page directory, the
    boot information and the page tables, and the screen, before anything is printed
    (\<open>paging_ok\<close>);
  \<^item> the frame bitmap before it is set up (\<open>fa_init_touched\<close> shows that no other memory is written);
  \<^item> the header of the heap and the page bitmap, which \<open>heap_init\<close> and \<open>init_vmm\<close> map themselves.
  Accesses through a pointer into the region of the virtual memory manager are translated one by
  one (\<open>wr_virt\<close>, \<open>rd_virt\<close>).
\<close>

definition direct :: "page_directory \<Rightarrow> nat \<Rightarrow> nat \<Rightarrow> machine \<Rightarrow> bool" where
  "direct pd lo hi s \<longleftrightarrow>
     (\<forall>k \<in> {lo div 4096..<(hi + 4095) div 4096}. walk s pd (page_addr k) = Some (page_addr k))"

definition kernel_mapped :: "page_directory \<Rightarrow> machine \<Rightarrow> bool" where
  "kernel_mapped pd s \<longleftrightarrow>
     (\<forall>k \<in> {0xC0000..<0xC0400}. walk s pd (page_addr k) = Some (page_addr k - KERNEL_VMA))"

definition screen_mapped :: "u32 \<Rightarrow> page_directory \<Rightarrow> machine \<Rightarrow> bool" where
  "screen_mapped vbe pd s \<longleftrightarrow> (let fb = get_framebuffer_info vbe s in
     direct pd (unat (fb_framebuffer fb)) (unat (fb_framebuffer fb) + unat (fb_pitch fb) * unat (fb_height fb)) s)"

definition paging_ok :: "u32 \<Rightarrow> page_directory \<Rightarrow> machine \<Rightarrow> bool" where
  "paging_ok vbe pd s \<longleftrightarrow> kernel_mapped pd s \<and> direct pd 0 0x500000 s \<and> screen_mapped vbe pd s"

definition kprintf_paged :: "u32 \<Rightarrow> page_directory \<Rightarrow> cstr \<Rightarrow> arg list \<Rightarrow> tty \<Rightarrow> tty option" where
  "kprintf_paged vbe pd fmt args t = (if paging_ok vbe pd (hw t) then kprintf vbe fmt args t else None)"

definition wr_virt :: "page_directory \<Rightarrow> u32 \<Rightarrow> u32 \<Rightarrow> machine \<Rightarrow> machine option" where
  "wr_virt pd va v s = map_option (\<lambda>pa. wr32 s pa v) (walk s pd va)"

definition rd_virt :: "page_directory \<Rightarrow> u32 \<Rightarrow> machine \<Rightarrow> u32 option" where
  "rd_virt pd va s = map_option (rd32 s) (walk s pd va)"

text \<open>The part that sets up the memory managers and tries the virtual memory manager out.\<close>

definition managers_start :: "page_directory \<Rightarrow> memory_map \<Rightarrow> machine \<Rightarrow> (vmm \<times> machine) option" where
  "managers_start pd mmap s =
     (let (frame_alloc, s1) = fa_init mmap s in
      if \<not> direct pd 0x500000 (fa_touched frame_alloc) s then None
      else let (heap, s2) = heap_init frame_alloc pd 16 s1 in
        if \<not> direct pd (unat (head heap)) (unat (head heap) + 12) s2 then None
        else let (kernel_vmm, s3) = init_vmm frame_alloc pd s2 in
          if \<not> direct pd (unat (vbitmap kernel_vmm)) (unat (vbitmap kernel_vmm) + 0x4000) s3 then None
          else Some (kernel_vmm, s3))"

definition platform_memory :: "u32 \<Rightarrow> page_directory \<Rightarrow> memory_map \<Rightarrow> tty \<Rightarrow> (vmm \<times> tty) option" where
  "platform_memory vbe pd mmap t =
     Option.bind (managers_start pd mmap (hw t)) (\<lambda>(kernel_vmm, s).
      let (p1, s) = kmalloc_pages kernel_vmm 1 s;
          (p2, s) = kmalloc_pages kernel_vmm 4 s
      in Option.bind (kprintf_paged vbe pd (bytes ''vmm alloc(1) = 0x%x'' @ [ch_nl]) [IntArg p1] (t\<lparr>hw := s\<rparr>)) (\<lambda>t.
         Option.bind (kprintf_paged vbe pd (bytes ''vmm alloc(4) = 0x%x'' @ [ch_nl]) [IntArg p2] t) (\<lambda>t.
         Option.bind (wr_virt pd p1 0xCAFEBABE (hw t)) (\<lambda>s.
         Option.bind (rd_virt pd p1 s) (\<lambda>v.
         Option.bind (kprintf_paged vbe pd (bytes ''Wrote 0x%x to p1'' @ [ch_nl]) [IntArg v] (t\<lparr>hw := s\<rparr>)) (\<lambda>t.
           let s = kfree_pages kernel_vmm p1 1 (hw t);
               (p3, s) = kmalloc_pages kernel_vmm 1 s
           in map_option (Pair kernel_vmm)
             (kprintf_paged vbe pd (bytes ''Freed p1, re-alloc(1) = 0x%x (should be 0x%x)'' @ [ch_nl])
                [IntArg p3, IntArg p1] (t\<lparr>hw := s\<rparr>))))))))"

definition platform_init :: "u32 \<Rightarrow> u32 \<Rightarrow> u32 \<Rightarrow> u32 \<Rightarrow> (nat \<Rightarrow> u32) \<Rightarrow> (nat \<Rightarrow> u32) \<Rightarrow> u32 \<Rightarrow> u32 \<Rightarrow> kernel \<Rightarrow>
    (vmm \<times> kernel) option" where
  "platform_init vbe boot_info gdt_addr idt_addr isr irqp isr128 self k =
     (let (pd, mmap, s) = platform_map vbe boot_info (hw (con k)) in
      if \<not> paging_ok vbe pd s then None
      else
        let t = kprint vbe (bytes (if bi_e820_entry_count s boot_info > 0 then ''Memory map found!''
                                   else ''No memory map found!'') @ [ch_nl, 0]) ((con k)\<lparr>hw := s\<rparr>)
        in Option.bind (mm_print vbe mmap t) (\<lambda>t.
           Option.bind (platform_memory vbe pd mmap t) (\<lambda>(kernel_vmm, t).
           Option.bind (kprintf_paged vbe pd (bytes ''platform_init is at: 0x%x'' @ [ch_nl]) [IntArg self] t) (\<lambda>t.
             let k = gdt_init gdt_addr (k\<lparr>con := t\<rparr>);
                 k = idt_init idt_addr isr irqp isr128 k;
                 k = interrupts_enable k
             in Some (kernel_vmm, syscalls_init k)))))"

section \<open>What platform_map sets up\<close>

text \<open>
  Where the second boot stage puts things: the block, the video mode information and the E820
  table below the new page directory, and that below one megabyte.
\<close>

definition boot_layout :: "u32 \<Rightarrow> u32 \<Rightarrow> machine \<Rightarrow> bool" where
  "boot_layout vbe bi s \<longleftrightarrow>
     unat (bi_page_directory s bi) + 4096 \<le> 0x100000 \<and>
     unat bi + 12 \<le> unat (bi_page_directory s bi) \<and>
     unat vbe + 44 \<le> unat (bi_page_directory s bi) \<and>
     unat (bi_e820_map s bi) + 20 * unat (bi_e820_entry_count s bi) \<le> unat (bi_page_directory s bi)"

definition boot_mmap :: "u32 \<Rightarrow> machine \<Rightarrow> memory_map" where
  "boot_mmap bi s = mm_init (bi_e820_map s bi) (bi_e820_entry_count s bi)"

text \<open>The translation that \<open>platform_map\<close> is meant to set up.\<close>

definition usable_page :: "u32 \<Rightarrow> machine \<Rightarrow> nat \<Rightarrow> bool" where
  "usable_page bi s n \<longleftrightarrow>
     (\<exists>i < unat (bi_e820_entry_count s bi). usable_frame (mm_entry s (boot_mmap bi s) i) n)"

definition fb_page :: "u32 \<Rightarrow> machine \<Rightarrow> nat \<Rightarrow> bool" where
  "fb_page vbe s n \<longleftrightarrow> (let fb = get_framebuffer_info vbe s in
     unat (fb_framebuffer fb) div 4096 \<le> n \<and>
     n < (unat (fb_framebuffer fb) + unat (fb_size fb) + 4095) div 4096)"

definition kernel_page :: "nat \<Rightarrow> bool" where
  "kernel_page n \<longleftrightarrow> 0xC0000 \<le> n \<and> n < 0xC0400"

definition boot_translation :: "u32 \<Rightarrow> u32 \<Rightarrow> machine \<Rightarrow> u32 \<Rightarrow> u32 option" where
  "boot_translation vbe bi s w =
     (let n = unat w div 4096 in
      if usable_page bi s n \<or> fb_page vbe s n \<or> n < 0x500 then Some w
      else if kernel_page n then Some (w - KERNEL_VMA) else None)"

lemma low_unchanged:
  assumes "unchanged_outside lo hi s t" "unat b + unat j + 4 \<le> lo" "lo \<le> 4294967296"
  shows "rd32 t (b + j) = rd32 s (b + j)"
proof -
  have "unat (b + j) = unat b + unat j" using assms(2,3) by (intro u32_plus_no_wrap) linarith
  then show ?thesis using assms by (intro rd32_unchanged [OF assms(1)]) auto
qed

lemma fb_info_low:
  assumes "unchanged_outside lo hi s t" "unat vbe + 44 \<le> lo" "lo \<le> 4294967296"
  shows "get_framebuffer_info vbe t = get_framebuffer_info vbe s"
  by (rule fb_info_cong) (use assms in \<open>auto simp: unchanged_outside_def\<close>)

lemma boot_info_low:
  assumes "unchanged_outside (unat (bi_page_directory s bi)) hi s t" "boot_layout vbe bi s"
  shows "bi_e820_map t bi = bi_e820_map s bi" "bi_e820_entry_count t bi = bi_e820_entry_count s bi"
    "get_framebuffer_info vbe t = get_framebuffer_info vbe s"
    "i < unat (bi_e820_entry_count s bi) \<Longrightarrow> mm_entry t (boot_mmap bi s) i = mm_entry s (boot_mmap bi s) i"
proof -
  let ?d = "unat (bi_page_directory s bi)"
  from assms(2) have l: "?d + 4096 \<le> 0x100000" "unat bi + 12 \<le> ?d" "unat vbe + 44 \<le> ?d"
    "unat (bi_e820_map s bi) + 20 * unat (bi_e820_entry_count s bi) \<le> ?d"
    by (simp_all add: boot_layout_def)
  show "bi_e820_map t bi = bi_e820_map s bi" "bi_e820_entry_count t bi = bi_e820_entry_count s bi"
    using low_unchanged [OF assms(1), of bi 0] low_unchanged [OF assms(1), of bi 4] l
    by (simp_all add: bi_e820_map_def bi_e820_entry_count_def)
  show "get_framebuffer_info vbe t = get_framebuffer_info vbe s"
    using l by (intro fb_info_low [OF assms(1)]) simp_all
  show "mm_entry t (boot_mmap bi s) i = mm_entry s (boot_mmap bi s) i" if "i < unat (bi_e820_entry_count s bi)"
    using that l by (intro mm_entry_unchanged [OF assms(1)]) (simp_all add: boot_mmap_def mm_init_def mm_low_def)
qed

lemma walk_identity:
  assumes "pd_wf s pd" "unat b \<le> 4294963200"
  shows "walk (identity_map_range pd a b s) pd w =
    (if unat a div 4096 \<le> unat w div 4096 \<and> unat w div 4096 < (unat b + 4095) div 4096
     then Some w else walk s pd w)"
  using assms by (simp add: identity_map_wf walk_pte identity_map_pte page_simps)

lemma kernel_translation:
  assumes "kernel_page (unat w div 4096)"
  shows "page_addr (unat w div 4096 - 0xC0000) OR (w AND 0xFFF) = w - KERNEL_VMA"
proof -
  let ?a = "w - KERNEL_VMA"
  have "0xC0000 * 4096 \<le> unat w div 4096 * 4096" using assms by (simp add: kernel_page_def)
  then have w: "0xC0000000 \<le> unat w" using div_times_less_eq_dividend [of "unat w" 4096] by linarith
  then have a: "unat ?a = unat w - 0xC0000000" by (simp add: u32_minus_no_wrap)
  have "unat ?a div 4096 = unat w div 4096 - 0xC0000" "unat ?a mod 4096 = unat w mod 4096"
  proof -
    have c: "(4096 * c + r) div 4096 = c + r div 4096" "(4096 * c + r) mod 4096 = r mod 4096" for c r :: nat
      by simp_all
    obtain r where r: "unat w = 0xC0000000 + r" using w le_Suc_ex by blast
    then show "unat ?a div 4096 = unat w div 4096 - 0xC0000" "unat ?a mod 4096 = unat w mod 4096"
      using c [of "0xC0000" r] by (simp_all add: a)
  qed
  moreover from this(2) have "?a AND 0xFFF = w AND 0xFFF"
    by (simp add: word_unat_eq_iff and_FFF)
  ultimately show ?thesis using page_down_offset [of ?a] by (simp add: page_down_page_addr)
qed

lemma walk_kernel:
  assumes "pd_wf s pd"
  shows "walk (map_range pd KERNEL_VMA 0 0x400000 s) pd w =
    (if kernel_page (unat w div 4096) then Some (w - KERNEL_VMA) else walk s pd w)"
proof -
  have fits: "range_fits KERNEL_VMA 0x400000" by (simp add: range_fits_def)
  have "in_pages KERNEL_VMA 0x400000 w \<longleftrightarrow> kernel_page (unat w div 4096)"
    by (simp add: in_pages_def kernel_page_def)
  moreover have "page_down (0 :: u32) = 0" by (simp add: page_down_page_addr page_addr_def)
  ultimately show ?thesis
    using assms kernel_translation [of w] map_range_pte [OF assms fits, of 0 w]
    by (simp add: map_range_wf walk_pte page_simps)
qed

lemma walk_unchanged_regs:
  "walk (pd_enable pd' s) pd w = walk s pd w" "pd_wf (pd_enable pd' s) pd = pd_wf s pd"
  "mem (pd_enable pd' s) = mem s" "cr3 (pd_enable pd' s) = entries pd'" "bit (cr0 (pd_enable pd' s)) 31"
  "\<not> bit (cr4 (pd_enable pd' s)) 4"
proof -
  show "walk (pd_enable pd' s) pd w = walk s pd w" "pd_wf (pd_enable pd' s) pd = pd_wf s pd"
    "mem (pd_enable pd' s) = mem s" "cr3 (pd_enable pd' s) = entries pd'"
    by (simp_all add: pd_enable_def Let_def walk_def pd_wf_def rd_elem_def write_cr0_def write_cr3_def
        write_cr4_def rd32_def)
  have "(0x80000000 :: u32) = push_bit 31 1" "(0x10 :: u32) = push_bit 4 1" by simp_all
  then show "bit (cr0 (pd_enable pd' s)) 31" "\<not> bit (cr4 (pd_enable pd' s)) 4"
    by (simp_all only: pd_enable_def Let_def write_cr0_def write_cr3_def write_cr4_def) (simp_all add: bit_simps)
qed

text \<open>The fixed ranges: the kernel at \<open>KERNEL_VMA\<close>, the first five megabytes and the framebuffer.\<close>

lemma platform_low_map:
  assumes "boot_layout vbe bi s" and "fb = get_framebuffer_info vbe s" and "pd = \<lparr>entries = bi_page_directory s bi\<rparr>"
    and "unat (fb_framebuffer fb) + unat (fb_size fb) \<le> 4294963200"
  obtains s0 s3 s4 where "pd_init (bi_page_directory s bi) s = (pd, s0)"
    "s3 = identity_map_range pd 0x100000 0x500000 (identity_map_range pd 0 0x100000 (map_range pd KERNEL_VMA 0 0x400000 s0))"
    "s4 = identity_map_range pd (fb_framebuffer fb) (fb_framebuffer fb + fb_size fb) s3"
    "unchanged_outside (unat (bi_page_directory s bi)) 0x500000 s s3"
    "unchanged_outside (unat (bi_page_directory s bi)) 0x500000 s s4" "pd_wf s4 pd"
    "\<And>w. walk s4 pd w = (if fb_page vbe s (unat w div 4096) \<or> unat w div 4096 < 0x500 then Some w
      else if kernel_page (unat w div 4096) then Some (w - KERNEL_VMA) else None)"
proof -
  let ?d = "bi_page_directory s bi"
  have d: "dir_placed ?d" "unat ?d \<le> 0x100000" using assms(1) by (simp_all add: boot_layout_def dir_placed_def)
  define s0 where "s0 = snd (pd_init ?d s)"
  define s1 where "s1 = map_range pd KERNEL_VMA 0 0x400000 s0"
  define s2 where "s2 = identity_map_range pd 0 0x100000 s1"
  define s3 where "s3 = identity_map_range pd 0x100000 0x500000 s2"
  define s4 where "s4 = identity_map_range pd (fb_framebuffer fb) (fb_framebuffer fb + fb_size fb) s3"
  have wf0: "pd_wf s0 pd" using pd_init_wf [OF d(1), of s] by (simp add: s0_def assms(3))
  have wf1: "pd_wf s1 pd" unfolding s1_def by (rule map_range_wf [OF wf0])
  have wf2: "pd_wf s2 pd" unfolding s2_def by (rule identity_map_wf [OF wf1])
  have wf3: "pd_wf s3 pd" unfolding s3_def by (rule identity_map_wf [OF wf2])
  have wf4: "pd_wf s4 pd" unfolding s4_def by (rule identity_map_wf [OF wf3])
  have low: "unchanged_outside (unat ?d) 0x500000 s y"
    if "unchanged_outside (unat ?d) 0x500000 s x" "unchanged_outside 0x100000 0x500000 x y" for x y
    using unchanged_trans [OF that(1) unchanged_mono [OF that(2) d(2) order_refl]] .
  have u0: "unchanged_outside (unat ?d) 0x500000 s s0" unfolding s0_def by (rule pd_init_unchanged [OF d])
  have u3: "unchanged_outside (unat ?d) 0x500000 s s3"
    unfolding s3_def s2_def s1_def
    by (rule low [OF low [OF low [OF u0 map_range_unchanged [OF wf0]] identity_map_unchanged [OF wf1 [unfolded s1_def]]]
          identity_map_unchanged [OF wf2 [unfolded s2_def s1_def]]])
  have u4: "unchanged_outside (unat ?d) 0x500000 s s4"
    unfolding s4_def by (rule low [OF u3 identity_map_unchanged [OF wf3]])
  have end_fb: "unat (fb_framebuffer fb + fb_size fb) = unat (fb_framebuffer fb) + unat (fb_size fb)"
    using assms(4) by (intro u32_plus_no_wrap) simp
  have "walk s4 pd w = (if fb_page vbe s (unat w div 4096) \<or> unat w div 4096 < 0x500 then Some w
      else if kernel_page (unat w div 4096) then Some (w - KERNEL_VMA) else None)" for w
  proof -
    have "walk s0 pd w = None" using pd_init_pte [OF d(1), of s w] unfolding walk_pte [OF wf0]
      by (simp add: assms(3) flip: s0_def)
    then have "walk s1 pd w = (if kernel_page (unat w div 4096) then Some (w - KERNEL_VMA) else None)"
      unfolding s1_def using walk_kernel [OF wf0, of w] by simp
    then have "walk s3 pd w = (if unat w div 4096 < 0x500 then Some w
        else if kernel_page (unat w div 4096) then Some (w - KERNEL_VMA) else None)"
      unfolding s3_def using walk_identity [OF wf2, of "0x500000" "0x100000" w]
        walk_identity [OF wf1, of "0x100000" 0 w, folded s2_def] by simp
    then show ?thesis
      unfolding s4_def
      using walk_identity [OF wf3, of "fb_framebuffer fb + fb_size fb" "fb_framebuffer fb" w] assms(4)
      by (simp add: end_fb fb_page_def Let_def flip: assms(2))
  qed
  moreover have "pd_init ?d s = (pd, s0)" by (simp add: s0_def prod_eq_iff assms(3))
  ultimately show ?thesis using that [OF _ s3_def [unfolded s2_def s1_def] s4_def u3 u4 wf4] by blast
qed

lemma platform_map_effect:
  assumes "boot_layout vbe bi s" "platform_map vbe bi s = (pd, mmap, t)"
    and "unat (fb_framebuffer (get_framebuffer_info vbe s)) + unat (fb_size (get_framebuffer_info vbe s)) \<le> 4294963200"
  shows "pd = \<lparr>entries = bi_page_directory s bi\<rparr>" "mmap = boot_mmap bi s" "pd_wf t pd"
    "unchanged_outside (unat (bi_page_directory s bi)) 0x500000 s t"
    "walk t pd w = boot_translation vbe bi s w"
    "cr3 t = bi_page_directory s bi" "bit (cr0 t) 31" "\<not> bit (cr4 t) 4"
proof -
  let ?d = "bi_page_directory s bi" let ?pd = "\<lparr>entries = ?d\<rparr>"
  obtain s0 s3 s4 where init: "pd_init ?d s = (?pd, s0)"
    and steps: "s3 = identity_map_range ?pd 0x100000 0x500000 (identity_map_range ?pd 0 0x100000 (map_range ?pd KERNEL_VMA 0 0x400000 s0))"
      "s4 = identity_map_range ?pd (fb_framebuffer (get_framebuffer_info vbe s))
        (fb_framebuffer (get_framebuffer_info vbe s) + fb_size (get_framebuffer_info vbe s)) s3"
    and u3: "unchanged_outside (unat ?d) 0x500000 s s3" and u4: "unchanged_outside (unat ?d) 0x500000 s s4"
    and wf4: "pd_wf s4 ?pd"
    and walk4: "\<And>w. walk s4 ?pd w = (if fb_page vbe s (unat w div 4096) \<or> unat w div 4096 < 0x500 then Some w
      else if kernel_page (unat w div 4096) then Some (w - KERNEL_VMA) else None)"
    by (rule platform_low_map [OF assms(1) refl refl assms(3)]) blast
  define s5 where "s5 = identity_map_usable (boot_mmap bi s) ?pd s4"
  have ml: "mm_low (boot_mmap bi s)"
    using assms(1) by (simp add: boot_layout_def boot_mmap_def mm_init_def mm_low_def)
  note us = map_usable_prefix [OF wf4 ml order_refl, folded identity_map_usable_def, folded s5_def]
  have "platform_map vbe bi s = (?pd, boot_mmap bi s, pd_enable ?pd s5)"
    using boot_info_low [OF u3 assms(1)] boot_info_low [OF u4 assms(1)] init
    by (simp add: platform_map_def steps s5_def boot_mmap_def Let_def)
  with assms(2) have e: "pd = ?pd" "mmap = boot_mmap bi s" "t = pd_enable ?pd s5" by auto
  then show "pd = ?pd" "mmap = boot_mmap bi s" by simp_all
  show "pd_wf t pd" using us by (simp add: e walk_unchanged_regs)
  have "unchanged_outside 0x100000 0x500000 s4 s5" using us by blast
  then have "unchanged_outside (unat ?d) 0x500000 s4 s5"
    by (rule unchanged_mono) (use assms(1) in \<open>simp_all add: boot_layout_def\<close>)
  then have "unchanged_outside (unat ?d) 0x500000 s s5" by (rule unchanged_trans [OF u4])
  then show "unchanged_outside (unat ?d) 0x500000 s t"
    unfolding e unchanged_outside_def walk_unchanged_regs .
  show "cr3 t = ?d" "bit (cr0 t) 31" "\<not> bit (cr4 t) 4" by (simp_all add: e walk_unchanged_regs)
  show "walk t pd w = boot_translation vbe bi s w"
    using us walk4 boot_info_low(4) [OF u4 assms(1)]
    by (simp add: e walk_unchanged_regs boot_translation_def usable_page_def Let_def boot_mmap_def mm_init_def cong: conj_cong)
qed

section \<open>Staying mapped\<close>

text \<open>A framebuffer outside the five pages that the test of the virtual memory manager maps.\<close>

definition fb_apart :: "framebuffer_info \<Rightarrow> bool" where
  "fb_apart fb \<longleftrightarrow> unat (fb_framebuffer fb) + unat (fb_pitch fb) * unat (fb_height fb) \<le> 0xD0000000 \<or>
     0xD0005000 \<le> unat (fb_framebuffer fb)"

lemma directI:
  assumes "\<And>k. lo div 4096 \<le> k \<Longrightarrow> k < (hi + 4095) div 4096 \<Longrightarrow> walk s pd (page_addr k) = Some (page_addr k)"
  shows "direct pd lo hi s"
  using assms by (simp add: direct_def)

lemma direct_mono:
  assumes "direct pd lo hi s"
    and "\<And>k. lo div 4096 \<le> k \<Longrightarrow> k < (hi + 4095) div 4096 \<Longrightarrow>
      walk t pd (page_addr k) = walk s pd (page_addr k) \<or> walk t pd (page_addr k) = Some (page_addr k)"
  shows "direct pd lo hi t"
  using assms unfolding direct_def by (metis atLeastLessThan_iff)

text \<open>
  Changes of the page tables that do not disturb the kernel: pages that are mapped to themselves,
  outside the range of the kernel, and anything in the first pages of the region of the virtual
  memory manager.
\<close>

lemma paging_ok_keep:
  assumes ok: "paging_ok vbe pd s" and fb: "get_framebuffer_info vbe s = fb" "get_framebuffer_info vbe t = fb"
      "unat (fb_framebuffer fb) + unat (fb_pitch fb) * unat (fb_height fb) \<le> 4294967296" "fb_apart fb"
    and same: "\<And>w. \<not> (0xD0000 \<le> unat w div 4096 \<and> unat w div 4096 < 0xD0005) \<Longrightarrow>
      walk t pd w = walk s pd w \<or> (\<not> kernel_page (unat w div 4096) \<and> walk t pd w = Some w)"
  shows "paging_ok vbe pd t"
proof -
  let ?hi = "unat (fb_framebuffer fb) + unat (fb_pitch fb) * unat (fb_height fb)"
  have same': "walk t pd (page_addr k) = walk s pd (page_addr k) \<or>
      (\<not> kernel_page k \<and> walk t pd (page_addr k) = Some (page_addr k))" if "\<not> (0xD0000 \<le> k \<and> k < 0xD0005)" "k < 1048576" for k
    using same [of "page_addr k"] that by (simp add: unat_page_addr)
  have "kernel_mapped pd t"
    unfolding kernel_mapped_def
  proof
    fix k :: nat assume k: "k \<in> {0xC0000..<0xC0400}"
    then have "walk t pd (page_addr k) = walk s pd (page_addr k)" using same' [of k] by (auto simp: kernel_page_def)
    with ok k show "walk t pd (page_addr k) = Some (page_addr k - KERNEL_VMA)"
      by (simp add: paging_ok_def kernel_mapped_def)
  qed
  moreover have "direct pd 0 0x500000 t"
  proof (rule direct_mono)
    show "direct pd 0 0x500000 s" using ok by (simp add: paging_ok_def)
    fix k :: nat assume "k < (0x500000 + 4095) div 4096"
    then have "\<not> (0xD0000 \<le> k \<and> k < 0xD0005)" "k < 1048576" by simp_all
    then show "walk t pd (page_addr k) = walk s pd (page_addr k) \<or> walk t pd (page_addr k) = Some (page_addr k)"
      using same' by blast
  qed
  moreover have "direct pd (unat (fb_framebuffer fb)) ?hi t"
  proof (rule direct_mono)
    show "direct pd (unat (fb_framebuffer fb)) ?hi s"
      using ok by (simp add: paging_ok_def screen_mapped_def fb(1) Let_def)
    fix k assume k: "unat (fb_framebuffer fb) div 4096 \<le> k" "k < (?hi + 4095) div 4096"
    have "(?hi + 4095) div 4096 \<le> (4294967296 + 4095) div 4096" using fb(3) by (intro div_le_mono) simp
    then have "k < 1048576" using k(2) by simp
    moreover have "\<not> (0xD0000 \<le> k \<and> k < 0xD0005)"
    proof -
      have "(?hi + 4095) div 4096 \<le> (0xD0000000 + 4095) div 4096" if "?hi \<le> 0xD0000000"
        using that by (intro div_le_mono) simp
      moreover have "0xD0005000 div 4096 \<le> unat (fb_framebuffer fb) div 4096" if "0xD0005000 \<le> unat (fb_framebuffer fb)"
        using that by (intro div_le_mono)
      ultimately show ?thesis using fb(4) k by (auto simp: fb_apart_def)
    qed
    ultimately show "walk t pd (page_addr k) = walk s pd (page_addr k) \<or> walk t pd (page_addr k) = Some (page_addr k)"
      using same' by blast
  qed
  ultimately show ?thesis by (simp add: paging_ok_def screen_mapped_def fb(2) Let_def)
qed

text \<open>What the translation of \<open>platform_map\<close> has to give.\<close>

lemma paging_ok_boot:
  assumes w: "\<And>w. walk s pd w = boot_translation vbe bi q w" and fb: "get_framebuffer_info vbe s = get_framebuffer_info vbe q"
    and kp: "\<And>k. kernel_page k \<Longrightarrow> \<not> usable_page bi q k \<and> \<not> fb_page vbe q k"
    and sz: "unat (fb_pitch (get_framebuffer_info vbe q)) * unat (fb_height (get_framebuffer_info vbe q))
        \<le> unat (fb_size (get_framebuffer_info vbe q))"
      "unat (fb_framebuffer (get_framebuffer_info vbe q)) + unat (fb_size (get_framebuffer_info vbe q)) \<le> 4294963200"
  shows "paging_ok vbe pd s"
proof -
  let ?fb = "get_framebuffer_info vbe q"
  let ?hi = "unat (fb_framebuffer ?fb) + unat (fb_pitch ?fb) * unat (fb_height ?fb)"
  have "kernel_mapped pd s"
    unfolding kernel_mapped_def
  proof
    fix k :: nat assume k: "k \<in> {0xC0000..<0xC0400}"
    then have "kernel_page k" "\<not> k < 0x500" "unat (page_addr k) div 4096 = k" by (auto simp: kernel_page_def unat_page_addr)
    with kp [of k] show "walk s pd (page_addr k) = Some (page_addr k - KERNEL_VMA)"
      by (simp add: w boot_translation_def Let_def)
  qed
  moreover have "direct pd 0 0x500000 s"
    by (rule directI) (simp add: w boot_translation_def Let_def unat_page_addr)
  moreover have "direct pd (unat (fb_framebuffer ?fb)) ?hi s"
  proof (rule directI)
    fix k assume k: "unat (fb_framebuffer ?fb) div 4096 \<le> k" "k < (?hi + 4095) div 4096"
    have "(?hi + 4095) div 4096 \<le> (unat (fb_framebuffer ?fb) + unat (fb_size ?fb) + 4095) div 4096"
      using sz(1) by (intro div_le_mono) simp
    then have f: "k < (unat (fb_framebuffer ?fb) + unat (fb_size ?fb) + 4095) div 4096" using k(2) by linarith
    have "(unat (fb_framebuffer ?fb) + unat (fb_size ?fb) + 4095) div 4096 \<le> (4294963200 + 4095) div 4096"
      using sz(2) by (intro div_le_mono) simp
    then have "k < 1048576" using f by simp
    then have "unat (page_addr k) div 4096 = k" by (simp add: unat_page_addr)
    with k(1) f show "walk s pd (page_addr k) = Some (page_addr k)"
      by (simp add: w boot_translation_def fb_page_def Let_def)
  qed
  ultimately show ?thesis by (simp add: paging_ok_def screen_mapped_def fb Let_def)
qed

section \<open>Properties\<close>

text \<open>A boot information block at \<open>0x7000\<close>, the video mode at \<open>0x8000\<close> and one usable region,
\<open>0x100000\<close> to \<open>0x800000\<close>, in the table at \<open>0x9000\<close>; the text \<^verbatim>\<open>TEST\<close> is at \<open>0xA000\<close>.\<close>

definition plat_machine :: machine where
  "plat_machine = screen_machine\<lparr>mem := (mem screen_machine)(0x7001 := 0x90, 0x7004 := 1,
     0x7009 := 0xC0, 0x700A := 0x09, 0x9002 := 0x10, 0x900A := 0x70, 0x9010 := 1,
     0xA000 := 0x54, 0xA001 := 0x45, 0xA002 := 0x53, 0xA003 := 0x54)\<rparr>"

lemma plat_machine_layout: "boot_layout 0x8000 0x7000 plat_machine"
  "get_framebuffer_info 0x8000 plat_machine = mode_1024"
  by (simp_all add: boot_layout_def bi_page_directory_def bi_e820_map_def bi_e820_entry_count_def rd32_def load32_def
      plat_machine_def screen_machine_def blank_machine_def get_framebuffer_info_eq rd16_def rd8_def load8_def mode_1024_def)

text \<open>C9. When \<open>platform_init\<close> turns paging on with the new directory, an address translates to
itself if its page meets a usable E820 region or the (rounded) framebuffer or lies below five
megabytes, else \<open>0xC0000000\<close> to \<open>0xC03FFFFF\<close> translate to the first four megabytes, and nothing
else is mapped; the new directory is in CR3, paging is on and page size extension off.  So the
kernel's own mapping is the intended one exactly when no usable region and no framebuffer page
lies at \<open>0xC0000000\<close> to \<open>0xC03FFFFF\<close>.\<close>

theorem platform_map_spec:
  assumes "boot_layout vbe bi s" "platform_map vbe bi s = (pd, mmap, t)"
    and "unat (fb_framebuffer (get_framebuffer_info vbe s)) + unat (fb_size (get_framebuffer_info vbe s)) \<le> 0xFFFFF000"
  shows "pd_wf t pd \<and> cr3 t = entries pd \<and> bit (cr0 t) 31 \<and> \<not> bit (cr4 t) 4 \<and>
    unchanged_outside (unat (entries pd)) 0x500000 s t \<and> walk t pd w = boot_translation vbe bi s w \<and>
    (kernel_page (unat w div 4096) \<longrightarrow> (walk t pd w = Some (w - KERNEL_VMA) \<longleftrightarrow>
       \<not> usable_page bi s (unat w div 4096) \<and> \<not> fb_page vbe s (unat w div 4096)))"
proof -
  have b: "unat (fb_framebuffer (get_framebuffer_info vbe s)) + unat (fb_size (get_framebuffer_info vbe s)) \<le> 4294963200"
    using assms(3) by simp
  note e = platform_map_effect [OF assms(1,2) b]
  have "w \<noteq> w - KERNEL_VMA" by simp
  then show ?thesis
    using e by (auto simp: boot_translation_def Let_def kernel_page_def)
qed

theorem platform_map_spec_witness:
  "case platform_map 0x8000 0x7000 plat_machine of (pd, mmap, t) \<Rightarrow>
     entries pd = 0x9C000 \<and> walk t pd 0x1234 = Some 0x1234"
proof -
  obtain pd mmap t where e: "platform_map 0x8000 0x7000 plat_machine = (pd, mmap, t)" by (metis prod_cases3)
  have d: "bi_page_directory plat_machine 0x7000 = 0x9C000"
    by (simp add: bi_page_directory_def rd32_def load32_def plat_machine_def screen_machine_def)
  have "unat (fb_framebuffer mode_1024) + unat (fb_size mode_1024) \<le> 0xFFFFF000" by (simp add: mode_1024_def)
  then have "walk t pd 0x1234 = boot_translation 0x8000 0x7000 plat_machine 0x1234"
    using platform_map_spec [OF plat_machine_layout(1) e, of "0x1234"] by (simp add: plat_machine_layout(2))
  moreover have "entries pd = 0x9C000"
    using e d by (auto simp: platform_map_def Let_def pd_init_def)
  ultimately show ?thesis by (simp add: e boot_translation_def Let_def)
qed

end
