(* ===== verification/Boot.thy ===== *)
theory Boot
  imports Platform
begin

text \<open>
  The whole of \<^verbatim>\<open>platform_init\<close>: it returns, its own test of the virtual memory manager passes, and
  the invariants of all components hold together afterwards.  The lemmas say what each step
  leaves alone: the memory managers do not touch the first megabyte (\<open>low_kept\<close>), text output
  does not touch the managers' data (\<open>vmm_draws\<close>).
\<close>

section \<open>The first megabyte\<close>

definition low_kept :: "machine \<Rightarrow> machine \<Rightarrow> bool" where
  "low_kept s t \<longleftrightarrow> unchanged_outside 0x100000 4294967296 s t"

lemma low_kept_refl [simp]: "low_kept s s"
  by (simp add: low_kept_def)

lemma low_kept_trans [trans]: "low_kept s t \<Longrightarrow> low_kept t u \<Longrightarrow> low_kept s u"
  unfolding low_kept_def by (rule unchanged_trans)

lemma low_keptI: "unchanged_outside lo hi s t \<Longrightarrow> 0x100000 \<le> lo \<Longrightarrow> hi \<le> 4294967296 \<Longrightarrow> low_kept s t"
  unfolding low_kept_def by (rule unchanged_mono)

lemma tables_low: "vmm_ok v s \<Longrightarrow> tables_only v s t \<Longrightarrow> low_kept s t"
  using vmm_okD(7) [of v s] by (auto simp: low_kept_def unchanged_outside_def tables_only_def)

lemma alloc_pages_low:
  assumes "vmm_ok v s" "n \<noteq> 0" "unat n \<le> card (free_frames v s)"
  shows "low_kept s (snd (alloc_pages v n s))"
  by (rule tables_low [OF assms(1) alloc_pages_tables [OF assms]])

lemma free_pages_low:
  assumes "vmm_ok v s" "k + unat n \<le> 131072" "n \<noteq> 0" "length fs = unat n" "distinct fs"
    "set fs \<subseteq> {0<..<scanned (vfa v)}"
    "\<forall>i < unat n. pte s (page_addr (region_page + k + i)) = page_addr (fs ! i) OR 3"
  shows "low_kept s (free_pages v (page_addr (region_page + k)) n s)"
  by (rule tables_low [OF assms(1) free_pages_tables [OF assms]])

lemma heap_init_low:
  assumes "fa_ok fa s" "pd_wf s pd" "unat (entries pd) + 4096 \<le> 0x100000"
    and "n + m \<le> scanned fa" "\<forall>k < n. fa_used s k" "\<forall>k. n \<le> k \<and> k < n + m \<longrightarrow> \<not> fa_used s k"
    and "0 < m" "fa_end fa \<le> 4096 * n" "n + m < 1048576"
  shows "low_kept s (snd (heap_init fa pd (of_nat m) s))"
proof -
  let ?u = "snd (alloc_many (alloc_frame fa) m s)"
  have fa: "fa_wf fa" using assms(1) by (simp add: fa_ok_def)
  have run: "fst (alloc_many (alloc_frame fa) m s) = map page_addr [n..<n + m]"
    using fp.alloc_many_run [OF assms(1,4-6)] by simp
  have lo: "0x500000 < 4096 * n" "fa_end fa \<le> 0x520000" using fa_end_bounds [OF fa] assms by linarith+
  have su: "unchanged_outside 0x500000 (fa_end fa) s ?u" by (rule alloc_many_unchanged [OF fa])
  have wu: "pd_wf ?u pd" using pd_wf_unchanged [OF assms(2) su] assms(3) by simp
  have un: "unat (page_addr n) = 4096 * n" using assms by (simp add: unat_page_addr)
  have lim: "unat (page_addr n) + 12 \<le> 4294967296" using assms(8,9) by (simp add: un)
  have "low_kept s ?u" by (rule low_keptI [OF su]) (use lo in simp_all)
  also have "low_kept ?u (identity_map_range pd (page_addr n) (page_addr (n + m)) ?u)"
    by (rule low_keptI [OF identity_map_unchanged [OF wu]]) simp_all
  also have "low_kept \<dots> (snd (heap_init fa pd (of_nat m) s))"
    using heap_init_eq [OF run, of n m pd] assms(7-9) un lo
    by (auto intro!: low_keptI [OF one_block(4) [OF lim]])
  finally show ?thesis .
qed

lemma vmm_init_low:
  assumes "fa_ok fa s" "pd_wf s pd" "unat (entries pd) + 4096 \<le> 0x100000"
    and "n + 4 \<le> scanned fa" "\<forall>k < n. fa_used s k" "\<forall>k. n \<le> k \<and> k < n + 4 \<longrightarrow> \<not> fa_used s k"
    and "fa_end fa \<le> 4096 * n" "n + 4 < 1048576"
  shows "low_kept s (snd (vmm_init fa pd s))" "vbitmap (fst (vmm_init fa pd s)) = page_addr n"
proof -
  let ?u = "snd (alloc_many (alloc_frame fa) 4 s)"
  let ?x = "identity_map_range pd (page_addr n) (page_addr (n + 4)) ?u"
  have fa: "fa_wf fa" using assms(1) by (simp add: fa_ok_def)
  have run: "fst (alloc_many (alloc_frame fa) 4 s) = map page_addr [n..<n + 4]"
    using fp.alloc_many_run [OF assms(1,4-6)] by simp
  note e = vmm_init_eq [OF run, of pd]
  have lo: "0x500000 < 4096 * n" "fa_end fa \<le> 0x520000" using fa_end_bounds [OF fa] assms by linarith+
  have su: "unchanged_outside 0x500000 (fa_end fa) s ?u" by (rule alloc_many_unchanged [OF fa])
  have wu: "pd_wf ?u pd" using pd_wf_unchanged [OF assms(2) su] assms(3) by simp
  have un: "unat (page_addr n) = 4096 * n" using assms by (simp add: unat_page_addr)
  have "low_kept s ?u" by (rule low_keptI [OF su]) (use lo in simp_all)
  also have "low_kept ?u ?x" by (rule low_keptI [OF identity_map_unchanged [OF wu]]) simp_all
  also have "low_kept ?x (zero_memory (page_addr n) 0x4000 ?x)"
    unfolding zero_memory_def using assms(7,8) un lo
    by (intro low_keptI [OF unchanged_fill_bytes [of "4096 * n" _ _ "4096 * n + 0x4000"]]) simp_all
  finally show "low_kept s (snd (vmm_init fa pd s))" using e by simp
  show "vbitmap (fst (vmm_init fa pd s)) = page_addr n" using e by simp
qed

section \<open>Text output and the memory managers\<close>

text \<open>A framebuffer out of the way of the tables, the frame bitmap and the page bitmap.\<close>

definition fb_clear :: "framebuffer_info \<Rightarrow> vmm \<Rightarrow> bool" where
  "fb_clear fb v \<longleftrightarrow> 0x520000 \<le> unat (fb_framebuffer fb) \<and>
     (unat (fb_framebuffer fb) + unat (fb_pitch fb) * unat (fb_height fb) \<le> unat (vbitmap v) \<or>
      unat (vbitmap v) + 16384 \<le> unat (fb_framebuffer fb))"

definition same_memory :: "vmm \<Rightarrow> machine \<Rightarrow> machine \<Rightarrow> bool" where
  "same_memory v s t \<longleftrightarrow> vmm_ok v t \<and> (\<forall>w. pte t w = pte s w) \<and>
     (\<forall>k < scanned (vfa v). fa_used t k = fa_used s k) \<and> (\<forall>j < 131072. vused v t j = vused v s j)"

lemma same_memory_trans [trans]: "same_memory v s t \<Longrightarrow> same_memory v t u \<Longrightarrow> same_memory v s u"
  by (simp add: same_memory_def)

lemma same_memory_free: "same_memory v s t \<Longrightarrow> vmm_ok v s \<Longrightarrow> free_frames v t = free_frames v s"
  using vmm_okD(4) [of v s] by (auto simp: same_memory_def free_frames_def)

lemma vmm_draws:
  assumes "vmm_ok v s" "draws vbe fb s t" "fb_clear fb v"
  shows "same_memory v s t" "low_kept s t"
proof -
  have u: "unchanged_outside (unat (fb_framebuffer fb))
      (unat (fb_framebuffer fb) + unat (fb_pitch fb) * unat (fb_height fb)) s t" "fb_ok vbe fb t"
    using assms(2) by (simp_all add: draws_def)
  moreover have "fa_end (vfa v) \<le> unat (fb_framebuffer fb)"
    using fa_end_bounds [OF vmm_okD(2) [OF assms(1)]] assms(3) by (simp add: fb_clear_def)
  ultimately show "same_memory v s t" "low_kept s t"
    using vmm_other_change [OF assms(1) u(1)] assms(3) low_keptI [OF u(1)]
    by (auto simp: same_memory_def fb_clear_def fb_ok_def)
qed

lemma fb_ok_low:
  assumes "fb_ok vbe fb s" "low_kept s t" "unat vbe + 44 \<le> 0x100000"
  shows "fb_ok vbe fb t"
  using fb_info_low [OF assms(2) [unfolded low_kept_def] assms(3)] assms(1) by (simp add: fb_ok_def)

text \<open>One line of formatted output.\<close>

lemma kprintf_line:
  assumes "fb_ok vbe fb (hw t)" "\<exists>str. format_text fmt args = Some str" "\<forall>a \<in> set args. arg_plain a"
  obtains str u where "format_text fmt args = Some str" "kprintf vbe fmt args t = Some u"
    "u = fold (kputc vbe) str t" "draws vbe fb (hw t) (hw u)"
proof -
  obtain str where str: "format_text fmt args = Some str" using assms(2) by blast
  note k = kprintf_text [OF str assms(3), of vbe t]
  from that [OF str k refl kprintf_draws [OF k assms(1)]] show ?thesis .
qed

lemma paging_ok_same:
  assumes "paging_ok vbe (vpd v) s" "same_memory v s t" "vmm_ok v s" "fb_ok vbe fb s" "fb_ok vbe fb t" "fb_apart fb"
  shows "paging_ok vbe (vpd v) t"
proof (rule paging_ok_keep [OF assms(1)])
  show "get_framebuffer_info vbe s = fb" "get_framebuffer_info vbe t = fb"
    "unat (fb_framebuffer fb) + unat (fb_pitch fb) * unat (fb_height fb) \<le> 4294967296" "fb_apart fb"
    using assms by (simp_all add: fb_ok_def)
  show "walk t (vpd v) w = walk s (vpd v) w \<or> \<not> kernel_page (unat w div 4096) \<and> walk t (vpd v) w = Some w" for w
    using assms(2) by (simp add: same_memory_def walk_pte [OF vmm_okD(3) [OF assms(3)]] walk_pte [OF vmm_okD(3)])
qed

lemma print_step:
  assumes "vmm_ok v (hw t)" "fb_ok vbe fb (hw t)" "fb_clear fb v" "\<exists>str. format_text fmt args = Some str"
    "\<forall>a \<in> set args. arg_plain a" "paging_ok vbe (vpd v) (hw t)" "fb_apart fb"
  obtains str u where "format_text fmt args = Some str" "kprintf_paged vbe (vpd v) fmt args t = Some u"
    "u = fold (kputc vbe) str t" "same_memory v (hw t) (hw u)" "low_kept (hw t) (hw u)" "fb_ok vbe fb (hw u)"
    "paging_ok vbe (vpd v) (hw u)"
proof -
  obtain str u where u: "format_text fmt args = Some str" "kprintf vbe fmt args t = Some u"
      "u = fold (kputc vbe) str t" "draws vbe fb (hw t) (hw u)"
    by (rule kprintf_line [OF assms(2,4,5)])
  note m = vmm_draws [OF assms(1) u(4) assms(3)] draws_ok [OF u(4)]
  have "paging_ok vbe (vpd v) (hw u)" by (rule paging_ok_same [OF assms(6) m(1) assms(1,2) m(3) assms(7)])
  with that [OF u(1) _ u(3) m] u(2) assms(6) show ?thesis by (simp add: kprintf_paged_def)
qed

lemma int_args_plain [simp]: "arg_plain (IntArg v)"
  by (simp add: arg_plain_def)

lemma boot_formats:
  "\<exists>str. format_text (bytes ''vmm alloc(1) = 0x%x'' @ [ch_nl]) [IntArg a] = Some str"
  "\<exists>str. format_text (bytes ''vmm alloc(4) = 0x%x'' @ [ch_nl]) [IntArg a] = Some str"
  "\<exists>str. format_text (bytes ''Wrote 0x%x to p1'' @ [ch_nl]) [IntArg a] = Some str"
  "\<exists>str. format_text (bytes ''Freed p1, re-alloc(1) = 0x%x (should be 0x%x)'' @ [ch_nl]) [IntArg a, IntArg b] = Some str"
  "\<exists>str. format_text (bytes ''platform_init is at: 0x%x'' @ [ch_nl]) [IntArg a] = Some str"
  by simp_all

text \<open>An allocation at a known place.\<close>

lemma alloc_at:
  assumes "vmm_ok v s" "n \<noteq> 0" "unat n \<le> card (free_frames v s)"
    and "free_run v s (unat n) k" "\<forall>j < k. \<not> free_run v s (unat n) j"
  obtains fs t where "alloc_pages v n s = (page_addr (region_page + k), t)" "vmm_ok v t" "low_kept s t"
      "length fs = unat n" "distinct fs" "set fs \<subseteq> free_frames v s" "backed v (region_page + k) fs s t"
      "\<forall>j < scanned (vfa v). fa_used t j \<longleftrightarrow> j \<in> set fs \<or> fa_used s j"
      "\<forall>j < 131072. vused v t j \<longleftrightarrow> (k \<le> j \<and> j < k + unat n) \<or> vused v s j"
  using assms(1-3)
proof (cases rule: alloc_pages_run [of v s n])
  case none
  with assms(4) show ?thesis by blast
next
  case (range k' fs t)
  have "k' = k" using range(1,2) assms(4,5) by (metis linorder_neqE_nat)
  with range(3-) alloc_pages_low [OF assms(1-3)] that show ?thesis by auto
qed

section \<open>The managers after their initialisation\<close>

text \<open>
  The first 25 frames that are usable and not reserved are consecutive, from frame \<open>n\<close> on: 16
  for the heap, 4 for the page bitmap, 5 for the pages of the test.
\<close>

definition first_frames :: "memory_map \<Rightarrow> machine \<Rightarrow> nat \<Rightarrow> bool" where
  "first_frames mm s n \<longleftrightarrow> reserved_frames (fst (fa_init mm s)) \<le> n \<and>
     n + 25 \<le> scanned (fst (fa_init mm s)) \<and>
     (\<forall>k. n \<le> k \<and> k < n + 25 \<longrightarrow> (\<exists>i < unat (mm_count mm). usable_frame (mm_entry s mm i) k)) \<and>
     (\<forall>k < n. reserved_frames (fst (fa_init mm s)) \<le> k \<longrightarrow>
        \<not> (\<exists>i < unat (mm_count mm). usable_frame (mm_entry s mm i) k))"

lemma reserved_end:
  assumes "0 < scanned fa" "reserved_frames fa \<le> n"
  shows "fa_end fa \<le> 4096 * n"
proof -
  have "4 * fa_words fa \<le> unat (bitmap_size fa)" using assms(1) by (simp add: fa_words_def scanned_def)
  also have "\<dots> \<le> 4096 * ((unat (bitmap_size fa) + 4095) div 4096)" by linarith
  finally show ?thesis using assms(2) by (simp add: fa_end_def reserved_frames_def)
qed

lemma managers_init:
  assumes "pd_wf s pd" "unat (entries pd) + 4096 \<le> 0x100000" "mm_low mm" "first_frames mm s n"
    and "direct pd 0x500000 (fa_touched (fst (fa_init mm s))) s"
  obtains v s3 where "managers_start pd mm s = Some (v, s3)" "vmm_ok v s3" "vpd v = pd" "vbitmap v = page_addr (n + 16)"
    "\<forall>j < 131072. \<not> vused v s3 j" "low_kept s s3" "n + 25 \<le> scanned (vfa v)"
    "\<forall>w. pte s3 w = (if n \<le> unat w div 4096 \<and> unat w div 4096 < n + 20
       then page_down w OR PG_PRESENT OR PG_WRITE else pte s w)"
    "\<forall>k < n + 20. fa_used s3 k" "\<forall>k. n + 20 \<le> k \<and> k < n + 25 \<longrightarrow> \<not> fa_used s3 k"
proof -
  obtain fa s1 where i1: "fa_init mm s = (fa, s1)" by fastforce
  obtain h s2 where i2: "heap_init fa pd (of_nat 16) s1 = (h, s2)" by fastforce
  obtain v s3 where i3: "vmm_init fa pd s2 = (v, s3)" by fastforce
  have wf: "fa_wf fa" using fa_init_wf [of mm s] i1 by simp
  have sc: "scanned fa \<le> 1048576" by (rule scanned_bound [OF wf])
  have n25: "n + 25 \<le> scanned fa" "reserved_frames fa \<le> n" using assms(4) by (simp_all add: first_frames_def i1)
  have ff: "fa_end fa \<le> 4096 * n" "n + 25 \<le> scanned fa" "n + 25 \<le> 1048576"
    using reserved_end [OF _ n25(2)] n25 sc by auto
  have used: "fa_used s1 k \<longleftrightarrow> k < reserved_frames fa \<or> \<not> (\<exists>i < unat (mm_count mm). usable_frame (mm_entry s mm i) k)"
    if "k < scanned fa" for k
    using fa_init_used [OF assms(3), of k s] that i1 by simp
  have u1: "\<forall>k < n. fa_used s1 k" "\<forall>k. n \<le> k \<and> k < n + 25 \<longrightarrow> \<not> fa_used s1 k"
    using assms(4) ff(2) used by (auto simp: first_frames_def i1)
  have un: "unchanged_outside 0x500000 0x520000 s s1" using fa_init_unchanged [OF assms(3), of s] i1 by simp
  have pd1: "pd_wf s1 pd" using pd_wf_unchanged [OF assms(1) un] assms(2) by simp
  have n0: "0 < n" using n25(2) by (simp add: reserved_frames_def)
  have ok1: "fa_ok fa s1" using u1(1) n0 wf by (simp add: fa_ok_def)
  have e: "unat (entries pd) + 4096 \<le> 0x500000" using assms(2) by simp
  have f1: "n + 16 \<le> scanned fa" "\<forall>k. n \<le> k \<and> k < n + 16 \<longrightarrow> \<not> fa_used s1 k" "0 < (16 :: nat)" "n + 16 < 1048576"
    using ff u1 by auto
  note r2 = heap_init_run [OF ok1 pd1 e f1(1) u1(1) f1(2,3) ff(1) f1(4) i2]
  have u2: "fa_used s2 k \<longleftrightarrow> k < n + 16 \<or> fa_used s1 k" if "k < scanned fa" for k
    using r2(5) [OF that] u1(1) by auto
  have ok2: "fa_ok fa s2" using wf u2 [of 0] ff by (simp add: fa_ok_def)
  have f2: "n + 16 + 4 \<le> scanned fa" "\<forall>k < n + 16. fa_used s2 k"
    "\<forall>k. n + 16 \<le> k \<and> k < n + 16 + 4 \<longrightarrow> \<not> fa_used s2 k" "fa_end fa \<le> 4096 * (n + 16)" "n + 16 + 4 < 1048576"
    using ff u1 u2 by auto
  note r3 = vmm_init_run [OF ok2 r2(3) assms(2) f2 i3]
  note l3 = vmm_init_low [OF ok2 r2(3) assms(2) f2]
  have "low_kept s s1" by (rule low_keptI [OF un]) simp_all
  also have "low_kept s1 s2"
    using heap_init_low [OF ok1 pd1 assms(2) f1(1) u1(1) f1(2,3) ff(1) f1(4)] i2 by simp
  also have "low_kept s2 s3" using l3(1) i3 by simp
  finally have low: "low_kept s s3" .
  have p3: "pte s3 w = (if n \<le> unat w div 4096 \<and> unat w div 4096 < n + 20
       then page_down w OR PG_PRESENT OR PG_WRITE else pte s w)" for w
    using r3(6) [of w] r2(4) [of w] pte_unchanged [OF un, of w] by auto
  have u3: "fa_used s3 k \<longleftrightarrow> k < n + 20 \<or> fa_used s1 k" if "k < scanned fa" for k
    using r3(5) [OF that] u2 [OF that] by auto
  have "\<forall>k < n + 20. fa_used s3 k" "\<forall>k. n + 20 \<le> k \<and> k < n + 25 \<longrightarrow> \<not> fa_used s3 k"
    using u3 u1(2) ff(2) by auto
  moreover have "managers_start pd mm s = Some (v, s3)"
  proof -
    have w2: "walk s2 pd (page_addr k) = Some (page_addr k)" if "n \<le> k" "k < n + 16" for k
      using r2(4) [of "page_addr k"] that ff(3) by (simp add: walk_pte [OF r2(3)] unat_page_addr page_simps)
    have w3: "walk s3 pd (page_addr k) = Some (page_addr k)" if "n + 16 \<le> k" "k < n + 20" for k
      using r3(6) [of "page_addr k"] that ff(3) r3(1,4)
      by (simp add: walk_pte unat_page_addr page_simps vmm_ok_def)
    have "direct pd (unat (head h)) (unat (head h) + 12) s2"
      using ff(3) by (intro directI w2) (simp_all add: r2(1) unat_page_addr)
    moreover have "direct pd (unat (vbitmap v)) (unat (vbitmap v) + 0x4000) s3"
      using ff(3) by (intro directI w3) (simp_all add: r3(7) unat_page_addr)
    ultimately show ?thesis
      using assms(5) i1 i2 i3 by (simp add: managers_start_def init_vmm_def)
  qed
  ultimately show ?thesis
    using that [of v s3] r3(1,3,4) l3(2) i3 r3(2) low p3 ff(2) by simp
qed

section \<open>The test of the virtual memory manager\<close>

definition fresh_vmm :: "vmm \<Rightarrow> machine \<Rightarrow> nat \<Rightarrow> bool" where
  "fresh_vmm v s n \<longleftrightarrow> vmm_ok v s \<and> vbitmap v = page_addr (n + 16) \<and> (\<forall>j < 131072. \<not> vused v s j) \<and>
     n + 25 \<le> scanned (vfa v) \<and> (\<forall>k < n + 20. fa_used s k) \<and>
     (\<forall>k. n + 20 \<le> k \<and> k < n + 25 \<longrightarrow> \<not> fa_used s k)"

lemma fresh_free:
  assumes "fresh_vmm v s n"
  shows "5 \<le> card (free_frames v s)"
proof -
  have "{n + 20..<n + 25} \<subseteq> free_frames v s" using assms by (auto simp: fresh_vmm_def free_frames_def)
  from card_mono [OF finite_free_frames this] show ?thesis by simp
qed

lemma backed_pte:
  assumes "backed v B fs s t"
  shows "\<not> (B \<le> unat w div 4096 \<and> unat w div 4096 < B + length fs) \<Longrightarrow> pte t w = pte s w"
    "B \<le> unat w div 4096 \<Longrightarrow> unat w div 4096 < B + length fs \<Longrightarrow>
       pte t w = page_addr (fs ! (unat w div 4096 - B)) OR 3"
  using assms by (auto simp: backed_def)

lemma two_backed:
  assumes "backed v region_page [f] s s4" "backed v (region_page + 1) gs s4 s5" "length gs = 4"
  shows "pte s5 (page_addr region_page) = page_addr f OR 3"
    "\<not> (region_page \<le> unat w div 4096 \<and> unat w div 4096 < region_page + 5) \<Longrightarrow> pte s5 w = pte s w"
    "region_page \<le> unat w div 4096 \<Longrightarrow> unat w div 4096 < region_page + 5 \<Longrightarrow> pte s5 w AND PG_PRESENT \<noteq> 0"
proof -
  have pg: "unat (page_addr region_page) div 4096 = region_page" by (simp add: unat_page_addr)
  have pr: "(page_addr x OR 3) AND 1 \<noteq> 0" for x by (simp add: flags_3)
  show "pte s5 (page_addr region_page) = page_addr f OR 3"
    using backed_pte(1) [OF assms(2), of "page_addr region_page"] backed_pte(2) [OF assms(1), of "page_addr region_page"]
    by (simp add: pg assms(3))
  show "pte s5 w = pte s w" if w: "\<not> (region_page \<le> unat w div 4096 \<and> unat w div 4096 < region_page + 5)"
  proof -
    have "pte s5 w = pte s4 w" by (rule backed_pte(1) [OF assms(2)]) (use w assms(3) in auto)
    also have "\<dots> = pte s w" by (rule backed_pte(1) [OF assms(1)]) (use w in auto)
    finally show ?thesis .
  qed
  show "pte s5 w AND PG_PRESENT \<noteq> 0" if w: "region_page \<le> unat w div 4096" "unat w div 4096 < region_page + 5"
  proof (cases "unat w div 4096 = region_page")
    case True
    then show ?thesis using backed_pte(1) [OF assms(2), of w] backed_pte(2) [OF assms(1), of w] pr by (simp add: assms(3))
  next
    case False
    then show ?thesis using backed_pte(2) [OF assms(2), of w] w pr by (simp add: assms(3))
  qed
qed

lemma two_allocs:
  assumes "fresh_vmm v s n"
  obtains f s4 s5 where "alloc_pages v 1 s = (page_addr region_page, s4)"
    "alloc_pages v 4 s4 = (page_addr (region_page + 1), s5)" "vmm_ok v s5" "low_kept s s5"
    "n + 20 \<le> f" "f < scanned (vfa v)" "pte s5 (page_addr region_page) = page_addr f OR 3"
    "\<forall>j < 131072. vused v s5 j \<longleftrightarrow> j < 5"
    "\<forall>w. \<not> (region_page \<le> unat w div 4096 \<and> unat w div 4096 < region_page + 5) \<longrightarrow> pte s5 w = pte s w"
    "\<forall>w. region_page \<le> unat w div 4096 \<and> unat w div 4096 < region_page + 5 \<longrightarrow> pte s5 w AND PG_PRESENT \<noteq> 0"
proof -
  from assms have ok: "vmm_ok v s" and nu: "\<forall>j < 131072. \<not> vused v s j" and us: "\<forall>k < n + 20. fa_used s k"
    by (auto simp: fresh_vmm_def)
  have c: "unat (1 :: u32) \<le> card (free_frames v s)" using fresh_free [OF assms] by simp
  have r0: "free_run v s (unat (1 :: u32)) 0" using nu pages_total [OF ok] by (simp add: free_run_def)
  obtain fs s4 where a: "alloc_pages v 1 s = (page_addr (region_page + 0), s4)" "vmm_ok v s4" "low_kept s s4"
      "length fs = unat (1 :: u32)" "set fs \<subseteq> free_frames v s" "backed v (region_page + 0) fs s s4"
      "\<forall>j < scanned (vfa v). fa_used s4 j \<longleftrightarrow> j \<in> set fs \<or> fa_used s j"
      "\<forall>j < 131072. vused v s4 j \<longleftrightarrow> (0 \<le> j \<and> j < 0 + unat (1 :: u32)) \<or> vused v s j"
    by (rule alloc_at [OF ok _ c r0]) simp_all
  obtain f where fs: "fs = [f]" using a(4) by (cases fs) simp_all
  have f: "f \<in> free_frames v s" using a(5) fs by simp
  then have f20: "n + 20 \<le> f" "f < scanned (vfa v)" using us by (auto simp: free_frames_def not_less [symmetric])
  have "free_frames v s4 = free_frames v s - {f}" using a(7) fs by (auto simp: free_frames_def)
  then have c4: "unat (4 :: u32) \<le> card (free_frames v s4)"
    using fresh_free [OF assms] f finite_free_frames [of v s] by simp
  have v4: "vused v s4 j \<longleftrightarrow> j = 0" if "j < 131072" for j using a(8) nu that by auto
  have r1: "free_run v s4 (unat (4 :: u32)) 1" "\<forall>j < 1. \<not> free_run v s4 (unat (4 :: u32)) j"
    using v4 pages_total [OF ok] by (auto simp: free_run_def)
  obtain gs s5 where b: "alloc_pages v 4 s4 = (page_addr (region_page + 1), s5)" "vmm_ok v s5" "low_kept s4 s5"
      "length gs = unat (4 :: u32)" "backed v (region_page + 1) gs s4 s5"
      "\<forall>j < 131072. vused v s5 j \<longleftrightarrow> (1 \<le> j \<and> j < 1 + unat (4 :: u32)) \<or> vused v s4 j"
    by (rule alloc_at [OF a(2) _ c4 r1]) simp_all
  have fs': "backed v region_page [f] s s4" "length gs = 4" using a(6) b(4) by (simp_all add: fs)
  note p = two_backed [OF fs'(1) b(5) fs'(2)]
  have "\<forall>j < 131072. vused v s5 j \<longleftrightarrow> j < 5" using b(6) v4 by auto
  with that [of s4 s5 f] a(1) b(1,2) low_kept_trans [OF a(3) b(3)] f20 p show ?thesis by simp
qed

lemma free_and_realloc:
  assumes "vmm_ok v s" "pte s (page_addr region_page) = page_addr f OR 3" "0 < f" "f < scanned (vfa v)"
    and "\<forall>j < 131072. vused v s j \<longleftrightarrow> j < 5"
  obtains t where "alloc_pages v 1 (free_pages v (page_addr region_page) 1 s) = (page_addr region_page, t)"
    "vmm_ok v t" "low_kept s t" "\<forall>w. unat w div 4096 \<noteq> region_page \<longrightarrow> pte t w = pte s w"
    "\<forall>w. unat w div 4096 = region_page \<longrightarrow> pte t w AND PG_PRESENT \<noteq> 0"
proof -
  let ?u = "free_pages v (page_addr (region_page + 0)) 1 s"
  have h: "0 + unat (1 :: u32) \<le> 131072" "(1 :: u32) \<noteq> 0" "length [f] = unat (1 :: u32)" "distinct [f]"
    "set [f] \<subseteq> {0<..<scanned (vfa v)}"
    "\<forall>i < unat (1 :: u32). pte s (page_addr (region_page + 0 + i)) = page_addr ([f] ! i) OR 3"
    using assms(2-4) by simp_all
  note r = free_pages_run [OF assms(1) h]
  have "f \<in> free_frames v ?u" using r(3) assms(4) by (simp add: free_frames_def)
  then have "0 < card (free_frames v ?u)" using finite_free_frames [of v ?u] by (auto simp: card_gt_0_iff)
  then have c: "unat (1 :: u32) \<le> card (free_frames v ?u)" by simp
  have "free_run v ?u (unat (1 :: u32)) 0" using r(4) [of 0] pages_total [OF assms(1)] by (simp add: free_run_def)
  then obtain fs t where a: "alloc_pages v 1 ?u = (page_addr (region_page + 0), t)" "vmm_ok v t" "low_kept ?u t"
      "length fs = unat (1 :: u32)" "backed v (region_page + 0) fs ?u t"
    by (rule alloc_at [OF r(1) h(2) c]) simp_all
  have l: "length fs = 1" using a(4) by simp
  have pr: "(page_addr x OR 3) AND 1 \<noteq> 0" for x by (simp add: flags_3)
  show ?thesis
  proof (rule that [of t])
    show "low_kept s t" by (rule low_kept_trans [OF free_pages_low [OF assms(1) h] a(3)])
    show "\<forall>w. unat w div 4096 \<noteq> region_page \<longrightarrow> pte t w = pte s w"
      using backed_pte(1) [OF a(5)] r(2) by (simp add: l)
    show "\<forall>w. unat w div 4096 = region_page \<longrightarrow> pte t w AND PG_PRESENT \<noteq> 0"
      using backed_pte(2) [OF a(5)] pr by (simp add: l)
  qed (use a in simp_all)
qed

text \<open>Writing to the first page and reading it back.\<close>

lemma write_first_page:
  assumes "vmm_ok v s" "vbitmap v = page_addr (n + 16)" "n + 20 \<le> f" "f < scanned (vfa v)"
    and "pte s (page_addr region_page) = page_addr f OR 3"
  obtains u where "wr_virt (vpd v) (page_addr region_page) x s = Some u"
    "rd_virt (vpd v) (page_addr region_page) u = Some x" "same_memory v s u" "low_kept s u"
proof -
  let ?a = "page_addr region_page" and ?u = "wr32 s (page_addr f) x"
  have sc: "f < 1048576" using vmm_okD(4) [OF assms(1)] assms(4) by simp
  have un: "unat (page_addr f) = 4096 * f" "unat (page_addr (n + 16)) = 4096 * (n + 16)"
    using sc assms(3) by (simp_all add: unat_page_addr)
  have a: "?a AND 0xFFF = 0" by (simp add: page_addr_def)
  have w: "walk q (vpd v) ?a = Some (page_addr f)" if "pd_wf q (vpd v)" "pte q ?a = page_addr f OR 3" for q
    using that a by (simp add: walk_pte flags_3 page_simps)
  have u: "unchanged_outside (4096 * f) (4096 * f + 4) s ?u"
    using sc un by (intro unchanged_wr32) simp_all
  have vb: "unat (vbitmap v) + 16384 \<le> 4096 * f" using assms(2,3) un by simp
  then have lo: "fa_end (vfa v) \<le> 4096 * f" "unat (vbitmap v) + 16384 \<le> 4096 * f" "0x100000 \<le> 4096 * f"
    "4096 * f + 4 \<le> 4294967296"
    using vmm_okD(6,7) [OF assms(1)] sc by simp_all
  note c = vmm_other_change [OF assms(1) u lo(1) disjI2 [OF lo(2)]]
  show ?thesis
  proof (rule that [of ?u])
    show "wr_virt (vpd v) ?a x s = Some ?u" by (simp add: wr_virt_def w [OF vmm_okD(3) [OF assms(1)] assms(5)])
    show "rd_virt (vpd v) ?a ?u = Some x"
      using w [OF vmm_okD(3) [OF c(1)]] c(2) assms(5) by (simp add: rd_virt_def)
    show "same_memory v s ?u" using c by (simp add: same_memory_def)
    show "low_kept s ?u" by (rule low_keptI [OF u lo(3,4)])
  qed
qed

abbreviation realloc_format :: cstr where
  "realloc_format \<equiv> bytes ''Freed p1, re-alloc(1) = 0x%x (should be 0x%x)'' @ [ch_nl]"

lemma region_start_addr: "page_addr region_page = 0xD0000000"
  by (simp add: page_addr_def)

lemma paging_ok_region:
  assumes "paging_ok vbe (vpd v) s" "vmm_ok v s" "vmm_ok v t" "fb_ok vbe fb s" "fb_ok vbe fb t" "fb_apart fb"
    and "\<forall>w. \<not> (region_page \<le> unat w div 4096 \<and> unat w div 4096 < region_page + 5) \<longrightarrow> pte t w = pte s w"
  shows "paging_ok vbe (vpd v) t"
proof (rule paging_ok_keep [OF assms(1)])
  show "get_framebuffer_info vbe s = fb" "get_framebuffer_info vbe t = fb"
    "unat (fb_framebuffer fb) + unat (fb_pitch fb) * unat (fb_height fb) \<le> 4294967296" "fb_apart fb"
    using assms by (simp_all add: fb_ok_def)
  show "walk t (vpd v) w = walk s (vpd v) w \<or> \<not> kernel_page (unat w div 4096) \<and> walk t (vpd v) w = Some w"
    if "\<not> (0xD0000 \<le> unat w div 4096 \<and> unat w div 4096 < 0xD0005)" for w
    using assms(7) that by (simp add: walk_pte [OF vmm_okD(3) [OF assms(2)]] walk_pte [OF vmm_okD(3) [OF assms(3)]])
qed

text \<open>The first half of the test: two allocations, their report, and a word written and read back.\<close>

lemma memory_test_first:
  assumes "fresh_vmm v s3 n" "paging_ok vbe (vpd v) s3" "fb_apart fb" "fb_clear fb v" "fb_ok vbe fb s3" "unat vbe + 44 \<le> 0x100000"
  defines "a \<equiv> page_addr region_page" and "b \<equiv> page_addr (region_page + 1)"
  obtains f s4 s5 t5 t6 s7 t8 where "alloc_pages v 1 s3 = (a, s4)" "alloc_pages v 4 s4 = (b, s5)"
    "kprintf_paged vbe (vpd v) (bytes ''vmm alloc(1) = 0x%x'' @ [ch_nl]) [IntArg a] (t\<lparr>hw := s5\<rparr>) = Some t5"
    "kprintf_paged vbe (vpd v) (bytes ''vmm alloc(4) = 0x%x'' @ [ch_nl]) [IntArg b] t5 = Some t6"
    "wr_virt (vpd v) a 0xCAFEBABE (hw t6) = Some s7" "rd_virt (vpd v) a s7 = Some 0xCAFEBABE"
    "kprintf_paged vbe (vpd v) (bytes ''Wrote 0x%x to p1'' @ [ch_nl]) [IntArg 0xCAFEBABE] (t6\<lparr>hw := s7\<rparr>) = Some t8"
    "vmm_ok v (hw t8)" "fb_ok vbe fb (hw t8)" "low_kept s3 (hw t8)" "n + 20 \<le> f" "f < scanned (vfa v)"
    "paging_ok vbe (vpd v) (hw t8)"
    "pte (hw t8) a = page_addr f OR 3" "\<forall>j < 131072. vused v (hw t8) j \<longleftrightarrow> j < 5"
    "\<forall>w. \<not> (region_page \<le> unat w div 4096 \<and> unat w div 4096 < region_page + 5) \<longrightarrow> pte (hw t8) w = pte s3 w"
    "\<forall>w. region_page \<le> unat w div 4096 \<and> unat w div 4096 < region_page + 5 \<longrightarrow> pte (hw t8) w AND PG_PRESENT \<noteq> 0"
proof -
  obtain f s4 s5 where a: "alloc_pages v 1 s3 = (a, s4)" "alloc_pages v 4 s4 = (b, s5)" "vmm_ok v s5"
      "low_kept s3 s5" "n + 20 \<le> f" "f < scanned (vfa v)" "pte s5 a = page_addr f OR 3"
      "\<forall>j < 131072. vused v s5 j \<longleftrightarrow> j < 5"
      "\<forall>w. \<not> (region_page \<le> unat w div 4096 \<and> unat w div 4096 < region_page + 5) \<longrightarrow> pte s5 w = pte s3 w"
      "\<forall>w. region_page \<le> unat w div 4096 \<and> unat w div 4096 < region_page + 5 \<longrightarrow> pte s5 w AND PG_PRESENT \<noteq> 0"
    unfolding a_def b_def by (rule two_allocs [OF assms(1)])
  have o5: "fb_ok vbe fb (hw (t\<lparr>hw := s5\<rparr>))" using fb_ok_low [OF assms(5) a(4) assms(6)] by simp
  have ok3: "vmm_ok v s3" using assms(1) by (simp add: fresh_vmm_def)
  have p5: "paging_ok vbe (vpd v) (hw (t\<lparr>hw := s5\<rparr>))"
    using paging_ok_region [OF assms(2) ok3 a(3) assms(5) _ assms(3) a(9)] o5 by simp
  obtain t5 where t5: "kprintf_paged vbe (vpd v) (bytes ''vmm alloc(1) = 0x%x'' @ [ch_nl]) [IntArg a] (t\<lparr>hw := s5\<rparr>) = Some t5"
      "same_memory v s5 (hw t5)" "low_kept s5 (hw t5)" "fb_ok vbe fb (hw t5)" "paging_ok vbe (vpd v) (hw t5)"
    by (rule print_step [OF _ o5 assms(4) boot_formats(1) [of a] _ p5 assms(3)]) (use a(3) in simp_all)
  have ok5: "vmm_ok v (hw t5)" using t5(2) by (simp add: same_memory_def)
  obtain t6 where t6: "kprintf_paged vbe (vpd v) (bytes ''vmm alloc(4) = 0x%x'' @ [ch_nl]) [IntArg b] t5 = Some t6"
      "same_memory v (hw t5) (hw t6)" "low_kept (hw t5) (hw t6)" "fb_ok vbe fb (hw t6)" "paging_ok vbe (vpd v) (hw t6)"
    by (rule print_step [OF ok5 t5(4) assms(4) boot_formats(2) [of b] _ t5(5) assms(3)]) simp_all
  have m6: "same_memory v s5 (hw t6)" by (rule same_memory_trans [OF t5(2) t6(2)])
  then have ok6: "vmm_ok v (hw t6)" and pa: "pte (hw t6) (page_addr region_page) = page_addr f OR 3"
    using a(7) by (simp_all add: same_memory_def a_def)
  have vb: "vbitmap v = page_addr (n + 16)" using assms(1) by (simp add: fresh_vmm_def)
  obtain s7 where s7: "wr_virt (vpd v) a 0xCAFEBABE (hw t6) = Some s7" "rd_virt (vpd v) a s7 = Some 0xCAFEBABE"
      "same_memory v (hw t6) s7" "low_kept (hw t6) s7"
    unfolding a_def by (rule write_first_page [OF ok6 vb a(5,6) pa])
  have ok7: "vmm_ok v (hw (t6\<lparr>hw := s7\<rparr>))" using s7(3) by (simp add: same_memory_def)
  have o7: "fb_ok vbe fb (hw (t6\<lparr>hw := s7\<rparr>))" using fb_ok_low [OF t6(4) s7(4) assms(6)] by simp
  have p7: "paging_ok vbe (vpd v) (hw (t6\<lparr>hw := s7\<rparr>))"
    using paging_ok_same [OF t6(5) s7(3) ok6 t6(4) _ assms(3)] o7 by simp
  obtain t8 where t8: "kprintf_paged vbe (vpd v) (bytes ''Wrote 0x%x to p1'' @ [ch_nl]) [IntArg 0xCAFEBABE] (t6\<lparr>hw := s7\<rparr>) = Some t8"
      "same_memory v s7 (hw t8)" "low_kept s7 (hw t8)" "fb_ok vbe fb (hw t8)" "paging_ok vbe (vpd v) (hw t8)"
    by (rule print_step [OF ok7 o7 assms(4) boot_formats(3) [of "0xCAFEBABE"] _ p7 assms(3)]) simp_all
  have m8: "same_memory v s5 (hw t8)" using m6 s7(3) t8(2) by (blast intro: same_memory_trans)
  have "low_kept s3 (hw t8)"
    using a(4) t5(3) t6(3) s7(4) t8(3) by (simp add: low_kept_def unchanged_outside_def)
  with that [OF a(1,2) t5(1) t6(1) s7(1,2) t8(1) _ t8(4) _ a(5,6) t8(5)] m8 a(7-10) show ?thesis
    by (simp add: same_memory_def)
qed

lemma platform_memory_run:
  assumes fb: "fb_ok vbe fb (hw t)" "unat vbe + 44 \<le> 0x100000" "0x520000 \<le> unat (fb_framebuffer fb)"
      "unat (fb_framebuffer fb) + unat (fb_pitch fb) * unat (fb_height fb) \<le> 4096 * (n + 16) \<or>
       4096 * (n + 20) \<le> unat (fb_framebuffer fb)"
      "fb_apart fb"
    and pd: "pd_wf (hw t) pd" "unat (entries pd) + 4096 \<le> 0x100000"
    and mm: "mm_low mm" "first_frames mm (hw t) n" "direct pd 0x500000 (fa_touched (fst (fa_init mm (hw t)))) (hw t)"
    and paged: "paging_ok vbe pd (hw t)" "\<forall>k. kernel_page k \<longrightarrow> \<not> (n \<le> k \<and> k < n + 20)"
  obtains v t' t1 str where "platform_memory vbe pd mm t = Some (v, t')" "vmm_ok v (hw t')" "vpd v = pd"
    "fb_ok vbe fb (hw t')" "fb_clear fb v" "paging_ok vbe pd (hw t')"
    "\<forall>w. \<not> (region_page \<le> unat w div 4096 \<and> unat w div 4096 < region_page + 5) \<longrightarrow>
       pte (hw t') w = (if n \<le> unat w div 4096 \<and> unat w div 4096 < n + 20
         then page_down w OR PG_PRESENT OR PG_WRITE else pte (hw t) w)"
    "\<forall>w. region_page \<le> unat w div 4096 \<and> unat w div 4096 < region_page + 5 \<longrightarrow> pte (hw t') w AND PG_PRESENT \<noteq> 0"
    "format_text realloc_format [IntArg 0xD0000000, IntArg 0xD0000000] = Some str"
    "t' = fold (kputc vbe) str t1" "low_kept (hw t) (hw t')"
proof -
  let ?a = "page_addr region_page" and ?b = "page_addr (region_page + 1)"
  obtain v s3 where i: "managers_start pd mm (hw t) = Some (v, s3)" and v: "vmm_ok v s3" "vpd v = pd" "vbitmap v = page_addr (n + 16)"
      "\<forall>j < 131072. \<not> vused v s3 j" "low_kept (hw t) s3" "n + 25 \<le> scanned (vfa v)"
    and p3: "\<forall>w. pte s3 w = (if n \<le> unat w div 4096 \<and> unat w div 4096 < n + 20
       then page_down w OR PG_PRESENT OR PG_WRITE else pte (hw t) w)"
    and u3: "\<forall>k < n + 20. fa_used s3 k" "\<forall>k. n + 20 \<le> k \<and> k < n + 25 \<longrightarrow> \<not> fa_used s3 k"
    by (rule managers_init [OF pd mm])
  have n: "n + 25 \<le> 1048576" using v(6) vmm_okD(4) [OF v(1)] by simp
  have un: "unat (vbitmap v) = 4096 * (n + 16)" using n by (simp add: v(3) unat_page_addr)
  have clear: "fb_clear fb v" using fb(3,4) by (auto simp: fb_clear_def un)
  have fr: "fresh_vmm v s3 n" using v u3 by (simp add: fresh_vmm_def)
  have o3: "fb_ok vbe fb s3" by (rule fb_ok_low [OF fb(1) v(5) fb(2)])
  have "paging_ok vbe pd s3"
  proof (rule paging_ok_keep [OF paged(1)])
    show "get_framebuffer_info vbe (hw t) = fb" "get_framebuffer_info vbe s3 = fb"
      "unat (fb_framebuffer fb) + unat (fb_pitch fb) * unat (fb_height fb) \<le> 4294967296" "fb_apart fb"
      using fb o3 by (simp_all add: fb_ok_def)
    have wf3: "pd_wf s3 pd" using vmm_okD(3) [OF v(1)] v(2) by simp
    show "walk s3 pd w = walk (hw t) pd w \<or> \<not> kernel_page (unat w div 4096) \<and> walk s3 pd w = Some w" for w
      using p3 paged(2) by (auto simp: walk_pte [OF wf3] walk_pte [OF pd(1)] page_simps)
  qed
  then have pg3: "paging_ok vbe (vpd v) s3" by (simp add: v(2))
  obtain f s4 s5 t5 t6 s7 t8 where a: "alloc_pages v 1 s3 = (?a, s4)" "alloc_pages v 4 s4 = (?b, s5)"
    "kprintf_paged vbe (vpd v) (bytes ''vmm alloc(1) = 0x%x'' @ [ch_nl]) [IntArg ?a] (t\<lparr>hw := s5\<rparr>) = Some t5"
    "kprintf_paged vbe (vpd v) (bytes ''vmm alloc(4) = 0x%x'' @ [ch_nl]) [IntArg ?b] t5 = Some t6"
    "wr_virt (vpd v) ?a 0xCAFEBABE (hw t6) = Some s7" "rd_virt (vpd v) ?a s7 = Some 0xCAFEBABE"
    "kprintf_paged vbe (vpd v) (bytes ''Wrote 0x%x to p1'' @ [ch_nl]) [IntArg 0xCAFEBABE] (t6\<lparr>hw := s7\<rparr>) = Some t8"
    and t8: "vmm_ok v (hw t8)" "fb_ok vbe fb (hw t8)" "low_kept s3 (hw t8)" "n + 20 \<le> f" "f < scanned (vfa v)"
    "paging_ok vbe (vpd v) (hw t8)" "pte (hw t8) ?a = page_addr f OR 3" "\<forall>j < 131072. vused v (hw t8) j \<longleftrightarrow> j < 5"
    "\<forall>w. \<not> (region_page \<le> unat w div 4096 \<and> unat w div 4096 < region_page + 5) \<longrightarrow> pte (hw t8) w = pte s3 w"
    "\<forall>w. region_page \<le> unat w div 4096 \<and> unat w div 4096 < region_page + 5 \<longrightarrow> pte (hw t8) w AND PG_PRESENT \<noteq> 0"
    by (rule memory_test_first [OF fr pg3 fb(5) clear o3 fb(2)])
  obtain s9 where s9: "alloc_pages v 1 (free_pages v ?a 1 (hw t8)) = (?a, s9)" "vmm_ok v s9" "low_kept (hw t8) s9"
      "\<forall>w. unat w div 4096 \<noteq> region_page \<longrightarrow> pte s9 w = pte (hw t8) w"
      "\<forall>w. unat w div 4096 = region_page \<longrightarrow> pte s9 w AND PG_PRESENT \<noteq> 0"
    by (rule free_and_realloc [OF t8(1,7) _ t8(5,8)]) (use t8(4) in simp)
  have ok9: "vmm_ok v (hw (t8\<lparr>hw := s9\<rparr>))" using s9(2) by simp
  have o9: "fb_ok vbe fb (hw (t8\<lparr>hw := s9\<rparr>))" using fb_ok_low [OF t8(2) s9(3) fb(2)] by simp
  have p9: "paging_ok vbe (vpd v) (hw (t8\<lparr>hw := s9\<rparr>))"
  proof (rule paging_ok_region [OF t8(6,1) ok9 t8(2) o9 fb(5)], intro allI impI)
    fix w :: u32 assume "\<not> (region_page \<le> unat w div 4096 \<and> unat w div 4096 < region_page + 5)"
    then have "unat w div 4096 \<noteq> region_page" by linarith
    then show "pte (hw (t8\<lparr>hw := s9\<rparr>)) w = pte (hw t8) w" using s9(4) by simp
  qed
  obtain str t' where t': "format_text realloc_format [IntArg ?a, IntArg ?a] = Some str"
      "kprintf_paged vbe (vpd v) realloc_format [IntArg ?a, IntArg ?a] (t8\<lparr>hw := s9\<rparr>) = Some t'"
      "t' = fold (kputc vbe) str (t8\<lparr>hw := s9\<rparr>)" "same_memory v s9 (hw t')" "low_kept s9 (hw t')" "fb_ok vbe fb (hw t')"
      "paging_ok vbe (vpd v) (hw t')"
    by (rule print_step [OF ok9 o9 clear boot_formats(4) [of ?a ?a] _ p9 fb(5)]) simp_all
  show ?thesis
  proof (rule that [of v t' str "t8\<lparr>hw := s9\<rparr>"])
    show "platform_memory vbe pd mm t = Some (v, t')"
      using a(3-7) t'(2)
      by (simp only: platform_memory_def i kmalloc_pages_def kfree_pages_def Let_def prod.case a(1,2)
        bind.bind_lunit v(2) s9(1) option.map)
    have pt: "pte (hw t') w = pte s9 w" for w using t'(4) by (simp add: same_memory_def)
    show "\<forall>w. \<not> (region_page \<le> unat w div 4096 \<and> unat w div 4096 < region_page + 5) \<longrightarrow>
       pte (hw t') w = (if n \<le> unat w div 4096 \<and> unat w div 4096 < n + 20
         then page_down w OR PG_PRESENT OR PG_WRITE else pte (hw t) w)"
      using t8(9) s9(4) p3 pt by auto
    show "\<forall>w. region_page \<le> unat w div 4096 \<and> unat w div 4096 < region_page + 5 \<longrightarrow> pte (hw t') w AND PG_PRESENT \<noteq> 0"
    proof (intro allI impI)
      fix w :: u32 assume w: "region_page \<le> unat w div 4096 \<and> unat w div 4096 < region_page + 5"
      show "pte (hw t') w AND PG_PRESENT \<noteq> 0"
      proof (cases "unat w div 4096 = region_page")
        case False
        then have "pte (hw t') w = pte (hw t8) w" using s9(4) pt by simp
        with t8(10) w show ?thesis by metis
      qed (use s9(5) pt in simp)
    qed
    show "vmm_ok v (hw t')" using t'(4) by (simp add: same_memory_def)
    show "format_text realloc_format [IntArg 0xD0000000, IntArg 0xD0000000] = Some str"
      using t'(1) unfolding region_start_addr .
    show "low_kept (hw t) (hw t')"
      using v(5) t8(3) s9(3) t'(5)
      by (simp add: low_kept_def unchanged_outside_def)
  qed (use v(2) t'(3,6,7) clear in simp_all)
qed

section \<open>The whole of platform_init\<close>

lemma first_frames_cong:
  assumes "\<And>i. i < unat (mm_count mm) \<Longrightarrow> mm_entry t mm i = mm_entry s mm i"
  shows "first_frames mm t n = first_frames mm s n" "fst (fa_init mm t) = fst (fa_init mm s)"
proof -
  have "highest_usable mm t = highest_usable mm s"
    unfolding highest_usable_def by (rule fold_cong) (simp_all add: assms Let_def)
  then show fa: "fst (fa_init mm t) = fst (fa_init mm s)" by (simp add: fa_init_def Let_def)
  show "first_frames mm t n = first_frames mm s n" using assms by (simp add: fa first_frames_def cong: conj_cong)
qed

lemma debug_mem [simp]: "mem (debug str s) = mem s"
  by (induction str arbitrary: s) (simp_all add: debug_putc_def)

lemma kdebug_mem: "mem (kdebug str s) = mem s"
  by (simp only: kdebug_def debug_mem)

lemma start_mem:
  "mem (hw (con (syscalls_init (interrupts_enable (idt_init a isr irqp isr128 (gdt_init b k)))))) = mem (hw (con k))"
  by (simp add: syscalls_init_fields interrupts_enable_def idt_init_fields pic_remap_def io_wait_def Let_def
      gdt_init_def load_gdt_def kdebug_mem)

lemma start_booted:
  assumes "kernel_ok k" "distinct (map (stub_addr isr irqp isr128) stub_vectors)"
  shows "booted isr irqp isr128 (init_keyboard (syscalls_init (interrupts_enable (idt_init a isr irqp isr128 (gdt_init b k)))))"
  using boot_sequence_booted [OF kernel_ok_ops(2) [OF assms(1)] assms(2), of a b] by (simp add: boot_sequence_def)

lemma same_mem_memory:
  assumes "mem t = mem s" "vmm_ok v s"
  shows "same_memory v s t"
proof -
  have u: "unchanged_outside (fa_end (vfa v)) (fa_end (vfa v)) s t" using assms(1) by (simp add: unchanged_outside_def)
  have b: "fa_end (vfa v) \<le> unat (vbitmap v)" by (rule vmm_okD(6) [OF assms(2)])
  show ?thesis
    using vmm_other_change [OF assms(2) u order_refl disjI1 [OF b]] by (simp add: same_memory_def)
qed

text \<open>
  A boot that has what \<open>platform_init\<close> needs:
  \<^item> the layout of the boot stage, and a video mode of 16, 24 or 32 bits whose size, as the code
    computes it, covers the screen and whose framebuffer ends below 4 GiB, is out of the way of
    the managers and not where the virtual memory manager puts its first pages;
  \<^item> no usable memory and no framebuffer in the four megabytes at \<open>KERNEL_VMA\<close>, which would replace
    the mapping of the kernel (\<open>platform_map_spec\<close>);
  \<^item> usable memory where the frame bitmap is put, so that it is mapped;
  \<^item> 25 consecutive frames of usable memory, from frame \<open>n\<close> on, as the first that are free.
\<close>

definition good_boot :: "u32 \<Rightarrow> u32 \<Rightarrow> nat \<Rightarrow> machine \<Rightarrow> bool" where
  "good_boot vbe bi n s \<longleftrightarrow> (let fb = get_framebuffer_info vbe s in
     boot_layout vbe bi s \<and> fb_ok vbe fb s \<and>
     unat (fb_pitch fb) * unat (fb_height fb) \<le> unat (fb_size fb) \<and>
     unat (fb_framebuffer fb) + unat (fb_size fb) \<le> 4294963200 \<and> 0x520000 \<le> unat (fb_framebuffer fb) \<and>
     (unat (fb_framebuffer fb) + unat (fb_pitch fb) * unat (fb_height fb) \<le> 4096 * (n + 16) \<or>
      4096 * (n + 20) \<le> unat (fb_framebuffer fb)) \<and> fb_apart fb \<and>
     (\<forall>k. kernel_page k \<longrightarrow> \<not> usable_page bi s k \<and> \<not> fb_page vbe s k) \<and>
     (\<forall>k. 0x500 \<le> k \<and> 4096 * k < fa_touched (fst (fa_init (boot_mmap bi s) s)) \<longrightarrow> usable_page bi s k) \<and>
     first_frames (boot_mmap bi s) s n)"

lemma platform_start:
  assumes "good_boot vbe bi n (hw t)" "platform_map vbe bi (hw t) = (pd, mm, s1)"
  obtains u where "paging_ok vbe pd s1" "mm_print vbe mm (kprint vbe str (t\<lparr>hw := s1\<rparr>)) = Some u"
    "mm = boot_mmap bi (hw t)" "fb_ok vbe (get_framebuffer_info vbe (hw t)) (hw u)" "pd_wf (hw u) pd"
    "unat (entries pd) + 4096 \<le> 0x100000" "first_frames mm (hw u) n"
    "\<forall>w. walk (hw u) pd w = boot_translation vbe bi (hw t) w"
    "unchanged_outside (unat (bi_page_directory (hw t) bi)) 4294967296 (hw t) (hw u)"
    "paging_ok vbe pd (hw u)" "direct pd 0x500000 (fa_touched (fst (fa_init mm (hw u)))) (hw u)"
proof -
  let ?s = "hw t" let ?fb = "get_framebuffer_info vbe ?s" let ?d = "unat (bi_page_directory ?s bi)"
  from assms(1) have g: "boot_layout vbe bi ?s" "fb_ok vbe ?fb ?s"
    "unat (fb_framebuffer ?fb) + unat (fb_size ?fb) \<le> 4294963200" "0x520000 \<le> unat (fb_framebuffer ?fb)"
    "first_frames (boot_mmap bi ?s) ?s n" "unat (fb_pitch ?fb) * unat (fb_height ?fb) \<le> unat (fb_size ?fb)"
    and kp: "\<And>k. kernel_page k \<Longrightarrow> \<not> usable_page bi ?s k \<and> \<not> fb_page vbe ?s k"
    and bm: "\<And>k. 0x500 \<le> k \<Longrightarrow> 4096 * k < fa_touched (fst (fa_init (boot_mmap bi ?s) ?s)) \<Longrightarrow> usable_page bi ?s k"
    by (simp_all add: good_boot_def Let_def)
  note e = platform_map_effect [OF g(1) assms(2) g(3)]
  have d: "?d + 4096 \<le> 0x100000" using g(1) by (simp add: boot_layout_def)
  have fb1: "get_framebuffer_info vbe s1 = ?fb" by (rule boot_info_low(3) [OF e(4) g(1)])
  then have f1: "fb_ok vbe ?fb (hw (t\<lparr>hw := s1\<rparr>))" using g(2) by (simp add: fb_ok_def)
  note k1 = kprint_draws [OF f1, of str]
  obtain u where u: "mm_print vbe mm (kprint vbe str (t\<lparr>hw := s1\<rparr>)) = Some u"
      "draws vbe ?fb (hw (kprint vbe str (t\<lparr>hw := s1\<rparr>))) (hw u)"
    using mm_print_returns [OF draws_ok [OF k1]] by blast
  have "draws vbe ?fb s1 (hw u)" using draws_trans [OF k1 u(2)] by simp
  then have dr: "fb_ok vbe ?fb (hw u)" "unchanged_outside (unat (fb_framebuffer ?fb))
      (unat (fb_framebuffer ?fb) + unat (fb_pitch ?fb) * unat (fb_height ?fb)) s1 (hw u)"
    by (simp_all add: draws_def)
  have hi: "unat (fb_framebuffer ?fb) + unat (fb_pitch ?fb) * unat (fb_height ?fb) \<le> 4294967296"
    using g(2) by (simp add: fb_ok_def)
  have wf: "pd_wf (hw u) pd" using pd_wf_unchanged [OF e(3) dr(2)] e(1) d g(4) by simp
  have pt: "pte (hw u) w = pte s1 w" for w using pte_unchanged [OF dr(2)] g(4) by simp
  have all: "unchanged_outside ?d 4294967296 ?s (hw u)"
    by (rule unchanged_trans [OF unchanged_mono [OF e(4)] unchanged_mono [OF dr(2)]]) (use d g(4) hi in simp_all)
  have en: "mm_entry (hw u) mm i = mm_entry ?s mm i" if "i < unat (mm_count mm)" for i
    using boot_info_low(4) [OF all g(1), of i] that by (simp add: e(2) boot_mmap_def mm_init_def)
  have ff: "first_frames mm (hw u) n" using first_frames_cong(1) [OF en, of n] g(5) e(2) by simp
  have "walk (hw u) pd w = walk s1 pd w" for w
    using pt by (simp add: walk_pte [OF wf] walk_pte [OF e(3)])
  then have wu: "walk (hw u) pd w = boot_translation vbe bi ?s w" for w using e(5) by simp
  have fbu: "get_framebuffer_info vbe (hw u) = ?fb" using dr(1) by (simp add: fb_ok_def)
  have "direct pd 0x500000 (fa_touched (fst (fa_init mm (hw u)))) (hw u)"
  proof (rule directI)
    fix k assume k: "0x500000 div 4096 \<le> k" "k < (fa_touched (fst (fa_init mm (hw u))) + 4095) div 4096"
    have "fa_touched (fst (fa_init mm (hw u))) < 0x600000"
      using frame_bound [of "highest_usable mm (hw u)"] by (simp add: fa_touched_def touched_words_def fa_init_def Let_def unat_div)
    then have "k < 1048576" using k(2) by linarith
    moreover have "4096 * k < fa_touched (fst (fa_init mm (hw u)))" using k(2) by linarith
    then have "usable_page bi ?s k" using bm [of k] k(1) first_frames_cong(2) [OF en] e(2) by simp
    ultimately show "walk (hw u) pd (page_addr k) = Some (page_addr k)"
      by (simp add: wu boot_translation_def Let_def unat_page_addr)
  qed
  moreover have "paging_ok vbe pd s1" "paging_ok vbe pd (hw u)"
    using paging_ok_boot [OF e(5) fb1 kp g(6,3)] paging_ok_boot [OF wu fbu kp g(6,3)] by simp_all
  ultimately show ?thesis using that [OF _ u(1) e(2) dr(1) wf _ ff _ all] d e(1) wu by simp
qed

section \<open>Properties\<close>

text \<open>The translation after the managers have been set up, from the entries they leave.\<close>

lemma final_walk:
  assumes "pd_wf s pd" "pd_wf t pd" "\<forall>w. walk s pd w = boot_translation vbe bi q w"
    and "\<forall>k. n \<le> k \<and> k < n + 25 \<longrightarrow> usable_page bi q k"
    and "\<forall>w. \<not> (region_page \<le> unat w div 4096 \<and> unat w div 4096 < region_page + 5) \<longrightarrow>
       pte t w = (if n \<le> unat w div 4096 \<and> unat w div 4096 < n + 20
         then page_down w OR PG_PRESENT OR PG_WRITE else pte s w)"
    and "\<forall>w. region_page \<le> unat w div 4096 \<and> unat w div 4096 < region_page + 5 \<longrightarrow> pte t w AND PG_PRESENT \<noteq> 0"
  shows "if 0xD0000 \<le> unat w div 4096 \<and> unat w div 4096 < 0xD0005 then walk t pd w \<noteq> None
    else walk t pd w = boot_translation vbe bi q w"
proof (cases "region_page \<le> unat w div 4096 \<and> unat w div 4096 < region_page + 5")
  case True
  with assms(6) show ?thesis by (simp add: walk_pte [OF assms(2)])
next
  case out: False
  have "walk t pd w = boot_translation vbe bi q w"
  proof (cases "n \<le> unat w div 4096 \<and> unat w div 4096 < n + 20")
    case True
    then have "walk t pd w = Some w" using assms(5) out by (simp add: walk_pte [OF assms(2)] page_simps)
    moreover have "usable_page bi q (unat w div 4096)" using assms(4) True by simp
    ultimately show ?thesis by (simp add: boot_translation_def Let_def)
  next
    case False
    then have "pte t w = pte s w" using assms(5) out by auto
    then have "walk t pd w = walk s pd w" by (simp add: walk_pte [OF assms(1)] walk_pte [OF assms(2)])
    with assms(3) show ?thesis by simp
  qed
  with out show ?thesis by auto
qed

text \<open>The tables after the last statements of \<^verbatim>\<open>platform_init\<close>.\<close>

lemma start_tables:
  fixes k :: kernel and isr irqp :: "nat \<Rightarrow> u32" and isr128 a b :: u32
  defines "k' \<equiv> syscalls_init (interrupts_enable (idt_init a isr irqp isr128 (gdt_init b k)))"
  assumes "kernel_ok k" "distinct (map (stub_addr isr irqp isr128) stub_vectors)"
  shows "booted isr irqp isr128 (init_keyboard k')" "int_flag k'" "kb k' = kb k"
    "handlers k' ! 33 = Default_irq_handler" "mem (hw (con k')) = mem (hw (con k))"
proof -
  show "booted isr irqp isr128 (init_keyboard k')" unfolding k'_def by (rule start_booted [OF assms(2,3)])
  show "int_flag k'" by (simp add: k'_def syscalls_init_def Let_def interrupts_enable_def)
  show "kb k' = kb k"
    by (simp add: k'_def syscalls_init_def Let_def interrupts_enable_def idt_init_def load_idt_def gdt_init_def load_gdt_def)
  show "handlers k' ! 33 = Default_irq_handler"
    using assms(2) by (simp add: k'_def syscalls_init_fields(1) interrupts_enable_def idt_init_fields(1) gdt_init_def
        Let_def load_gdt_def fill_handlers_nth kernel_ok_def)
  show "mem (hw (con k')) = mem (hw (con k))" by (simp add: k'_def start_mem)
qed

lemma platform_init_run:
  assumes "good_boot vbe bi n (hw (con k))" "kernel_ok k"
    and "distinct (map (stub_addr isr irqp isr128) stub_vectors)"
  obtains v k' t0 t1 str where "platform_init vbe bi gdt_addr idt_addr isr irqp isr128 self k = Some (v, k')"
    "vmm_ok v (hw (con k'))" "entries (vpd v) = bi_page_directory (hw (con k)) bi"
    "booted isr irqp isr128 (init_keyboard k')" "int_flag k'" "kb k' = kb k" "handlers k' ! 33 = Default_irq_handler"
    "fb_ok vbe (get_framebuffer_info vbe (hw (con k))) (hw (con k'))"
    "fb_clear (get_framebuffer_info vbe (hw (con k))) v" "paging_ok vbe (vpd v) (hw (con k'))"
    "unchanged_outside (unat (bi_page_directory (hw (con k)) bi)) 4294967296 (hw (con k)) (hw (con k'))"
    "\<forall>w. if 0xD0000 \<le> unat w div 4096 \<and> unat w div 4096 < 0xD0005
       then walk (hw (con k')) (vpd v) w \<noteq> None
       else walk (hw (con k')) (vpd v) w = boot_translation vbe bi (hw (con k)) w"
    "platform_memory vbe (vpd v) (boot_mmap bi (hw (con k))) t0 = Some (v, fold (kputc vbe) str t1)"
    "format_text realloc_format [IntArg 0xD0000000, IntArg 0xD0000000] = Some str"
proof -
  let ?s = "hw (con k)" let ?fb = "get_framebuffer_info vbe ?s"
  obtain pd mm s1 where m: "platform_map vbe bi ?s = (pd, mm, s1)" by (metis prod_cases3)
  define msg where "msg = bytes (if bi_e820_entry_count s1 bi > 0 then ''Memory map found!''
      else ''No memory map found!'') @ [ch_nl, 0]"
  obtain u where pg1: "paging_ok vbe pd s1" and u: "mm_print vbe mm (kprint vbe msg ((con k)\<lparr>hw := s1\<rparr>)) = Some u"
    "mm = boot_mmap bi ?s" "fb_ok vbe ?fb (hw u)" "pd_wf (hw u) pd"
    "unat (entries pd) + 4096 \<le> 0x100000" "first_frames mm (hw u) n"
    "\<forall>w. walk (hw u) pd w = boot_translation vbe bi ?s w"
    "unchanged_outside (unat (bi_page_directory ?s bi)) 4294967296 ?s (hw u)"
    "paging_ok vbe pd (hw u)" "direct pd 0x500000 (fa_touched (fst (fa_init mm (hw u)))) (hw u)"
    by (rule platform_start [OF assms(1) m])
  from assms(1) have g: "boot_layout vbe bi ?s" "unat (fb_framebuffer ?fb) + unat (fb_size ?fb) \<le> 4294963200"
    "0x520000 \<le> unat (fb_framebuffer ?fb)"
    "unat (fb_framebuffer ?fb) + unat (fb_pitch ?fb) * unat (fb_height ?fb) \<le> 4096 * (n + 16) \<or>
     4096 * (n + 20) \<le> unat (fb_framebuffer ?fb)" "first_frames (boot_mmap bi ?s) ?s n" "fb_apart ?fb"
    and kp: "\<And>k. kernel_page k \<Longrightarrow> \<not> usable_page bi ?s k"
    by (simp_all add: good_boot_def Let_def)
  have up: "\<forall>k. n \<le> k \<and> k < n + 25 \<longrightarrow> usable_page bi ?s k"
    using g(5) by (simp add: first_frames_def usable_page_def boot_mmap_def mm_init_def)
  then have kn: "\<forall>k. kernel_page k \<longrightarrow> \<not> (n \<le> k \<and> k < n + 20)" using kp by fastforce
  have low: "unat vbe + 44 \<le> 0x100000" "mm_low mm"
    using g(1) by (simp_all add: boot_layout_def u(2) boot_mmap_def mm_init_def mm_low_def)
  obtain v t' t1 str where r: "platform_memory vbe pd mm u = Some (v, t')" "vmm_ok v (hw t')" "vpd v = pd"
    "fb_ok vbe ?fb (hw t')" "fb_clear ?fb v" "paging_ok vbe pd (hw t')"
    and p: "\<forall>w. \<not> (region_page \<le> unat w div 4096 \<and> unat w div 4096 < region_page + 5) \<longrightarrow>
       pte (hw t') w = (if n \<le> unat w div 4096 \<and> unat w div 4096 < n + 20
         then page_down w OR PG_PRESENT OR PG_WRITE else pte (hw u) w)"
    "\<forall>w. region_page \<le> unat w div 4096 \<and> unat w div 4096 < region_page + 5 \<longrightarrow> pte (hw t') w AND PG_PRESENT \<noteq> 0"
    and str: "format_text realloc_format [IntArg 0xD0000000, IntArg 0xD0000000] = Some str" "t' = fold (kputc vbe) str t1"
    and lk: "low_kept (hw u) (hw t')"
    by (rule platform_memory_run [OF u(3) low(1) g(3,4,6) u(4,5) low(2) u(6,10,9) kn])
  obtain t2 where t2: "kprintf_paged vbe (vpd v) (bytes ''platform_init is at: 0x%x'' @ [ch_nl]) [IntArg self] t' = Some t2"
      "same_memory v (hw t') (hw t2)" "low_kept (hw t') (hw t2)" "fb_ok vbe ?fb (hw t2)" "paging_ok vbe (vpd v) (hw t2)"
    by (rule print_step [OF r(2,4,5) boot_formats(5) [of self] _ _ g(6)]) (use r(3,6) in simp_all)
  let ?k = "k\<lparr>con := t2\<rparr>"
  let ?k' = "syscalls_init (interrupts_enable (idt_init idt_addr isr irqp isr128 (gdt_init gdt_addr ?k)))"
  have "kernel_ok ?k" using assms(2) by (simp add: kernel_ok_def)
  note st = start_tables [OF this assms(3), of idt_addr gdt_addr]
  have ok2: "vmm_ok v (hw t2)" using t2(2) by (simp add: same_memory_def)
  have "same_memory v (hw t2) (hw (con ?k'))" by (rule same_mem_memory [OF _ ok2]) (simp add: st(5))
  then have sm: "same_memory v (hw t') (hw (con ?k'))" by (rule same_memory_trans [OF t2(2)])
  then have ok: "vmm_ok v (hw (con ?k'))" and pt: "\<forall>w. pte (hw (con ?k')) w = pte (hw t') w"
    by (simp_all add: same_memory_def)
  have run: "platform_init vbe bi gdt_addr idt_addr isr irqp isr128 self k = Some (v, ?k')"
    using pg1 t2(1)
    by (simp only: platform_init_def m Let_def prod.case msg_def [symmetric] u(1) r(1,3) bind.bind_lunit simp_thms if_False)
  have wf: "pd_wf (hw (con ?k')) pd" using vmm_okD(3) [OF ok] r(3) by simp
  have walk: "if 0xD0000 \<le> unat w div 4096 \<and> unat w div 4096 < 0xD0005 then walk (hw (con ?k')) (vpd v) w \<noteq> None
      else walk (hw (con ?k')) (vpd v) w = boot_translation vbe bi ?s w" for w
    unfolding r(3) by (rule final_walk [OF u(4) wf u(7) up]) (use p pt in simp_all)
  have pdir: "entries (vpd v) = bi_page_directory ?s bi"
    using platform_map_effect(1) [OF g(1) m g(2)] r(3) by simp
  have fb: "fb_ok vbe ?fb (hw (con ?k'))" by (rule fb_ok_cong [OF t2(4)]) (simp add: st(5))
  have "low_kept (hw u) (hw (con ?k'))" using low_kept_trans [OF lk t2(3)] st(5) by (simp add: low_kept_def unchanged_outside_def)
  then have "unchanged_outside (unat (bi_page_directory ?s bi)) 4294967296 (hw u) (hw (con ?k'))"
    unfolding low_kept_def by (rule unchanged_mono) (use g(1) in \<open>simp_all add: boot_layout_def\<close>)
  then have "unchanged_outside (unat (bi_page_directory ?s bi)) 4294967296 ?s (hw (con ?k'))"
    by (rule unchanged_trans [OF u(8)])
  moreover have "paging_ok vbe (vpd v) (hw (con ?k'))"
    by (rule paging_ok_same [OF t2(5) same_mem_memory [OF _ ok2] ok2 t2(4) fb g(6)]) (simp add: st(5))
  moreover have "kb ?k' = kb k" using st(3) by simp
  ultimately show ?thesis
    using that [OF run ok pdir st(1,2) _ st(4) fb r(5) _ _ _ _ str(1)] walk r(1,3) str(2) u(2) by blast
qed


text \<open>The machine of \<open>plat_machine\<close>, with frame \<open>0x501\<close>, right after the frame bitmap, the first free one.\<close>

lemma plat_machine_entry:
  "boot_mmap 0x7000 plat_machine = \<lparr>mm_entries = 0x9000, mm_count = 1\<rparr>"
  "mm_entry plat_machine (boot_mmap 0x7000 plat_machine) 0 =
     \<lparr>e820_base = 0x100000, e820_length = 0x700000, e820_type = E820_TYPE_USABLE\<rparr>"
proof -
  show b: "boot_mmap 0x7000 plat_machine = \<lparr>mm_entries = 0x9000, mm_count = 1\<rparr>"
    by (simp add: boot_mmap_def mm_init_def bi_e820_map_def bi_e820_entry_count_def rd32_def load32_def
        plat_machine_def screen_machine_def)
  show "mm_entry plat_machine (boot_mmap 0x7000 plat_machine) 0 =
     \<lparr>e820_base = 0x100000, e820_length = 0x700000, e820_type = E820_TYPE_USABLE\<rparr>"
    unfolding b by (simp add: mm_entry_def read_e820_def rd64_def rd32_def load32_def plat_machine_def screen_machine_def)
qed

lemma plat_good_boot: "good_boot 0x8000 0x7000 0x501 plat_machine"
proof -
  let ?mm = "boot_mmap 0x7000 plat_machine"
  note e = plat_machine_entry(1) plat_machine_entry(2) [unfolded plat_machine_entry(1)]
  have h: "highest_usable ?mm plat_machine = 0x800000"
    by (simp add: e highest_usable_def clamp_def)
  then have "bitmap_size (fst (fa_init ?mm plat_machine)) = 0x100" by (simp add: fa_init_def Let_def)
  moreover have uf: "usable_frame (mm_entry plat_machine ?mm 0) k \<longleftrightarrow> 0x100 \<le> k \<and> k < 0x800" for k
    by (simp add: e usable_frame_def clamp_def unat_page_up)
  ultimately have ff: "first_frames ?mm plat_machine 0x501"
    by (auto simp: first_frames_def plat_machine_entry(1) reserved_frames_def scanned_def)
  have us: "usable_page 0x7000 plat_machine k \<longleftrightarrow> 0x100 \<le> k \<and> k < 0x800" for k
    using uf plat_machine_entry(1) by (simp add: usable_page_def boot_mmap_def mm_init_def)
  have tc: "fa_touched (fst (fa_init ?mm plat_machine)) = 0x500104"
    using h by (simp add: fa_touched_def touched_words_def fa_init_def Let_def)
  have fp: "fb_page 0x8000 plat_machine k \<longleftrightarrow> 0xFD000 \<le> k \<and> k < 0xFDC00" for k
    by (simp add: fb_page_def plat_machine_layout(2) Let_def) (simp add: mode_1024_def)
  have fb: "fb_ok 0x8000 mode_1024 plat_machine" "fb_apart mode_1024"
    using mode_1024_ok plat_machine_layout(2) by (simp_all add: fb_ok_def fb_apart_def mode_1024_def)
  have kp: "\<not> usable_page 0x7000 plat_machine k \<and> \<not> fb_page 0x8000 plat_machine k" if "kernel_page k" for k
    using that by (simp add: us fp kernel_page_def)
  have bm: "usable_page 0x7000 plat_machine k" if "0x500 \<le> k" "4096 * k < 0x500104" for k
    using that by (simp add: us)
  have md: "unat (fb_pitch mode_1024) * unat (fb_height mode_1024) \<le> unat (fb_size mode_1024)"
    "unat (fb_framebuffer mode_1024) + unat (fb_size mode_1024) \<le> 4294963200"
    "0x520000 \<le> unat (fb_framebuffer mode_1024)" "4096 * (0x501 + 20) \<le> unat (fb_framebuffer mode_1024)"
    by (simp_all add: mode_1024_def)
  show ?thesis
    unfolding good_boot_def Let_def plat_machine_layout(2) tc
    by (intro conjI allI impI plat_machine_layout(1) fb ff md(1-3) disjI2 [OF md(4)] kp [THEN conjunct1]
        kp [THEN conjunct2]) (blast intro: bm)+
qed


end
