(* ===== verification/Kernel_Main.thy ===== *)
theory Kernel_Main
  imports Boot
begin

text \<open>
  \<^verbatim>\<open>kernel/main.cpp\<close>: \<^verbatim>\<open>kmain\<close> around its read loop (the loop itself is in \<open>Interrupts\<close>), and the
  whole function composed.  It draws, prints, starts the keyboard, writes through a system call
  and prints back what it has read through another one.
\<close>

section \<open>kmain\<close>

text \<open>
  \<^verbatim>\<open>kmain\<close> up to its read loop: the greeting, a red line, the keyboard, and a \<^verbatim>\<open>SYS_WRITE\<close> of the
  string \<^verbatim>\<open>"TEST"\<close> through the argument block at \<open>wa\<close>; then the buffer and the argument block
  of the loop are set up (\<open>kmain_prepare\<close>); and after the loop comes the report of
  what was read (a string ends at its first zero byte, and \<^verbatim>\<open>buf_ra\<close> has one at its end).
  The objects of \<^verbatim>\<open>kmain\<close> are parts of the kernel image or of its stack and are named here by their
  physical addresses: as long as \<open>paging_ok\<close> holds, the same bytes are reached at \<open>KERNEL_VMA\<close> plus that
  address, where the image is linked, and at the address itself.  The properties below say that it holds.
\<close>

record write_args =
  arg_count :: u32
  arg_fd :: u32
  arg_buf :: u32

definition store_write_args :: "u32 \<Rightarrow> write_args \<Rightarrow> machine \<Rightarrow> machine" where
  "store_write_args a r s =
     (let s = wr32 s a (arg_count r); s = wr32 s (a + 4) (arg_fd r) in wr32 s (a + 8) (arg_buf r))"

definition set_write_args :: "u32 \<Rightarrow> u32 \<Rightarrow> machine \<Rightarrow> machine" where
  "set_write_args wa buf_wa s = store_write_args wa \<lparr>arg_count = 4, arg_fd = 0, arg_buf = buf_wa\<rparr> s"

definition kmain_start :: "u32 \<Rightarrow> (nat \<Rightarrow> u32) \<Rightarrow> (nat \<Rightarrow> u32) \<Rightarrow> u32 \<Rightarrow> interrupt_frame \<Rightarrow> u32 \<Rightarrow> u32 \<Rightarrow>
    kernel \<Rightarrow> kernel option" where
  "kmain_start vbe isr irqp isr128 regs wa buf_wa k =
     Option.bind (kprintf vbe ([ch_nl, ch_nl] @ bytes ''Hello, World! This is a test of the kernel''
         @ [39] @ bytes ''s main function.'') [] (con k)) (\<lambda>t.
     Option.bind (line vbe 10 10 100 100 COLOR_RED (hw t)) (\<lambda>s.
       let k = init_keyboard (k\<lparr>con := t\<lparr>hw := s\<rparr>\<rparr>)
       in Option.bind (kprintf vbe ([ch_nl] @ bytes ''[keyboard]: Keyboard driver is ready'' @ [ch_nl]) [] (con k)) (\<lambda>t.
          Option.bind (syscall isr irqp isr128 vbe regs SYS_WRITE wa
              (on_hw (set_write_args wa buf_wa) (k\<lparr>con := t\<rparr>))) (\<lambda>(res, k).
          map_option (\<lambda>t. k\<lparr>con := t\<rparr>)
            (kprintf vbe (bytes '' <-- %d characters written from syscall.'' @ [ch_nl]) [IntArg res] (con k))))))"

definition kmain_prepare :: "u32 \<Rightarrow> u32 \<Rightarrow> kernel \<Rightarrow> kernel" where
  "kmain_prepare ra buf_ra k = on_hw (\<lambda>s. wr32 (fill_bytes buf_ra 5 0 s) (ra + 4) 1) k"

definition kmain_end :: "u32 \<Rightarrow> u32 \<Rightarrow> u32 \<Rightarrow> kernel \<Rightarrow> kernel option" where
  "kmain_end vbe buf_ra got k =
     Option.bind (kprintf vbe ([ch_nl] @ bytes ''%d characters read from syscall.'' @ [ch_nl]) [IntArg got] (con k)) (\<lambda>t.
     map_option (\<lambda>t. k\<lparr>con := t\<rparr>)
       (kprintf vbe (bytes ''%s --> read from syscall'')
          [StrArg (Some (takeWhile (\<lambda>c. c \<noteq> 0) (load_bytes (hw t) buf_ra 5)))] t))"

text \<open>A completed run of \<^verbatim>\<open>kmain\<close>: the loop is left when four characters have been read.  The text
typed while the loop ran is part of the run.\<close>

inductive kmain :: "(nat \<Rightarrow> u32) \<Rightarrow> (nat \<Rightarrow> u32) \<Rightarrow> u32 \<Rightarrow> u32 \<Rightarrow> interrupt_frame \<Rightarrow> u32 \<Rightarrow> u32 \<Rightarrow> u32 \<Rightarrow> u32 \<Rightarrow>
    kernel \<Rightarrow> u8 list \<Rightarrow> kernel \<Rightarrow> bool"
  for isr irqp isr128 vbe regs wa buf_wa ra buf_ra where
  kmain: "kmain_start vbe isr irqp isr128 regs wa buf_wa k = Some k1 \<Longrightarrow>
    read_run isr irqp isr128 vbe regs ra buf_ra (kmain_prepare ra buf_ra k1) got k2 typed \<Longrightarrow> \<not> got < 4 \<Longrightarrow>
    kmain_end vbe buf_ra got k2 = Some k3 \<Longrightarrow>
    kmain isr irqp isr128 vbe regs wa buf_wa ra buf_ra k typed k3"

section \<open>Texts\<close>

lemma format_text_literal:
  "ch_percent \<notin> set str \<Longrightarrow> 0 \<notin> set str \<Longrightarrow> format_text str args = Some str"
  using format_text_prefix [of str "[]" args] by simp

lemma num_text_4: "num_text 4 10 = [52]"
  by (simp add: num_text_def convert_def convert_loop.simps representation_def)

definition hello_text :: cstr where
  "hello_text = [ch_nl, ch_nl] @ bytes ''Hello, World! This is a test of the kernel'' @ [39] @ bytes ''s main function.''"

definition ready_text :: cstr where
  "ready_text = [ch_nl] @ bytes ''[keyboard]: Keyboard driver is ready'' @ [ch_nl]"

definition written_text :: cstr where
  "written_text = bytes ''TEST <-- 4 characters written from syscall.'' @ [ch_nl]"

definition report_text :: "cstr \<Rightarrow> cstr" where
  "report_text str = [ch_nl] @ bytes ''4 characters read from syscall.'' @ [ch_nl] @ str @ bytes '' --> read from syscall''"

lemma kmain_formats:
  "format_text ([ch_nl, ch_nl] @ bytes ''Hello, World! This is a test of the kernel'' @ [39] @ bytes ''s main function.'') [] = Some hello_text"
  "format_text ([ch_nl] @ bytes ''[keyboard]: Keyboard driver is ready'' @ [ch_nl]) [] = Some ready_text"
  "format_text (bytes '' <-- %d characters written from syscall.'' @ [ch_nl]) [IntArg 4] =
     Some (bytes '' <-- 4 characters written from syscall.'' @ [ch_nl])"
  "format_text ([ch_nl] @ bytes ''%d characters read from syscall.'' @ [ch_nl]) [IntArg 4] =
     Some ([ch_nl] @ bytes ''4 characters read from syscall.'' @ [ch_nl])"
  by (simp_all add: format_text_literal hello_text_def ready_text_def num_text_4 small_not_negative)

section \<open>Where the objects of kmain lie\<close>

text \<open>A block of \<open>n\<close> bytes outside the framebuffer and the video mode information.\<close>

definition clear_block :: "u32 \<Rightarrow> framebuffer_info \<Rightarrow> u32 \<Rightarrow> nat \<Rightarrow> bool" where
  "clear_block vbe fb a n \<longleftrightarrow> unat a + n \<le> 4294967296 \<and>
     (unat a + n \<le> unat (fb_framebuffer fb) \<or>
      unat (fb_framebuffer fb) + unat (fb_pitch fb) * unat (fb_height fb) \<le> unat a) \<and>
     (unat a + n \<le> unat vbe \<or> unat vbe + 44 \<le> unat a)"

definition kmain_layout :: "u32 \<Rightarrow> framebuffer_info \<Rightarrow> u32 \<Rightarrow> u32 \<Rightarrow> u32 \<Rightarrow> u32 \<Rightarrow> bool" where
  "kmain_layout vbe fb wa buf_wa ra buf_ra \<longleftrightarrow>
     clear_block vbe fb wa 12 \<and> clear_block vbe fb buf_wa 4 \<and> clear_block vbe fb ra 12 \<and> clear_block vbe fb buf_ra 5 \<and>
     (unat buf_wa + 4 \<le> unat wa \<or> unat wa + 12 \<le> unat buf_wa) \<and>
     (unat buf_ra + 5 \<le> unat ra \<or> unat ra + 12 \<le> unat buf_ra)"

lemma fb_ok_block:
  assumes "fb_ok vbe fb s" "clear_block vbe fb a n" "unchanged_outside (unat a) (unat a + n) s t"
  shows "fb_ok vbe fb t"
  by (rule fb_ok_cong [OF assms(1)]) (use assms in \<open>auto simp: clear_block_def unchanged_outside_def\<close>)

lemma draws_block:
  assumes "draws vbe fb s t" "clear_block vbe fb a n"
  shows "load_bytes t a n = load_bytes s a n"
  by (rule load_bytes_unchanged) (use assms in \<open>auto simp: draws_def clear_block_def\<close>)

lemma set_write_args_effect:
  assumes "unat wa + 12 \<le> 4294967296"
  shows "args_count (set_write_args wa b s) wa = 4" "args_buf (set_write_args wa b s) wa = b"
    "unchanged_outside (unat wa) (unat wa + 12) s (set_write_args wa b s)"
proof -
  have u: "unat (wa + 4) = unat wa + 4" "unat (wa + 8) = unat wa + 8" using assms by (simp_all add: u32_plus_no_wrap)
  then have "apart4 (wa + 8) wa" "apart4 (wa + 4) wa" using assms by (auto intro: apart4_natI)
  then show "args_count (set_write_args wa b s) wa = 4"
    by (simp add: args_count_def set_write_args_def store_write_args_def Let_def rd32_wr32_other)
  show "args_buf (set_write_args wa b s) wa = b" by (simp add: args_buf_def set_write_args_def store_write_args_def Let_def)
  show "unchanged_outside (unat wa) (unat wa + 12) s (set_write_args wa b s)"
    unfolding set_write_args_def store_write_args_def Let_def
    by (rule unchanged_trans, rule unchanged_trans; rule unchanged_wr32) (use u assms in simp_all)
qed

section \<open>Up to the read loop\<close>

lemma line_draws:
  assumes "fb_ok vbe fb s"
  obtains s' where "line vbe 10 10 100 100 c s = Some s'" "draws vbe fb s s'"
proof -
  have "line_fits 10 10 100 100" by (simp add: line_fits_def int_ok_def)
  then obtain ps where "line vbe 10 10 100 100 c s = Some (fold (\<lambda>(x, y). putpixel vbe x y c) ps s)"
    by (rule line_path)
  with that fold_putpixel_draws [OF assms, of "\<lambda>_ _. c" ps] show ?thesis by blast
qed

lemma init_keyboard_booted:
  assumes "booted isr irqp isr128 (init_keyboard k)"
  shows "booted isr irqp isr128 (on_hw f ((init_keyboard (k\<lparr>con := t\<rparr>))\<lparr>con := u\<rparr>))"
  using booted_cong [of "on_hw f ((init_keyboard (k\<lparr>con := t\<rparr>))\<lparr>con := u\<rparr>)" "init_keyboard k"] assms
  by (simp add: init_keyboard_fields)

lemma write_call:
  assumes "booted isr irqp isr128 (on_hw (set_write_args wa b) k)" "fb_ok vbe fb (hw (con k))"
    and "clear_block vbe fb wa 12" "clear_block vbe fb b 4" "unat b + 4 \<le> unat wa \<or> unat wa + 12 \<le> unat b"
  shows "syscall isr irqp isr128 vbe regs SYS_WRITE wa (on_hw (set_write_args wa b) k) =
    Some (4, k\<lparr>con := fold (kputc vbe) (load_bytes (hw (con k)) b 4) ((con k)\<lparr>hw := set_write_args wa b (hw (con k))\<rparr>)\<rparr>)"
proof -
  let ?k = "on_hw (set_write_args wa b) k" let ?s = "set_write_args wa b (hw (con k))"
  from assms(3,4) have w: "unat wa + 12 \<le> 4294967296" "unat b + 4 \<le> 4294967296" by (simp_all add: clear_block_def)
  note e = set_write_args_effect [OF w(1), where b = b and s = "hw (con k)"]
  have "load_bytes ?s b 4 = load_bytes (hw (con k)) b 4"
    by (rule load_bytes_unchanged [OF e(3)]) (use assms(5) w in auto)
  moreover have "sys_write_loop vbe wa 0 (con ?k) = (4, fold (kputc vbe) (load_bytes ?s b 4) (con ?k))"
    using sys_write_loop_eq [of 4 "con ?k" wa 0 vbe fb] fb_ok_block [OF assms(2,3) e(3)] e(1,2) assms(3,4)
    by (simp add: args_placed_def args_avoid_def clear_block_def)
  moreover have "con ?k = (con k)\<lparr>hw := ?s\<rparr>" by (simp add: on_hw_def)
  ultimately show ?thesis
    by (simp add: syscall_booted [OF assms(1)] boot_table_def sys_write_def) (simp add: on_hw_def)
qed

text \<open>The console after \<open>kmain_start\<close>, with the machine \<open>s\<close> that the line leaves.\<close>

definition start_console :: "u32 \<Rightarrow> u32 \<Rightarrow> u32 \<Rightarrow> tty \<Rightarrow> machine \<Rightarrow> tty" where
  "start_console vbe wa buf_wa t s =
     (let t = fold (kputc vbe) ready_text ((fold (kputc vbe) hello_text t)\<lparr>hw := s\<rparr>)
      in fold (kputc vbe) written_text (t\<lparr>hw := set_write_args wa buf_wa (hw t)\<rparr>))"

lemma kmain_start_run:
  assumes "booted isr irqp isr128 (init_keyboard k)" "fb_ok vbe fb (hw (con k))"
    and lay: "kmain_layout vbe fb wa buf_wa ra buf_ra" and test: "load_bytes (hw (con k)) buf_wa 4 = bytes ''TEST''"
  obtains s k1 where "line vbe 10 10 100 100 COLOR_RED (hw (fold (kputc vbe) hello_text (con k))) = Some s"
    "kmain_start vbe isr irqp isr128 regs wa buf_wa k = Some k1" "con k1 = start_console vbe wa buf_wa (con k) s"
    "fb_ok vbe fb (hw (con k1))" "k1 = (init_keyboard k)\<lparr>con := con k1\<rparr>"
proof -
  let ?t1 = "fold (kputc vbe) hello_text (con k)"
  note p1 = kprintf_text [OF kmain_formats(1), of vbe "con k"]
  have d1: "draws vbe fb (hw (con k)) (hw ?t1)" by (rule kputcs_draws [OF assms(2)])
  obtain s where s: "line vbe 10 10 100 100 COLOR_RED (hw ?t1) = Some s" "draws vbe fb (hw ?t1) s"
    by (rule line_draws [OF draws_ok [OF d1]])
  let ?t2 = "fold (kputc vbe) ready_text (?t1\<lparr>hw := s\<rparr>)"
  let ?k = "init_keyboard (k\<lparr>con := ?t1\<lparr>hw := s\<rparr>\<rparr>)"
  note p2 = kprintf_text [OF kmain_formats(2), of vbe "?t1\<lparr>hw := s\<rparr>"]
  have d2: "draws vbe fb s (hw ?t2)"
    using kputcs_draws [of vbe fb "?t1\<lparr>hw := s\<rparr>" ready_text] draws_ok [OF s(2)] by simp
  note d = draws_trans [OF d1 draws_trans [OF s(2) d2]]
  from lay have l: "clear_block vbe fb wa 12" "clear_block vbe fb buf_wa 4"
    "unat buf_wa + 4 \<le> unat wa \<or> unat wa + 12 \<le> unat buf_wa" by (simp_all add: kmain_layout_def)
  let ?t3 = "?t2\<lparr>hw := set_write_args wa buf_wa (hw ?t2)\<rparr>"
  have b: "booted isr irqp isr128 (on_hw (set_write_args wa buf_wa) (?k\<lparr>con := ?t2\<rparr>))"
    by (rule init_keyboard_booted [OF assms(1)])
  have call: "syscall isr irqp isr128 vbe regs SYS_WRITE wa (on_hw (set_write_args wa buf_wa) (?k\<lparr>con := ?t2\<rparr>)) =
      Some (4, ?k\<lparr>con := fold (kputc vbe) (bytes ''TEST'') ?t3\<rparr>)"
    using write_call [OF b _ l] draws_ok [OF d]
      draws_block [OF d l(2)] test by simp
  note p3 = kprintf_text [OF kmain_formats(3), of vbe "fold (kputc vbe) (bytes ''TEST'') ?t3"]
  let ?k1 = "?k\<lparr>con := start_console vbe wa buf_wa (con k) s\<rparr>"
  have w: "written_text = bytes ''TEST'' @ bytes '' <-- 4 characters written from syscall.'' @ [ch_nl]"
    by (simp add: written_text_def)
  have run: "kmain_start vbe isr irqp isr128 regs wa buf_wa k = Some ?k1"
    unfolding kmain_start_def start_console_def w Let_def append_assoc
    using p1 s(1) p2 call p3 by (simp add: init_keyboard_fields del: bytes_simps)
  have "unchanged_outside (unat wa) (unat wa + 12) (hw ?t2) (hw ?t3)"
    using set_write_args_effect(3) l(1) by (simp add: clear_block_def)
  then have f: "fb_ok vbe fb (hw ?t3)" by (rule fb_ok_block [OF draws_ok [OF d] l(1)])
  then have "fb_ok vbe fb (hw (start_console vbe wa buf_wa (con k) s))"
    using draws_ok [OF kputcs_draws] unfolding start_console_def Let_def by blast
  moreover have "?k1 = (init_keyboard k)\<lparr>con := con ?k1\<rparr>" by (simp add: init_keyboard_def Let_def)
  ultimately show ?thesis using that [OF s(1) run] by simp
qed

section \<open>The report\<close>

lemma kputc_newline_column [simp]: "g_cursor_col (kputc vbe ch_nl t) = 0"
  by (simp add: kputc_def kprint_eq)

text \<open>At the start of a line a string is printed as its characters are, line feeds included.\<close>

lemma kprintf_string_first:
  assumes "g_cursor_col t = 0" "0 \<notin> set str"
  shows "kprintf vbe (ch_percent # 115 # fmt) [StrArg (Some str)] t = kprintf vbe fmt [] (fold (kputc vbe) str t)"
  using assms by (simp add: print_spec.simps kprint_fold)

lemma kprintf_report:
  assumes "g_cursor_col t = 0" "0 \<notin> set str"
  shows "kprintf vbe (bytes ''%s --> read from syscall'') [StrArg (Some str)] t =
    Some (fold (kputc vbe) (bytes '' --> read from syscall'') (fold (kputc vbe) str t))"
proof -
  have fmt: "bytes ''%s --> read from syscall'' = ch_percent # 115 # bytes '' --> read from syscall''" by simp
  show ?thesis
    unfolding fmt kprintf_string_first [OF assms] by (rule kprintf_text) (simp_all add: format_text_literal)
qed

lemma kmain_end_run:
  assumes "fb_ok vbe fb (hw (con k))" "clear_block vbe fb buf_ra 5"
    and "load_bytes (hw (con k)) buf_ra 4 = str" "0 \<notin> set str" "rd8 (hw (con k)) (buf_ra + 4) = 0"
  shows "kmain_end vbe buf_ra 4 k = Some (k\<lparr>con := fold (kputc vbe) (report_text str) (con k)\<rparr>)"
proof -
  let ?t = "fold (kputc vbe) ([ch_nl] @ bytes ''4 characters read from syscall.'' @ [ch_nl]) (con k)"
  note p1 = kprintf_text [OF kmain_formats(4), of vbe "con k"]
  have "load_bytes (hw ?t) buf_ra 5 = load_bytes (hw (con k)) buf_ra 5"
    by (rule draws_block [OF kputcs_draws [OF assms(1)] assms(2)])
  also have "\<dots> = str @ [0]"
    using load_bytes_append [of "hw (con k)" buf_ra 4 1] assms(3,5) by (simp add: load_bytes_Suc)
  finally have b5: "load_bytes (hw ?t) buf_ra 5 = str @ [0]" .
  have buf: "takeWhile (\<lambda>c. c \<noteq> 0) (load_bytes (hw ?t) buf_ra 5) = str"
    unfolding b5 using assms(4) by (subst takeWhile_append2) auto
  have col: "g_cursor_col ?t = 0" by simp
  have p2: "kprintf vbe (bytes ''%s --> read from syscall'') [StrArg (Some str)] ?t =
      Some (fold (kputc vbe) (bytes '' --> read from syscall'') (fold (kputc vbe) str ?t))"
    by (rule kprintf_report [OF col assms(4)])
  show ?thesis
    unfolding kmain_end_def report_text_def using p1 p2 buf by (simp del: bytes_simps)
qed

section \<open>The read loop between them\<close>

lemma read_run_nonzero:
  "read_run isr irqp isr128 vbe regs ra buf k0 got k typed \<Longrightarrow> 0 \<notin> set typed"
  by (induction rule: read_run.induct) (auto simp: char_of_def Let_def split: if_splits)

lemma kmain_prepare_effect:
  assumes "kmain_layout vbe fb wa buf_wa ra buf_ra" "fb_ok vbe fb (hw (con k))"
  shows "fb_ok vbe fb (hw (con (kmain_prepare ra buf_ra k)))" "rd8 (hw (con (kmain_prepare ra buf_ra k))) (buf_ra + 4) = 0"
    "args_fd (hw (con (kmain_prepare ra buf_ra k))) ra = 1"
proof -
  let ?s = "hw (con k)"
  from assms(1) have l: "clear_block vbe fb ra 12" "clear_block vbe fb buf_ra 5" "unat ra + 12 \<le> 4294967296"
    "unat buf_ra + 5 \<le> 4294967296" "unat buf_ra + 5 \<le> unat ra \<or> unat ra + 12 \<le> unat buf_ra"
    by (simp_all add: kmain_layout_def clear_block_def)
  then have u: "unat (ra + 4) = unat ra + 4" "unat (buf_ra + 4) = unat buf_ra + 4" by (simp_all add: u32_plus_no_wrap)
  let ?f = "fill_bytes buf_ra 5 0 ?s"
  have f: "unchanged_outside (unat buf_ra) (unat buf_ra + 5) ?s ?f" by (rule unchanged_fill_bytes) (use l in simp_all)
  have w: "unchanged_outside (unat ra) (unat ra + 12) ?f (wr32 ?f (ra + 4) 1)" by (rule unchanged_wr32) (use l u in simp_all)
  have "fb_ok vbe fb ?f" by (rule fb_ok_block [OF assms(2) l(2) f])
  from fb_ok_block [OF this l(1) w] show "fb_ok vbe fb (hw (con (kmain_prepare ra buf_ra k)))"
    by (simp add: kmain_prepare_def)
  have "rd8 ?f (buf_ra + 4) = 0" by (simp add: rd8_def load8_def mem_fill_bytes)
  moreover have "rd8 (wr32 ?f (ra + 4) 1) (buf_ra + 4) = rd8 ?f (buf_ra + 4)"
    using w l(5) u by (auto simp: unchanged_outside_def rd8_def load8_def)
  ultimately show "rd8 (hw (con (kmain_prepare ra buf_ra k))) (buf_ra + 4) = 0" by (simp add: kmain_prepare_def)
  show "args_fd (hw (con (kmain_prepare ra buf_ra k))) ra = 1" by (simp add: kmain_prepare_def args_fd_def)
qed

lemma rest_kept_effect:
  assumes "kmain_layout vbe fb wa buf_wa ra buf_ra" "rest_kept ra buf_ra s t"
  shows "fb_ok vbe fb s \<Longrightarrow> fb_ok vbe fb t" "rd8 t (buf_ra + 4) = rd8 s (buf_ra + 4)"
proof -
  from assms(1) have l: "clear_block vbe fb ra 12" "clear_block vbe fb buf_ra 5"
    "unat buf_ra + 5 \<le> unat ra \<or> unat ra + 12 \<le> unat buf_ra" by (simp_all add: kmain_layout_def)
  then have u: "unat (buf_ra + 4) = unat buf_ra + 4" by (simp add: u32_plus_no_wrap clear_block_def)
  show "fb_ok vbe fb t" if "fb_ok vbe fb s"
    by (rule fb_ok_cong [OF that]) (use assms(2) l in \<open>auto simp: rest_kept_def clear_block_def\<close>)
  show "rd8 t (buf_ra + 4) = rd8 s (buf_ra + 4)"
    using assms(2) l u by (auto simp: rest_kept_def rd8_def load8_def)
qed

section \<open>The whole of kmain\<close>

text \<open>The state and the placement of objects that \<^verbatim>\<open>kmain\<close> relies on when it is called.\<close>

definition kmain_ready :: "(nat \<Rightarrow> u32) \<Rightarrow> (nat \<Rightarrow> u32) \<Rightarrow> u32 \<Rightarrow> u32 \<Rightarrow> framebuffer_info \<Rightarrow> u32 \<Rightarrow> u32 \<Rightarrow> u32 \<Rightarrow> u32 \<Rightarrow>
    kernel \<Rightarrow> bool" where
  "kmain_ready isr irqp isr128 vbe fb wa buf_wa ra buf_ra k \<longleftrightarrow>
     booted isr irqp isr128 (init_keyboard k) \<and> int_flag k \<and> length (buffer (kb k)) = 256 \<and>
     fb_ok vbe fb (hw (con k)) \<and> kmain_layout vbe fb wa buf_wa ra buf_ra \<and>
     load_bytes (hw (con k)) buf_wa 4 = bytes ''TEST''"

definition ready_to_read :: "(nat \<Rightarrow> u32) \<Rightarrow> (nat \<Rightarrow> u32) \<Rightarrow> u32 \<Rightarrow> kernel \<Rightarrow> bool" where
  "ready_to_read isr irqp isr128 k \<longleftrightarrow> booted isr irqp isr128 k \<and> int_flag k \<and> kb_ok (kb k) \<and>
     kb_contents (kb k) = [] \<and> \<not> shift_held (kb k)"

lemma kmain_start_ready:
  assumes "kmain_ready isr irqp isr128 vbe fb wa buf_wa ra buf_ra k" "k1 = (init_keyboard k)\<lparr>con := t\<rparr>"
  shows "ready_to_read isr irqp isr128 k1"
  using booted_cong [of k1 "init_keyboard k"] kb_init_ok [of "kb k"] assms(1)
  by (simp add: ready_to_read_def kmain_ready_def assms(2)) (simp add: init_keyboard_def Let_def)

lemma kmain_read_layout: "kmain_layout vbe fb wa buf_wa ra buf_ra \<Longrightarrow> read_layout ra buf_ra"
proof -
  assume "kmain_layout vbe fb wa buf_wa ra buf_ra"
  then have "unat ra + 12 \<le> 4294967296" "unat buf_ra + 5 \<le> 4294967296"
    "unat buf_ra + 5 \<le> unat ra \<or> unat ra + 12 \<le> unat buf_ra" by (simp_all add: kmain_layout_def clear_block_def)
  then show ?thesis by (auto simp: read_layout_def)
qed

lemma kmain_loop_ready:
  assumes "kmain_layout vbe fb wa buf_wa ra buf_ra" "ready_to_read isr irqp isr128 k1"
  defines "k0 \<equiv> kmain_prepare ra buf_ra k1"
  shows "read_layout ra buf_ra" "booted isr irqp isr128 k0" "int_flag k0" "kb_ok (kb k0)" "kb_contents (kb k0) = []"
proof -
  show "read_layout ra buf_ra" by (rule kmain_read_layout [OF assms(1)])
  show "booted isr irqp isr128 k0" "int_flag k0" "kb_ok (kb k0)" "kb_contents (kb k0) = []"
    using booted_cong [of k0 k1] assms(2) by (simp_all add: k0_def kmain_prepare_def ready_to_read_def)
qed

text \<open>Keys can be pressed at any moment of the loop: a run goes on with the text they stand for.\<close>

lemma read_run_keys:
  assumes "read_run isr irqp isr128 vbe regs ra buf k0 got k typed"
    and "read_layout ra buf" "booted isr irqp isr128 k0" "int_flag k0" "kb_ok (kb k0)"
    and "kb_pending (kb k) + length scs \<le> 256"
  shows "\<exists>k'. read_run isr irqp isr128 vbe regs ra buf k0 got k' (typed @ decode (shift_held (kb k)) scs)"
  using assms(1,6)
proof (induction scs arbitrary: k typed)
  case (Cons sc scs)
  let ?k = "on_hw (pic_send_eoi 1) (press sc (k\<lparr>kb := handle_scancode sc (kb k)\<rparr>))"
  have inv: "booted isr irqp isr128 k" "int_flag k" "kb_ok (kb k)"
    using read_run_inv [OF Cons.prems(1) assms(2-5)] by (simp_all add: read_inv_def)
  have run: "read_run isr irqp isr128 vbe regs ra buf k0 got ?k (typed @ char_of sc (shift_held (kb k)))"
    by (rule read_key [OF Cons.prems(1) inv(2) _ deliver_key [OF inv(1)]]) (use Cons.prems(2) in simp)
  have "length (kb_contents (kb k)) + length (char_of sc (shift_held (kb k))) \<le> 256"
    using Cons.prems(2) char_of_length [of sc "shift_held (kb k)"] by (simp add: kb_contents_def)
  note h = handle_scancode_contents [OF inv(3) this]
  have kb: "kb ?k = handle_scancode sc (kb k)" by (simp add: press_def)
  have "length (kb_contents (kb ?k)) \<le> kb_pending (kb k) + 1"
    unfolding kb h(2) using char_of_length [of sc "shift_held (kb k)"] by (simp add: kb_contents_def)
  then have "kb_pending (kb ?k) + length scs \<le> 256" using Cons.prems(2) by (simp add: kb_contents_def)
  from Cons.IH [OF run this] show ?case by (simp add: press_def h(3))
qed auto

text \<open>When there are four characters of input, the loop is over or ends with its next round.\<close>

lemma read_loop_ends:
  fixes k0 :: kernel and typed :: "u8 list"
  defines "str \<equiv> kb_contents (kb k0) @ typed"
  assumes "read_run isr irqp isr128 vbe regs ra buf k0 got k typed"
    and "read_layout ra buf" "booted isr irqp isr128 k0" "int_flag k0" "kb_ok (kb k0)" "4 \<le> length str"
  obtains k' where "k' = k \<and> got = 4 \<or> read_step isr irqp isr128 vbe regs ra buf 4 (got, k) = Some (4, k')"
    "read_run isr irqp isr128 vbe regs ra buf k0 4 k' typed" "read_inv isr irqp isr128 ra buf k0 4 k' str"
proof -
  have inv: "read_inv isr irqp isr128 ra buf k0 got k str" unfolding str_def by (rule read_run_inv [OF assms(2-6)])
  show ?thesis
  proof (cases "got < 4")
    case True
    then obtain k' where k': "read_step isr irqp isr128 vbe regs ra buf 4 (got, k) = Some (4, k')"
      using read_step_effect [OF inv assms(3) True] assms(7) by (auto simp: min_def)
    have run: "read_run isr irqp isr128 vbe regs ra buf k0 4 k' typed" by (rule read_call [OF assms(2) True k'])
    have "read_inv isr irqp isr128 ra buf k0 4 k' str" unfolding str_def by (rule read_run_inv [OF run assms(3-6)])
    from that [OF disjI2 [OF k'] run this] show ?thesis .
  next
    case False
    then have "unat got = 4" using inv by (simp add: read_inv_def word_less_nat_alt)
    then have g: "got = 4" by (simp add: word_unat_eq_iff)
    from that [of k] assms(2) inv show ?thesis by (simp add: g)
  qed
qed

text \<open>The loop and what comes after it, from any state in which the loop can start.\<close>

definition loop_ready :: "(nat \<Rightarrow> u32) \<Rightarrow> (nat \<Rightarrow> u32) \<Rightarrow> u32 \<Rightarrow> u32 \<Rightarrow> framebuffer_info \<Rightarrow> u32 \<Rightarrow> kernel \<Rightarrow> bool" where
  "loop_ready isr irqp isr128 vbe fb buf_ra k0 \<longleftrightarrow> booted isr irqp isr128 k0 \<and> int_flag k0 \<and> kb_ok (kb k0) \<and>
     0 \<notin> set (kb_contents (kb k0)) \<and> fb_ok vbe fb (hw (con k0)) \<and> rd8 (hw (con k0)) (buf_ra + 4) = 0"

lemma loop_then_report:
  fixes k0 :: kernel and typed :: "u8 list"
  defines "str \<equiv> kb_contents (kb k0) @ typed"
  assumes lay: "kmain_layout vbe fb wa buf_wa ra buf_ra" and ready: "loop_ready isr irqp isr128 vbe fb buf_ra k0"
    and run: "read_run isr irqp isr128 vbe regs ra buf_ra k0 got k2 typed" "4 \<le> length str"
  obtains k3 where "k3 = k2 \<and> got = 4 \<or> read_step isr irqp isr128 vbe regs ra buf_ra 4 (got, k2) = Some (4, k3)"
    "read_run isr irqp isr128 vbe regs ra buf_ra k0 4 k3 typed"
    "kmain_end vbe buf_ra 4 k3 = Some (k3\<lparr>con := fold (kputc vbe) (report_text (take 4 str)) (con k3)\<rparr>)"
    "read_inv isr irqp isr128 ra buf_ra k0 4 k3 str" "fb_ok vbe fb (hw (con k3))"
proof -
  have r: "booted isr irqp isr128 k0" "int_flag k0" "kb_ok (kb k0)" "0 \<notin> set (kb_contents (kb k0))"
    "fb_ok vbe fb (hw (con k0))" "rd8 (hw (con k0)) (buf_ra + 4) = 0" using ready by (simp_all add: loop_ready_def)
  have rl: "read_layout ra buf_ra" by (rule kmain_read_layout [OF lay])
  obtain k3 where k3: "k3 = k2 \<and> got = 4 \<or> read_step isr irqp isr128 vbe regs ra buf_ra 4 (got, k2) = Some (4, k3)"
    "read_run isr irqp isr128 vbe regs ra buf_ra k0 4 k3 typed" "read_inv isr irqp isr128 ra buf_ra k0 4 k3 str"
    using read_loop_ends [OF run(1) rl r(1-3)] run(2) unfolding str_def by blast
  then have rk: "rest_kept ra buf_ra (hw (con k0)) (hw (con k3))" by (simp add: read_inv_def)
  have fb: "fb_ok vbe fb (hw (con k3))" by (rule rest_kept_effect(1) [OF lay rk r(5)])
  have z: "rd8 (hw (con k3)) (buf_ra + 4) = 0" using rest_kept_effect(2) [OF lay rk] r(6) by simp
  have ld: "load_bytes (hw (con k3)) buf_ra 4 = take 4 str"
    using k3(3) by (auto simp: read_inv_def load_bytes_def)
  have "0 \<notin> set str" using read_run_nonzero [OF k3(2)] r(4) by (simp add: str_def)
  then have nz: "0 \<notin> set (take 4 str)" using set_take_subset [of 4 str] by blast
  have cb: "clear_block vbe fb buf_ra 5" using lay by (simp add: kmain_layout_def)
  from that [OF k3(1,2) kmain_end_run [OF fb cb ld nz z] k3(3) fb] show ?thesis .
qed

lemma kmain_finishes:
  assumes "kmain_ready isr irqp isr128 vbe fb wa buf_wa ra buf_ra k"
    and "kmain_start vbe isr irqp isr128 regs wa buf_wa k = Some k1" "k1 = (init_keyboard k)\<lparr>con := con k1\<rparr>"
    "fb_ok vbe fb (hw (con k1))"
    and "read_run isr irqp isr128 vbe regs ra buf_ra (kmain_prepare ra buf_ra k1) got k2 typed" "4 \<le> length typed"
  obtains k3 where "k3 = k2 \<and> got = 4 \<or> read_step isr irqp isr128 vbe regs ra buf_ra 4 (got, k2) = Some (4, k3)"
    "kmain isr irqp isr128 vbe regs wa buf_wa ra buf_ra k typed
       (k3\<lparr>con := fold (kputc vbe) (report_text (take 4 typed)) (con k3)\<rparr>)"
    "read_inv isr irqp isr128 ra buf_ra (kmain_prepare ra buf_ra k1) 4 k3 typed" "fb_ok vbe fb (hw (con k3))"
proof -
  let ?k0 = "kmain_prepare ra buf_ra k1"
  have lay: "kmain_layout vbe fb wa buf_wa ra buf_ra" using assms(1) by (simp add: kmain_ready_def)
  note r = kmain_loop_ready [OF lay kmain_start_ready [OF assms(1,3)]]
  have ready: "loop_ready isr irqp isr128 vbe fb buf_ra ?k0"
    using r kmain_prepare_effect [OF lay assms(4)] by (simp add: loop_ready_def)
  have e: "kb_contents (kb ?k0) @ typed = typed" using r(5) by simp
  obtain k3 where k3: "k3 = k2 \<and> got = 4 \<or> read_step isr irqp isr128 vbe regs ra buf_ra 4 (got, k2) = Some (4, k3)"
    "read_run isr irqp isr128 vbe regs ra buf_ra ?k0 4 k3 typed"
    "kmain_end vbe buf_ra 4 k3 = Some (k3\<lparr>con := fold (kputc vbe) (report_text (take 4 typed)) (con k3)\<rparr>)"
    "read_inv isr irqp isr128 ra buf_ra ?k0 4 k3 typed" "fb_ok vbe fb (hw (con k3))"
    by (rule loop_then_report [OF lay ready assms(5), unfolded e, OF assms(6)])
  have "kmain isr irqp isr128 vbe regs wa buf_wa ra buf_ra k typed
      (k3\<lparr>con := fold (kputc vbe) (report_text (take 4 typed)) (con k3)\<rparr>)"
    by (rule kmain.intros [OF assms(2) k3(2) _ k3(3)]) simp
  from that [OF k3(1) this k3(4,5)] show ?thesis .
qed

section \<open>The memory managers under kmain\<close>

text \<open>The objects of \<^verbatim>\<open>kmain\<close> lie below the page directory, as the image and the stack do.\<close>

definition kmain_below :: "nat \<Rightarrow> u32 \<Rightarrow> u32 \<Rightarrow> u32 \<Rightarrow> u32 \<Rightarrow> bool" where
  "kmain_below d wa buf_wa ra buf_ra \<longleftrightarrow>
     unat wa + 12 \<le> d \<and> unat buf_wa + 4 \<le> d \<and> unat ra + 12 \<le> d \<and> unat buf_ra + 5 \<le> d"

lemma vmm_low_change:
  assumes "vmm_ok v s" "unchanged_outside lo hi s t" "hi \<le> unat (entries (vpd v))"
  shows "same_memory v s t"
proof -
  have hi: "hi \<le> 0x100000" using assms(3) vmm_pd_low [OF assms(1)] by simp
  have pt: "pte t w = pte s w" for w using pte_unchanged [OF assms(2)] hi by simp
  note okD = vmm_okD [OF assms(1)]
  have fu: "fa_used t k = fa_used s k" if "k < scanned (vfa v) \<or> k = 0" for k
    using fa_used_unchanged [OF okD(2) assms(2) _ that] hi by simp
  have "pd_wf t (vpd v)" using pd_wf_unchanged [OF _ assms(2)] assms(1,3) by (simp add: vmm_ok_def)
  then have ok: "vmm_ok v t" using assms(1) fu [of 0] by (simp add: vmm_ok_def fa_ok_def)
  have "vused v t j = vused v s j" if "j < 131072" for j
    using dword_bitmap.bm_test_unchanged [OF vmm_bitmap [OF assms(1)] assms(2), of "of_nat j"] that hi okD(7)
    by (auto simp: vused_def unat_u32_of_nat)
  with pt fu ok show ?thesis by (simp add: same_memory_def)
qed

lemma kmain_start_memory:
  assumes "vmm_ok v (hw t)" "fb_ok vbe fb (hw t)" "fb_clear fb v" "clear_block vbe fb wa 12"
    and "unat wa + 12 \<le> unat (entries (vpd v))"
    and "line vbe 10 10 100 100 COLOR_RED (hw (fold (kputc vbe) hello_text t)) = Some s"
  shows "same_memory v (hw t) (hw (start_console vbe wa buf_wa t s))"
proof -
  let ?t1 = "fold (kputc vbe) hello_text t"
  have d1: "draws vbe fb (hw t) (hw ?t1)" by (rule kputcs_draws [OF assms(2)])
  have d2: "draws vbe fb (hw ?t1) s" using line_draws [OF draws_ok [OF d1]] assms(6) by (metis option.inject)
  let ?t2 = "fold (kputc vbe) ready_text (?t1\<lparr>hw := s\<rparr>)"
  have "draws vbe fb s (hw ?t2)"
    using kputcs_draws [of vbe fb "?t1\<lparr>hw := s\<rparr>" ready_text] draws_ok [OF d2] by simp
  note d = draws_trans [OF d1 draws_trans [OF d2 this]]
  note m2 = vmm_draws(1) [OF assms(1) d assms(3)]
  let ?t3 = "?t2\<lparr>hw := set_write_args wa buf_wa (hw ?t2)\<rparr>"
  have u: "unchanged_outside (unat wa) (unat wa + 12) (hw ?t2) (hw ?t3)"
    using set_write_args_effect(3) assms(4) by (simp add: clear_block_def)
  have m3: "same_memory v (hw ?t2) (hw ?t3)"
    by (rule vmm_low_change [OF _ u assms(5)]) (use m2 in \<open>simp add: same_memory_def\<close>)
  have "fb_ok vbe fb (hw ?t3)" by (rule fb_ok_block [OF draws_ok [OF d] assms(4) u])
  then have "draws vbe fb (hw ?t3) (hw (fold (kputc vbe) written_text ?t3))" by (rule kputcs_draws)
  then have "same_memory v (hw ?t3) (hw (fold (kputc vbe) written_text ?t3))"
    by (rule vmm_draws(1) [rotated]) (use m3 assms(3) in \<open>simp_all add: same_memory_def\<close>)
  from same_memory_trans [OF same_memory_trans [OF m2 m3] this] show ?thesis
    by (simp only: start_console_def Let_def)
qed

lemma kmain_prepare_change:
  assumes "kmain_below d wa buf_wa ra buf_ra" "d \<le> 0x100000"
  shows "unchanged_outside 0 d (hw (con k)) (hw (con (kmain_prepare ra buf_ra k)))"
proof -
  from assms(1) have b: "unat ra + 12 \<le> d" "unat buf_ra + 5 \<le> d" by (simp_all add: kmain_below_def)
  then have ra4: "unat (ra + 4) = unat ra + 4" using assms(2) by (simp add: u32_plus_no_wrap)
  show ?thesis
    unfolding kmain_prepare_def on_hw_fields
    by (rule unchanged_trans [OF unchanged_fill_bytes unchanged_wr32]) (use b assms(2) ra4 in simp_all)
qed

lemma kmain_prepare_memory:
  assumes "kmain_below (unat (entries (vpd v))) wa buf_wa ra buf_ra" "vmm_ok v (hw (con k))"
  shows "same_memory v (hw (con k)) (hw (con (kmain_prepare ra buf_ra k)))"
  by (rule vmm_low_change [OF assms(2) kmain_prepare_change [OF assms(1)] order_refl])
    (use vmm_pd_low [OF assms(2)] in simp)

lemma kmain_loop_memory:
  assumes "kmain_layout vbe fb wa buf_wa ra buf_ra" "kmain_below (unat (entries (vpd v))) wa buf_wa ra buf_ra"
    and "vmm_ok v (hw (con k1))" "rest_kept ra buf_ra (hw (con (kmain_prepare ra buf_ra k1))) (hw (con k3))"
    and "fb_ok vbe fb (hw (con k3))" "fb_clear fb v"
  shows "same_memory v (hw (con k1)) (hw (fold (kputc vbe) str (con k3)))"
proof -
  let ?d = "unat (entries (vpd v))" let ?k0 = "kmain_prepare ra buf_ra k1"
  from assms(2) have b: "unat ra + 12 \<le> ?d" "unat buf_ra + 5 \<le> ?d" by (simp_all add: kmain_below_def)
  have d: "?d \<le> 0x100000" using vmm_pd_low [OF assms(3)] by simp
  have "unchanged_outside 0 ?d (hw (con k1)) (hw (con ?k0))" by (rule kmain_prepare_change [OF assms(2) d])
  moreover have "unchanged_outside 0 ?d (hw (con ?k0)) (hw (con k3))"
    using assms(4) b by (auto simp: rest_kept_def unchanged_outside_def)
  ultimately have u: "unchanged_outside 0 ?d (hw (con k1)) (hw (con k3))" by (rule unchanged_trans)
  have m: "same_memory v (hw (con k1)) (hw (con k3))" by (rule vmm_low_change [OF assms(3) u order_refl])
  then have "same_memory v (hw (con k3)) (hw (fold (kputc vbe) str (con k3)))"
    by (intro vmm_draws(1) [OF _ kputcs_draws [OF assms(5)] assms(6)]) (simp add: same_memory_def)
  with m show ?thesis by (rule same_memory_trans)
qed

lemma kmain_completes:
  assumes ready: "kmain_ready isr irqp isr128 vbe fb wa buf_wa ra buf_ra k"
    and k1: "kmain_start vbe isr irqp isr128 regs wa buf_wa k = Some k1" "k1 = (init_keyboard k)\<lparr>con := con k1\<rparr>"
      "fb_ok vbe fb (hw (con k1))" "vmm_ok v (hw (con k1))"
    and below: "kmain_below (unat (entries (vpd v))) wa buf_wa ra buf_ra" "fb_clear fb v"
    and run: "read_run isr irqp isr128 vbe regs ra buf_ra (kmain_prepare ra buf_ra k1) got k2 typed" "4 \<le> length typed"
  shows "\<exists>k3 k4. (k3 = k2 \<and> got = 4 \<or> read_step isr irqp isr128 vbe regs ra buf_ra 4 (got, k2) = Some (4, k3)) \<and>
      kmain isr irqp isr128 vbe regs wa buf_wa ra buf_ra k typed k4 \<and>
      con k4 = fold (kputc vbe) (report_text (take 4 typed)) (con k3) \<and>
      same_memory v (hw (con k1)) (hw (con k4)) \<and> fb_ok vbe fb (hw (con k4)) \<and>
      booted isr irqp isr128 k4 \<and> int_flag k4 \<and> kb_contents (kb k4) = drop 4 typed"
proof -
  obtain k3 where k3: "k3 = k2 \<and> got = 4 \<or> read_step isr irqp isr128 vbe regs ra buf_ra 4 (got, k2) = Some (4, k3)"
    "kmain isr irqp isr128 vbe regs wa buf_wa ra buf_ra k typed
       (k3\<lparr>con := fold (kputc vbe) (report_text (take 4 typed)) (con k3)\<rparr>)"
    "read_inv isr irqp isr128 ra buf_ra (kmain_prepare ra buf_ra k1) 4 k3 typed" "fb_ok vbe fb (hw (con k3))"
    by (rule kmain_finishes [OF ready k1(1-3) run])
  let ?k4 = "k3\<lparr>con := fold (kputc vbe) (report_text (take 4 typed)) (con k3)\<rparr>"
  have lay: "kmain_layout vbe fb wa buf_wa ra buf_ra" using ready by (simp add: kmain_ready_def)
  have rk: "rest_kept ra buf_ra (hw (con (kmain_prepare ra buf_ra k1))) (hw (con k3))"
    using k3(3) by (simp add: read_inv_def)
  have "same_memory v (hw (con k1)) (hw (con ?k4))"
    using kmain_loop_memory [OF lay below(1) k1(4) rk k3(4) below(2)] by simp
  moreover have "fb_ok vbe fb (hw (con ?k4))"
    using draws_ok [OF kputcs_draws [OF k3(4)]] by simp
  moreover have "booted isr irqp isr128 ?k4" "int_flag ?k4" "kb_contents (kb ?k4) = drop 4 typed"
    using k3(3) booted_cong [of ?k4 k3] by (auto simp: read_inv_def load_bytes_def)
  ultimately show ?thesis using k3(1,2) by (intro exI [of _ k3] exI [of _ ?k4]) simp
qed

text \<open>The way from power on to the call of \<^verbatim>\<open>kmain\<close>.\<close>

lemma boot_ready:
  fixes k :: kernel and vbe bi :: u32
  defines "fb \<equiv> get_framebuffer_info vbe (hw (con k))"
  assumes "good_boot vbe bi n (hw (con k))" "kernel_ok k" "length (buffer (kb k)) = 256"
    and "distinct (map (stub_addr isr irqp isr128) stub_vectors)"
    and "kmain_layout vbe fb wa buf_wa ra buf_ra"
    and "kmain_below (unat (bi_page_directory (hw (con k)) bi)) wa buf_wa ra buf_ra"
    and "load_bytes (hw (con k)) buf_wa 4 = bytes ''TEST''"
  obtains v k0 where "platform_init vbe bi gdt_addr idt_addr isr irqp isr128 self k = Some (v, k0)"
    "kmain_ready isr irqp isr128 vbe fb wa buf_wa ra buf_ra k0" "handlers k0 ! 33 = Default_irq_handler"
    "vmm_ok v (hw (con k0))" "fb_clear fb v" "kmain_below (unat (entries (vpd v))) wa buf_wa ra buf_ra"
    "paging_ok vbe (vpd v) (hw (con k0))" "fb_apart fb"
proof -
  obtain v k0 where i: "platform_init vbe bi gdt_addr idt_addr isr irqp isr128 self k = Some (v, k0)"
    "vmm_ok v (hw (con k0))" "entries (vpd v) = bi_page_directory (hw (con k)) bi"
    "booted isr irqp isr128 (init_keyboard k0)" "int_flag k0" "kb k0 = kb k" "handlers k0 ! 33 = Default_irq_handler"
    "fb_ok vbe fb (hw (con k0))" "fb_clear fb v" "paging_ok vbe (vpd v) (hw (con k0))"
    "unchanged_outside (unat (bi_page_directory (hw (con k)) bi)) 4294967296 (hw (con k)) (hw (con k0))"
    unfolding fb_def by (rule platform_init_run [OF assms(2,3,5), of gdt_addr idt_addr self])
  have low: "unat buf_wa + 4 \<le> unat (bi_page_directory (hw (con k)) bi)" using assms(7) by (simp add: kmain_below_def)
  have "load_bytes (hw (con k0)) buf_wa 4 = load_bytes (hw (con k)) buf_wa 4" (is "?l = ?r")
    by (rule load_bytes_unchanged [OF i(11)]) (use low unat_u32_lt [of "bi_page_directory (hw (con k)) bi"] in linarith)+
  then have "?l = bytes ''TEST''" using assms(8) by (rule trans)
  then have "kmain_ready isr irqp isr128 vbe fb wa buf_wa ra buf_ra k0"
    using assms(4,6) i by (simp add: kmain_ready_def)
  moreover have "kmain_below (unat (entries (vpd v))) wa buf_wa ra buf_ra" using assms(7) i(3) by simp
  moreover have "fb_apart fb" using assms(2) by (simp add: good_boot_def fb_def Let_def)
  ultimately show ?thesis using that i(1,2,7,9,10) by blast
qed

section \<open>Properties\<close>

text \<open>C6. From power on to the report.  On a boot that has what it needs, with the four characters
\<^verbatim>\<open>TEST\<close> in the kernel image and the objects of \<^verbatim>\<open>kmain\<close> below the page directory, outside the
framebuffer and apart: \<open>platform_init\<close> returns, \<open>kmain\<close> gets to its read loop, having drawn the
line and printed its greeting, the keyboard message and the line that reports four written
characters, with an empty keyboard and everything in place to read; and from every moment of the loop at which four characters have been typed,
whatever came before, the loop is over or ends with its next round, \<open>kmain\<close> completes, and what it prints are
the first four characters typed.  Page tables, frame bitmap and page bitmap are then what
\<open>platform_init\<close> left, the kernel, low memory and the screen are mapped as the code needs them, the
interrupt and call tables are in order, interrupts are on, and the characters not read are still
in the keyboard.\<close>

theorem boot_to_report:
  fixes k :: kernel and vbe bi :: u32
  defines "fb \<equiv> get_framebuffer_info vbe (hw (con k))"
  assumes "good_boot vbe bi n (hw (con k))" "kernel_ok k" "length (buffer (kb k)) = 256"
    and "distinct (map (stub_addr isr irqp isr128) stub_vectors)"
    and "kmain_layout vbe fb wa buf_wa ra buf_ra"
    and "kmain_below (unat (bi_page_directory (hw (con k)) bi)) wa buf_wa ra buf_ra"
    and "load_bytes (hw (con k)) buf_wa 4 = bytes ''TEST''"
  shows "\<exists>v k0 s k1. platform_init vbe bi gdt_addr idt_addr isr irqp isr128 self k = Some (v, k0) \<and>
    line vbe 10 10 100 100 COLOR_RED (hw (fold (kputc vbe) hello_text (con k0))) = Some s \<and>
    kmain_start vbe isr irqp isr128 regs wa buf_wa k0 = Some k1 \<and>
    con k1 = start_console vbe wa buf_wa (con k0) s \<and> ready_to_read isr irqp isr128 k1 \<and>
    (\<forall>got k2 typed. read_run isr irqp isr128 vbe regs ra buf_ra (kmain_prepare ra buf_ra k1) got k2 typed \<and>
       4 \<le> length typed \<longrightarrow>
       (\<exists>k3 k4. (k3 = k2 \<and> got = 4 \<or> read_step isr irqp isr128 vbe regs ra buf_ra 4 (got, k2) = Some (4, k3)) \<and>
          kmain isr irqp isr128 vbe regs wa buf_wa ra buf_ra k0 typed k4 \<and>
          con k4 = fold (kputc vbe) (report_text (take 4 typed)) (con k3) \<and>
          same_memory v (hw (con k0)) (hw (con k4)) \<and> paging_ok vbe (vpd v) (hw (con k4)) \<and>
          booted isr irqp isr128 k4 \<and> int_flag k4 \<and> kb_contents (kb k4) = drop 4 typed))"
proof -
  obtain v k0 where i: "platform_init vbe bi gdt_addr idt_addr isr irqp isr128 self k = Some (v, k0)"
    "kmain_ready isr irqp isr128 vbe fb wa buf_wa ra buf_ra k0"
    "vmm_ok v (hw (con k0))" "fb_clear fb v" "kmain_below (unat (entries (vpd v))) wa buf_wa ra buf_ra"
    "paging_ok vbe (vpd v) (hw (con k0))" "fb_apart fb"
    unfolding fb_def by (rule boot_ready [OF assms(2-5) assms(6-8) [unfolded fb_def], of gdt_addr idt_addr self])
  from i(2) have r: "booted isr irqp isr128 (init_keyboard k0)" "fb_ok vbe fb (hw (con k0))"
    "kmain_layout vbe fb wa buf_wa ra buf_ra" "load_bytes (hw (con k0)) buf_wa 4 = bytes ''TEST''"
    by (simp_all add: kmain_ready_def)
  from i(5) have low: "unat wa + 12 \<le> unat (entries (vpd v))" by (simp add: kmain_below_def)
  obtain s k1 where k1: "line vbe 10 10 100 100 COLOR_RED (hw (fold (kputc vbe) hello_text (con k0))) = Some s"
    "kmain_start vbe isr irqp isr128 regs wa buf_wa k0 = Some k1" "con k1 = start_console vbe wa buf_wa (con k0) s"
    "fb_ok vbe fb (hw (con k1))" "k1 = (init_keyboard k0)\<lparr>con := con k1\<rparr>"
    by (rule kmain_start_run [OF r])
  have "clear_block vbe fb wa 12" using assms(6) by (simp add: kmain_layout_def)
  then have m1: "same_memory v (hw (con k0)) (hw (con k1))"
    unfolding k1(3) by (rule kmain_start_memory [OF i(3) r(2) i(4) _ low k1(1)])
  then have ok1: "vmm_ok v (hw (con k1))" by (simp add: same_memory_def)
  have "\<exists>k3 k4. (k3 = k2 \<and> got = 4 \<or> read_step isr irqp isr128 vbe regs ra buf_ra 4 (got, k2) = Some (4, k3)) \<and>
      kmain isr irqp isr128 vbe regs wa buf_wa ra buf_ra k0 typed k4 \<and>
      con k4 = fold (kputc vbe) (report_text (take 4 typed)) (con k3) \<and>
      same_memory v (hw (con k0)) (hw (con k4)) \<and> paging_ok vbe (vpd v) (hw (con k4)) \<and>
      booted isr irqp isr128 k4 \<and> int_flag k4 \<and> kb_contents (kb k4) = drop 4 typed"
    if "read_run isr irqp isr128 vbe regs ra buf_ra (kmain_prepare ra buf_ra k1) got k2 typed" "4 \<le> length typed"
    for got k2 typed
    using kmain_completes [OF i(2) k1(2,5,4) ok1 i(5,4) that] same_memory_trans [OF m1]
      paging_ok_same [OF i(6) _ i(3) r(2) _ i(7)] by blast
  with i(1) k1(1-3) kmain_start_ready [OF i(2) k1(5)] show ?thesis by blast
qed

text \<open>The example machine boots, and \<open>kmain\<close> completes after \<open>abcd\<close> has been typed.\<close>

lemma plat_machine_test:
  "load_bytes plat_machine 0xA000 4 = bytes ''TEST''" "bi_page_directory plat_machine 0x7000 = 0x9C000"
proof -
  have "[0..<4] = [0, 1, 2, 3 :: nat]" by (simp add: upt_rec)
  then show "load_bytes plat_machine 0xA000 4 = bytes ''TEST''"
    by (simp add: load_bytes_def rd8_def load8_def plat_machine_def)
  show "bi_page_directory plat_machine 0x7000 = 0x9C000"
    by (simp add: bi_page_directory_def rd32_def load32_def plat_machine_def screen_machine_def)
qed

lemma plat_kmain_hyps:
  fixes k :: kernel
  defines "k \<equiv> power_on\<lparr>con := boot_tty\<lparr>hw := plat_machine\<rparr>\<rparr>"
  shows "good_boot 0x8000 0x7000 0x501 (hw (con k))" "kernel_ok k" "length (buffer (kb k)) = 256"
    "distinct (map (stub_addr demo_isr demo_irqp 0xC0003000) stub_vectors)"
    "kmain_layout 0x8000 (get_framebuffer_info 0x8000 (hw (con k))) 0xB000 0xA000 0xB010 0xB020"
    "kmain_below (unat (bi_page_directory (hw (con k)) 0x7000)) 0xB000 0xA000 0xB010 0xB020"
    "load_bytes (hw (con k)) 0xA000 4 = bytes ''TEST''"
  using plat_good_boot power_on_ok running_booted
  by (simp_all add: k_def kernel_ok_def booted_def plat_machine_test plat_machine_layout(2) kmain_layout_def
      clear_block_def kmain_below_def mode_1024_def power_on_def blank_keyboard_def del: bytes_simps)

theorem boot_to_report_witness:
  "\<exists>v k0 k4. platform_init 0x8000 0x7000 0xC0021000 0xC0020000 demo_isr demo_irqp 0xC0003000 0xC0005000
       (power_on\<lparr>con := boot_tty\<lparr>hw := plat_machine\<rparr>\<rparr>) = Some (v, k0) \<and>
     kmain demo_isr demo_irqp 0xC0003000 0x8000 some_regs 0xB000 0xA000 0xB010 0xB020 k0 (bytes ''abcd'') k4"
proof -
  let ?k = "power_on\<lparr>con := boot_tty\<lparr>hw := plat_machine\<rparr>\<rparr>"
  note hyps = plat_kmain_hyps
  obtain v k0 k1 where m: "platform_init 0x8000 0x7000 0xC0021000 0xC0020000 demo_isr demo_irqp 0xC0003000 0xC0005000 ?k = Some (v, k0)"
    "ready_to_read demo_isr demo_irqp 0xC0003000 k1"
    and fin: "\<And>got k2 typed. read_run demo_isr demo_irqp 0xC0003000 0x8000 some_regs 0xB010 0xB020 (kmain_prepare 0xB010 0xB020 k1) got k2 typed \<Longrightarrow>
      4 \<le> length typed \<Longrightarrow>
      \<exists>k4. kmain demo_isr demo_irqp 0xC0003000 0x8000 some_regs 0xB000 0xA000 0xB010 0xB020 k0 typed k4"
    using boot_to_report [OF hyps, of "0xC0021000" "0xC0020000" "0xC0005000" some_regs] by blast
  have q: "kb_pending (kb (kmain_prepare 0xB010 0xB020 k1)) = 0" "\<not> shift_held (kb (kmain_prepare 0xB010 0xB020 k1))"
    using m(2) by (simp_all add: ready_to_read_def kmain_prepare_def kb_contents_def)
  have "decode False [0x1E, 0x30, 0x2E, 0x20] = bytes ''abcd''"
    by (simp add: char_of_def shift_after_def scancode_to_ascii_def)
  then obtain k2 where "read_run demo_isr demo_irqp 0xC0003000 0x8000 some_regs 0xB010 0xB020 (kmain_prepare 0xB010 0xB020 k1) 0 k2 (bytes ''abcd'')"
    using read_run_keys [OF read_start kmain_loop_ready(1-4) [OF hyps(5) m(2)], of "[0x1E, 0x30, 0x2E, 0x20]" "0x8000" some_regs] q
    by (auto simp del: decode.simps bytes_simps)
  from fin [OF this] m(1) show ?thesis by simp
qed

end
