(* ===== verification/Preemption.thy ===== *)
theory Preemption
  imports Kernel_Main
begin

text \<open>
  Device interrupts in the middle of other code.  From \<^verbatim>\<open>interrupts::enable\<close> on, the timer, the
  keyboard and the other devices may interrupt between any two actions of the main program.  A
  program is the list of its actions (a pixel, a cursor update, a store, a system call, which
  itself runs with interrupts off), and \<open>preempted\<close> is a run with interrupts between them.  The
  handlers touch only the keyboard and the ports; a program that uses neither is not disturbed.
\<close>

section \<open>Programs with interrupts between their actions\<close>

inductive preempted :: "('e \<Rightarrow> 's \<Rightarrow> 's option) \<Rightarrow> ('s \<Rightarrow> 's) list \<Rightarrow> 's \<Rightarrow> 'e list \<Rightarrow> 's \<Rightarrow> bool"
  for irq where
  finished: "preempted irq [] s [] s"
| action: "preempted irq fs (f s) es t \<Longrightarrow> preempted irq (f # fs) s es t"
| interrupt: "irq e s = Some s' \<Longrightarrow> preempted irq fs s' es t \<Longrightarrow> preempted irq fs s (e # es) t"

inductive_cases preempted_NilE: "preempted irq [] s es t"
inductive_cases preempted_ConsE: "preempted irq (f # fs) s es t"

definition run_acts :: "('s \<Rightarrow> 's) list \<Rightarrow> 's \<Rightarrow> 's" where
  "run_acts fs s = fold (\<lambda>f. f) fs s"

lemma run_acts_simps [simp]:
  "run_acts [] s = s" "run_acts (f # fs) s = run_acts fs (f s)" "run_acts (fs @ gs) s = run_acts gs (run_acts fs s)"
  by (simp_all add: run_acts_def)

text \<open>A program that runs in two parts: the events split at the point where the second part starts.\<close>

lemma preempted_append:
  "preempted irq (fs @ gs) s es t \<longleftrightarrow>
   (\<exists>es1 es2 u. es = es1 @ es2 \<and> preempted irq fs s es1 u \<and> preempted irq gs u es2 t)"
proof
  show "\<exists>es1 es2 u. es = es1 @ es2 \<and> preempted irq fs s es1 u \<and> preempted irq gs u es2 t"
    if "preempted irq (fs @ gs) s es t"
    using that
  proof (induction "fs @ gs" s es t arbitrary: fs rule: preempted.induct)
    case (finished s)
    then show ?case by (auto intro: preempted.finished)
  next
    case (action fs' f s es t)
    show ?case
    proof (cases fs)
      case Nil
      with action show ?thesis by (auto intro: preempted.intros)
    next
      case (Cons f' fs1)
      with action.hyps(3) have "fs' = fs1 @ gs" "f' = f" by simp_all
      with action.hyps(2) Cons show ?thesis by (blast intro: preempted.action)
    qed
  next
    case (interrupt e s s' es t)
    then show ?case by (metis append_Cons preempted.interrupt)
  qed
next
  have "preempted irq fs s es1 u \<Longrightarrow> preempted irq gs u es2 t \<Longrightarrow> preempted irq (fs @ gs) s (es1 @ es2) t" for es1 es2 u
    by (induction rule: preempted.induct) (auto intro: preempted.intros)
  then show "preempted irq (fs @ gs) s es t"
    if "\<exists>es1 es2 u. es = es1 @ es2 \<and> preempted irq fs s es1 u \<and> preempted irq gs u es2 t"
    using that by blast
qed

lemma preempted_Cons:
  assumes "preempted irq (f # gs) s es t"
  shows "\<exists>es1 es2 u. es = es1 @ es2 \<and> preempted irq [] s es1 u \<and> preempted irq gs (f u) es2 t"
  using assms
proof (induction "f # gs" s es t rule: preempted.induct)
  case (action s es t)
  then show ?case by (intro exI [of _ "[]"] exI [of _ es] exI [of _ s]) (simp add: preempted.finished)
next
  case (interrupt e s s' es t)
  then obtain es1 es2 u where "es = es1 @ es2" "preempted irq [] s' es1 u" "preempted irq gs (f u) es2 t" by blast
  moreover have "preempted irq [] s (e # es1) u" by (rule preempted.interrupt [where irq = irq, OF interrupt.hyps(1)]) fact
  ultimately show ?case by (intro exI [of _ "e # es1"] exI [of _ es2] exI [of _ u]) simp
qed

text \<open>The events before and after one action of a program.\<close>

lemma preempted_around:
  assumes "preempted irq (fs @ [f] @ gs) s es t"
  obtains es1 es2 u where "es = es1 @ es2" "preempted irq fs s es1 u" "preempted irq gs (f u) es2 t"
proof -
  obtain ea eb u where a: "es = ea @ eb" "preempted irq fs s ea u" "preempted irq (f # gs) u eb t"
    using assms by (auto simp: preempted_append)
  obtain ec ed v where c: "eb = ec @ ed" "preempted irq [] u ec v" "preempted irq gs (f v) ed t"
    using preempted_Cons [OF a(3)] by blast
  have "preempted irq fs s (ea @ ec) v" using a(2) c(2) preempted_append [of irq fs "[]" s "ea @ ec" v] by auto
  with a(1) c show ?thesis by (intro that [of "ea @ ec" ed v]) simp_all
qed

lemma preempted_join:
  assumes "preempted irq fs s es1 u" "preempted irq gs (f u) es2 t"
  shows "preempted irq (fs @ [f] @ gs) s (es1 @ es2) t"
proof -
  have "preempted irq ([f] @ gs) u es2 t" using preempted.action [of irq gs f u es2 t] assms(2) by simp
  with assms(1) show ?thesis using preempted_append [of irq fs "[f] @ gs"] by blast
qed

lemma preempted_none: "preempted irq fs s [] (run_acts fs s)"
  by (induction fs arbitrary: s) (auto intro: preempted.intros)

text \<open>
  The contract between handlers and program.  \<open>hidden\<close> is the part of the state that the handlers
  may change, with the laws of a field of a record; \<open>effect\<close> is what an event does to it.
\<close>

definition oblivious :: "('d \<Rightarrow> 's \<Rightarrow> 's) \<Rightarrow> ('s \<Rightarrow> bool) \<Rightarrow> ('s \<Rightarrow> 's) \<Rightarrow> bool" where
  "oblivious set_hidden ok f \<longleftrightarrow> (\<forall>s. ok s \<longrightarrow> ok (f s) \<and> (\<forall>d. f (set_hidden d s) = set_hidden d (f s)))"

locale handlers_apart =
  fixes irq :: "'e \<Rightarrow> 's \<Rightarrow> 's option"
    and hidden :: "'s \<Rightarrow> 'd" and set_hidden :: "'d \<Rightarrow> 's \<Rightarrow> 's"
    and effect :: "'e \<Rightarrow> 'd \<Rightarrow> 'd" and ok :: "'s \<Rightarrow> bool"
  assumes hidden_set: "hidden (set_hidden d s) = d"
    and set_set: "set_hidden d (set_hidden d' s) = set_hidden d s"
    and set_same: "set_hidden (hidden s) s = s"
    and ok_set: "ok s \<Longrightarrow> ok (set_hidden d s)"
    and irq_law: "ok s \<Longrightarrow> irq e s = Some s' \<Longrightarrow> s' = set_hidden (effect e (hidden s)) s"
begin

lemma oblivious_hidden:
  assumes "oblivious set_hidden ok f" "ok s"
  shows "hidden (f s) = hidden s"
proof -
  have "f s = set_hidden (hidden s) (f s)" using assms set_same [of s] by (metis oblivious_def)
  then show ?thesis by (metis hidden_set)
qed

lemma run_oblivious:
  assumes "\<forall>f \<in> set fs. oblivious set_hidden ok f" "ok s"
  shows "ok (run_acts fs s) \<and> hidden (run_acts fs s) = hidden s \<and>
    (\<forall>d. run_acts fs (set_hidden d s) = set_hidden d (run_acts fs s))"
  using assms
proof (induction fs arbitrary: s)
  case (Cons f fs)
  then have "oblivious set_hidden ok f" by simp
  with Cons show ?case by (simp add: oblivious_hidden oblivious_def)
qed simp

text \<open>A run with interrupts is the run without them, with the effect of the events on top.\<close>

lemma undisturbed:
  assumes "preempted irq fs s es t" "ok s" "\<forall>f \<in> set fs. oblivious set_hidden ok f"
  shows "t = set_hidden (fold effect es (hidden s)) (run_acts fs s)"
  using assms
proof (induction rule: preempted.induct)
  case (finished s)
  then show ?case by (simp add: set_same)
next
  case (action fs f s es t)
  then have "oblivious set_hidden ok f" by simp
  with action show ?case by (simp add: oblivious_hidden oblivious_def)
next
  case (interrupt e s s' fs es t)
  have s': "s' = set_hidden (effect e (hidden s)) s" by (rule irq_law [OF interrupt.prems(1) interrupt.hyps(1)])
  with interrupt ok_set have "t = set_hidden (fold effect es (hidden s')) (run_acts fs s')" by simp
  then show ?case using run_oblivious [OF interrupt.prems(2,1)] by (simp add: s' hidden_set set_set)
qed

end

section \<open>Device interrupts\<close>

text \<open>An event is a vector and, for the keyboard, the scancode that the controller holds.\<close>

type_synonym event = "nat \<times> u8"

definition device_irq :: "(nat \<Rightarrow> u32) \<Rightarrow> (nat \<Rightarrow> u32) \<Rightarrow> u32 \<Rightarrow> u32 \<Rightarrow> interrupt_frame \<Rightarrow> event \<Rightarrow> kernel \<Rightarrow> kernel option" where
  "device_irq isr irqp isr128 vbe regs = (\<lambda>(n, sc) k.
     if int_flag k \<and> 32 \<le> n \<and> n < 48 then
       case deliver isr irqp isr128 vbe n 0 regs (if n = 33 then press sc k else k) of
         Some (Returned frame k') \<Rightarrow> Some k'
       | _ \<Rightarrow> None
     else None)"

type_synonym ports = "(u16 \<Rightarrow> u32) \<times> port_write list"

definition ports :: "kernel \<Rightarrow> ports" where
  "ports k = (port_in (hw (con k)), port_out (hw (con k)))"

definition set_ports :: "ports \<Rightarrow> kernel \<Rightarrow> kernel" where
  "set_ports p k = on_hw (\<lambda>s. s\<lparr>port_in := fst p, port_out := snd p\<rparr>) k"

definition eoi_writes :: "nat \<Rightarrow> port_write list" where
  "eoi_writes n = (if 40 \<le> n then [Out8 PIC2_COMMAND PIC_EOI] else []) @ [Out8 PIC1_COMMAND PIC_EOI]"

definition port_effect :: "event \<Rightarrow> ports \<Rightarrow> ports" where
  "port_effect = (\<lambda>(n, sc) (inp, outp). (if n = 33 then inp(0x60 := ucast sc) else inp, outp @ eoi_writes n))"

definition gates_ready :: "(nat \<Rightarrow> u32) \<Rightarrow> (nat \<Rightarrow> u32) \<Rightarrow> u32 \<Rightarrow> kernel \<Rightarrow> bool" where
  "gates_ready isr irqp isr128 k \<longleftrightarrow> kernel_ok k \<and> distinct (map (stub_addr isr irqp isr128) stub_vectors) \<and>
     (\<forall>n \<in> set stub_vectors. vector_entry k n = Some (stub_addr isr irqp isr128 n))"

lemma gates_ready_cong:
  assumes "g_IDT k' = g_IDT k" "idtr k' = idtr k" "length (handlers k') = length (handlers k)"
    "length (syscall_table k') = length (syscall_table k)"
  shows "gates_ready isr irqp isr128 k' = gates_ready isr irqp isr128 k"
  using assms by (simp add: gates_ready_def kernel_ok_def vector_entry_def)

lemma eoi_effect:
  assumes "32 \<le> n" "n < 48"
  shows "on_hw (pic_send_eoi (ucast (of_nat n - 32 :: u32))) k = set_ports (fst (ports k), snd (ports k) @ eoi_writes n) k"
proof -
  have "unat (of_nat n - 32 :: u32) = n - 32" using assms by (simp add: u32_minus_no_wrap unat_u32_of_nat)
  then have "8 \<le> (ucast (of_nat n - 32 :: u32) :: u8) \<longleftrightarrow> 40 \<le> n"
    using assms by (simp add: word_le_nat_alt unsigned_ucast_eq take_bit_eq_mod) linarith
  then show ?thesis
    by (simp add: pic_send_eoi_def outb_def eoi_writes_def set_ports_def ports_def on_hw_def Let_def)
qed

text \<open>
  Before \<^verbatim>\<open>init_keyboard\<close> every device has the default handler, and an interrupt changes ports only;
  afterwards the keyboard has its own.
\<close>

definition devices_idle :: "(nat \<Rightarrow> u32) \<Rightarrow> (nat \<Rightarrow> u32) \<Rightarrow> u32 \<Rightarrow> kernel \<Rightarrow> bool" where
  "devices_idle isr irqp isr128 k \<longleftrightarrow> gates_ready isr irqp isr128 k \<and>
     (\<forall>n. 32 \<le> n \<and> n < 48 \<longrightarrow> handlers k ! n = Default_irq_handler)"

lemma devices_idleI:
  assumes "booted isr irqp isr128 (init_keyboard k)" "handlers k ! 33 = Default_irq_handler"
  shows "devices_idle isr irqp isr128 k"
proof -
  have "gates_ready isr irqp isr128 k = gates_ready isr irqp isr128 (init_keyboard k)"
    by (rule gates_ready_cong) (simp_all add: init_keyboard_fields)
  then have "gates_ready isr irqp isr128 k" using assms(1) by (simp add: booted_def gates_ready_def)
  moreover have "handlers k ! n = Default_irq_handler" if "32 \<le> n \<and> n < 48" for n
  proof (cases "n = 33")
    case False
    then have "handlers (init_keyboard k) ! n = handlers k ! n" by (simp add: init_keyboard_fields)
    with assms(1) that False show ?thesis by (simp add: booted_def)
  qed (simp add: assms(2))
  ultimately show ?thesis by (simp add: devices_idle_def)
qed

definition input :: "kernel \<Rightarrow> keyboard \<times> ports" where
  "input k = (kb k, ports k)"

definition set_input :: "keyboard \<times> ports \<Rightarrow> kernel \<Rightarrow> kernel" where
  "set_input d k = (set_ports (snd d) k)\<lparr>kb := fst d\<rparr>"

definition key_effect :: "event \<Rightarrow> keyboard \<Rightarrow> keyboard" where
  "key_effect = (\<lambda>(n, sc) q. if n = 33 then handle_scancode sc q else q)"

definition input_effect :: "event \<Rightarrow> keyboard \<times> ports \<Rightarrow> keyboard \<times> ports" where
  "input_effect e = map_prod (key_effect e) (port_effect e)"

lemma set_ports_fields [simp]:
  "kb (set_ports p k) = kb k" "g_IDT (set_ports p k) = g_IDT k" "handlers (set_ports p k) = handlers k"
  "syscall_table (set_ports p k) = syscall_table k" "idtr (set_ports p k) = idtr k"
  "int_flag (set_ports p k) = int_flag k" "mem (hw (con (set_ports p k))) = mem (hw (con k))"
  "g_cursor_col (con (set_ports p k)) = g_cursor_col (con k)" "g_cursor_row (con (set_ports p k)) = g_cursor_row (con k)"
  "ports (set_ports p k) = p"
  by (simp_all add: set_ports_def ports_def)

lemma set_ports_set [simp]: "set_ports p (set_ports p' k) = set_ports p k" "set_ports (ports k) k = k"
  by (simp_all add: set_ports_def ports_def on_hw_def)

lemma press_ports: "press sc k = set_ports ((fst (ports k))(0x60 := ucast sc), snd (ports k)) k"
  by (simp add: press_def set_ports_def ports_def on_hw_def)

lemma input_laws [simp]:
  "input (set_input d k) = d" "set_input d (set_input d' k) = set_input d k" "set_input (input k) k = k"
  by (simp_all add: input_def set_input_def ports_def set_ports_def on_hw_def)

lemma deliver_ready:
  assumes "gates_ready isr irqp isr128 k" "handlers k ! n = Default_irq_handler" "32 \<le> n" "n < 48"
  shows "deliver isr irqp isr128 vbe n 0 regs k =
    Some (Returned (regs\<lparr>interrupt_number := of_nat n, error_code := stub_error n 0\<rparr>)
      (set_ports (fst (ports k), snd (ports k) @ eoi_writes n) k))"
proof -
  have "n \<in> set stub_vectors" using assms(4) by (simp add: stub_vectors_iff)
  then have "Option.bind (vector_entry k n) (stub_vector isr irqp isr128) = Some n"
    using assms(1) by (simp add: gates_ready_def stub_vector_addr)
  from deliver_default [OF this assms(2-)] show ?thesis by (simp add: eoi_effect [OF assms(3,4)])
qed

lemma device_irq_default:
  assumes "gates_ready isr irqp isr128 k" "handlers k ! n = Default_irq_handler"
    and "int_flag k" "32 \<le> n" "n < 48"
  shows "device_irq isr irqp isr128 vbe regs (n, sc) k = Some (set_ports (port_effect (n, sc) (ports k)) k)"
proof -
  have "gates_ready isr irqp isr128 (press sc k)" "handlers (press sc k) ! n = Default_irq_handler"
    using gates_ready_cong [of "press sc k" k] assms by (simp_all add: press_def)
  note d = deliver_ready [OF assms(1,2,4,5)] deliver_ready [OF this assms(4,5)]
  show ?thesis using assms(3-5) d [of vbe regs]
    by (cases "n = 33") (auto simp: device_irq_def port_effect_def press_ports split_beta)
qed

lemma device_irq_key:
  assumes "booted isr irqp isr128 k" "int_flag k"
  shows "device_irq isr irqp isr128 vbe regs (33, sc) k = Some (set_input (input_effect (33, sc) (input k)) k)"
proof -
  have "\<not> (8 :: u8) \<le> 1" by (simp add: word_le_nat_alt)
  then have "on_hw (pic_send_eoi 1) (press sc (k\<lparr>kb := handle_scancode sc (kb k)\<rparr>)) =
      set_input (input_effect (33, sc) (input k)) k"
    by (cases k) (simp add: press_def set_input_def input_effect_def key_effect_def input_def port_effect_def ports_def
        set_ports_def on_hw_def pic_send_eoi_def outb_def eoi_writes_def Let_def)
  then show ?thesis using assms by (simp add: device_irq_def deliver_key)
qed

text \<open>An interrupt is handled whenever interrupts are on: the system does not get stuck.\<close>

lemma booted_irq:
  assumes "booted isr irqp isr128 k" "int_flag k" "32 \<le> n" "n < 48"
  shows "device_irq isr irqp isr128 vbe regs (n, sc) k = Some (set_input (input_effect (n, sc) (input k)) k)"
proof (cases "n = 33")
  case True
  with device_irq_key assms show ?thesis by simp
next
  case False
  with assms have "gates_ready isr irqp isr128 k" "handlers k ! n = Default_irq_handler"
    by (simp_all add: booted_def gates_ready_def)
  from device_irq_default [OF this assms(2-)] False show ?thesis
    by (simp add: set_input_def input_effect_def key_effect_def input_def)
qed

interpretation idle: handlers_apart "device_irq isr irqp isr128 vbe regs" ports set_ports port_effect
    "devices_idle isr irqp isr128" for isr irqp isr128 vbe regs
proof (unfold_locales, goal_cases)
  case (4 k p)
  then show ?case using gates_ready_cong [of "set_ports p k" k] by (simp add: devices_idle_def)
next
  case (5 k e k')
  obtain n sc where e: "e = (n, sc)" by (cases e)
  from 5(2) have "int_flag k" "32 \<le> n" "n < 48" by (simp_all add: device_irq_def e split: if_splits)
  with 5 device_irq_default [of isr irqp isr128 k n vbe regs sc] show ?case by (simp add: devices_idle_def e)
qed simp_all

interpretation live: handlers_apart "device_irq isr irqp isr128 vbe regs" input set_input input_effect
    "booted isr irqp isr128" for isr irqp isr128 vbe regs
proof (unfold_locales, goal_cases)
  case (4 k d)
  then show ?case using booted_cong [of "set_input d k" k] by (simp add: set_input_def)
next
  case (5 k e k')
  obtain n sc where e: "e = (n, sc)" by (cases e)
  from 5(2) have "int_flag k" "32 \<le> n" "n < 48" by (simp_all add: device_irq_def e split: if_splits)
  with 5 booted_irq [of isr irqp isr128 k n vbe regs sc] show ?case by (simp add: e)
qed simp_all

lemma booted_irqs:
  assumes "booted isr irqp isr128 k" "int_flag k" "\<forall>e \<in> set es. 32 \<le> fst e \<and> fst e < 48"
  shows "\<exists>k'. preempted (device_irq isr irqp isr128 vbe regs) fs k es k'"
  using assms
proof (induction es arbitrary: k)
  case Nil
  show ?case by (rule exI, rule preempted_none)
next
  case (Cons e es)
  let ?k = "set_input (input_effect e (input k)) k"
  have "device_irq isr irqp isr128 vbe regs e k = Some ?k"
    using booted_irq [OF Cons.prems(1,2), of "fst e"] Cons.prems(3) by (cases e) simp
  moreover have "booted isr irqp isr128 ?k" by (rule live.ok_set [OF Cons.prems(1)])
  moreover have "int_flag ?k" using Cons.prems(2) by (simp add: set_input_def)
  ultimately show ?case using Cons.IH [of ?k] Cons.prems(3)
    by (metis list.set_intros(2) preempted.interrupt)
qed

section \<open>Output as a program\<close>

text \<open>
  The actions of text output: \<open>kprint\<close> draws the pixels of the whole string, then moves the cursor
  character by character.  Where the pixels go depends on the cursor alone, so the list is known
  beforehand.
\<close>

definition on_con :: "(tty \<Rightarrow> tty) \<Rightarrow> kernel \<Rightarrow> kernel" where
  "on_con f k = k\<lparr>con := f (con k)\<rparr>"

definition pixel_act :: "u32 \<Rightarrow> int \<times> int \<times> u32 \<Rightarrow> kernel \<Rightarrow> kernel" where
  "pixel_act vbe = (\<lambda>(u, v, c). on_hw (putpixel vbe u v c))"

definition cursor_act :: "int \<times> int \<Rightarrow> kernel \<Rightarrow> kernel" where
  "cursor_act p = on_con (\<lambda>t. t\<lparr>g_cursor_col := fst p, g_cursor_row := snd p\<rparr>)"

definition glyph_pixels :: "u8 \<Rightarrow> int \<Rightarrow> int \<Rightarrow> (int \<times> int \<times> u32) list" where
  "glyph_pixels chr x y = map (\<lambda>(u, v). (u, v, glyph_color chr x y COLOR_WHITE COLOR_BLACK u v)) (cells x y)"

fun string_pixels :: "int \<Rightarrow> int \<Rightarrow> int \<Rightarrow> cstr \<Rightarrow> (int \<times> int \<times> u32) list" where
  "string_pixels start_x pos pos_y [] = []"
| "string_pixels start_x pos pos_y (b # str) =
     (if b = 0 then []
      else if b = ch_nl then string_pixels start_x start_x (pos_y + 16) str
      else if b = ch_cr then string_pixels start_x start_x pos_y str
      else if b = ch_bs then
        let pos = (if pos \<le> 0 then 0 else pos - 9)
        in glyph_pixels ch_space pos pos_y @ string_pixels start_x pos pos_y str
      else if b = ch_tab then string_pixels start_x (pos + 9 * 4) pos_y str
      else glyph_pixels (if 32 \<le> b \<and> b \<le> 254 then b else ch_question) pos pos_y @
        string_pixels start_x (pos + 9) pos_y str)"

fun cursor_steps :: "cstr \<Rightarrow> int \<times> int \<Rightarrow> (int \<times> int) list" where
  "cursor_steps [] p = []"
| "cursor_steps (b # str) p =
     (if b = 0 then []
      else let q = advance [b] (fst p) (snd p) in q # cursor_steps str q)"

definition kprint_acts :: "u32 \<Rightarrow> cstr \<Rightarrow> int \<times> int \<Rightarrow> (kernel \<Rightarrow> kernel) list" where
  "kprint_acts vbe str p =
     map (pixel_act vbe) (string_pixels (fst p * 9) (fst p * 9) (snd p * 16) str) @ map cursor_act (cursor_steps str p)"

fun kprints_acts :: "u32 \<Rightarrow> cstr list \<Rightarrow> int \<times> int \<Rightarrow> (kernel \<Rightarrow> kernel) list" where
  "kprints_acts vbe [] p = []"
| "kprints_acts vbe (str # strs) p = kprint_acts vbe str p @ kprints_acts vbe strs (advance str (fst p) (snd p))"

text \<open>\<open>kprintf\<close> is a sequence of calls of \<open>kprint\<close>; these are its arguments.\<close>

definition num_piece :: "u32 \<Rightarrow> u32 \<Rightarrow> arg list \<Rightarrow> cstr list \<Rightarrow> (arg list \<times> cstr list) option" where
  "num_piece v b args strs = map_option (\<lambda>str. (args, strs @ [str])) (convert v b)"

definition spec_pieces :: "u8 \<Rightarrow> arg list \<Rightarrow> (arg list \<times> cstr list) option" where
  "spec_pieces d args =
     (if d = 99 then (case args of IntArg v # args \<Rightarrow> Some (args, [[ucast v, 0]]) | _ \<Rightarrow> None)
      else if d = 100 then
        (case args of IntArg v # args \<Rightarrow>
           if is_negative v then num_piece (- v) 10 args [[ch_minus, 0]] else num_piece v 10 args []
         | _ \<Rightarrow> None)
      else if d = 117 then (case args of IntArg v # args \<Rightarrow> num_piece v 10 args [] | _ \<Rightarrow> None)
      else if d = 111 then (case args of IntArg v # args \<Rightarrow> num_piece v 8 args [] | _ \<Rightarrow> None)
      else if d = 115 then
        (case args of StrArg str # args \<Rightarrow> Some (args, [case str of None \<Rightarrow> null_text | Some str \<Rightarrow> str]) | _ \<Rightarrow> None)
      else if d = 120 then (case args of IntArg v # args \<Rightarrow> num_piece v 16 args [] | _ \<Rightarrow> None)
      else if d = ch_percent then Some (args, [[ch_percent, 0]])
      else Some (args, [[ch_percent, 0], [d, 0]]))"

fun format_pieces :: "cstr \<Rightarrow> arg list \<Rightarrow> cstr list option" where
  "format_pieces [] args = Some []"
| "format_pieces (c # fmt) args =
     (if c = 0 then Some []
      else if c \<noteq> ch_percent then map_option ((#) [c, 0]) (format_pieces fmt args)
      else (case fmt of [] \<Rightarrow> Some []
            | d # rest \<Rightarrow>
                if d = 0 then Some []
                else Option.bind (spec_pieces d args) (\<lambda>(args, strs). map_option ((@) strs) (format_pieces rest args))))"

definition kprintf_acts :: "u32 \<Rightarrow> cstr \<Rightarrow> arg list \<Rightarrow> int \<times> int \<Rightarrow> (kernel \<Rightarrow> kernel) list" where
  "kprintf_acts vbe fmt args p = (case format_pieces fmt args of Some strs \<Rightarrow> kprints_acts vbe strs p | None \<Rightarrow> [])"

lemma pixel_acts_run:
  "run_acts (map (pixel_act vbe) ps) k = on_hw (fold (\<lambda>(u, v, c). putpixel vbe u v c) ps) k"
  by (induction ps arbitrary: k) (auto simp: pixel_act_def on_hw_def)

lemma glyph_pixels_draw:
  "fold (\<lambda>(u, v, c). putpixel vbe u v c) (glyph_pixels chr x y) s = draw_char vbe chr x y COLOR_WHITE COLOR_BLACK s"
  unfolding draw_char_cells glyph_pixels_def fold_map by (rule fold_cong) auto

lemma string_pixels_draw:
  "fold (\<lambda>(u, v, c). putpixel vbe u v c) (string_pixels x0 pos y str) s =
   draw_chars vbe COLOR_WHITE COLOR_BLACK x0 pos y str s"
  by (induction x0 pos y str arbitrary: s rule: string_pixels.induct) (simp_all add: glyph_pixels_draw Let_def)

lemma cursor_steps_run:
  "run_acts (map cursor_act (cursor_steps str p)) (cursor_act p k) = cursor_act (advance str (fst p) (snd p)) k"
proof (induction str arbitrary: p)
  case (Cons b str)
  let ?q = "advance [b] (fst p) (snd p)"
  show ?case
  proof (cases "b = 0")
    case False
    then have "advance (b # str) (fst p) (snd p) = advance str (fst ?q) (snd ?q)" by simp
    moreover have "cursor_act q (cursor_act p k) = cursor_act q k" for q by (simp add: cursor_act_def on_con_def)
    ultimately show ?thesis
      using False Cons.IH [of ?q] by (simp only: cursor_steps.simps Let_def if_False list.map run_acts_simps)
  qed simp
qed simp

lemma kprint_acts_run:
  "run_acts (kprint_acts vbe str (g_cursor_col (con k), g_cursor_row (con k))) k = on_con (kprint vbe str) k"
proof -
  let ?p = "(g_cursor_col (con k), g_cursor_row (con k))"
  let ?k = "on_hw (draw_chars vbe COLOR_WHITE COLOR_BLACK (fst ?p * 9) (fst ?p * 9) (snd ?p * 16) str) k"
  have "run_acts (map cursor_act (cursor_steps str ?p)) (cursor_act ?p ?k) = cursor_act (advance str (fst ?p) (snd ?p)) ?k"
    by (rule cursor_steps_run)
  moreover have "cursor_act ?p ?k = ?k" by (simp add: cursor_act_def on_con_def on_hw_def)
  ultimately show ?thesis
    by (simp add: kprint_acts_def pixel_acts_run string_pixels_draw [abs_def]) (simp add: cursor_act_def on_con_def on_hw_def kprint_eq)
qed

lemma kprints_acts_run:
  "run_acts (kprints_acts vbe strs (g_cursor_col (con k), g_cursor_row (con k))) k = on_con (fold (kprint vbe) strs) k"
proof (induction strs arbitrary: k)
  case (Cons str strs)
  let ?k = "on_con (kprint vbe str) k"
  have "advance str (g_cursor_col (con k)) (g_cursor_row (con k)) = (g_cursor_col (con ?k), g_cursor_row (con ?k))"
    by (simp add: on_con_def kprint_eq)
  with Cons.IH [of ?k] show ?case by (simp add: kprint_acts_run) (simp add: on_con_def)
qed (simp add: on_con_def)

lemma print_spec_pieces:
  "print_spec vbe d args t = map_option (\<lambda>(args, strs). (args, fold (kprint vbe) strs t)) (spec_pieces d args)"
  by (auto simp: print_spec.simps spec_pieces_def num_piece_def kprint_num_def kputc_def option.map_comp comp_def
      split: list.split arg.split)

lemma kprintf_pieces:
  "kprintf vbe fmt args t = map_option (\<lambda>strs. fold (kprint vbe) strs t) (format_pieces fmt args)"
proof (induction vbe fmt args t rule: kprintf.induct)
  case (2 vbe c fmt args t)
  show ?case
  proof (cases "c = 0 \<or> c \<noteq> ch_percent")
    case True
    with 2(1) show ?thesis by (auto simp: option.map_comp comp_def kputc_def)
  next
    case False
    show ?thesis
    proof (cases fmt)
      case (Cons d rest)
      show ?thesis
      proof (cases "spec_pieces d args")
        case (Some r)
        with False Cons 2(2) show ?thesis
          by (cases r) (auto simp: print_spec_pieces option.map_comp comp_def)
      qed (use False Cons in \<open>simp add: print_spec_pieces\<close>)
    qed (use False in simp)
  qed
qed simp

lemma kprintf_acts_con:
  assumes "kprintf vbe fmt args t = Some t'"
  shows "run_acts (kprintf_acts vbe fmt args (g_cursor_col t, g_cursor_row t)) (k\<lparr>con := t\<rparr>) = k\<lparr>con := t'\<rparr>"
proof -
  obtain strs where "format_pieces fmt args = Some strs" "t' = fold (kprint vbe) strs t"
    using assms by (auto simp: kprintf_pieces)
  with kprints_acts_run [of vbe strs "k\<lparr>con := t\<rparr>"] show ?thesis by (simp add: kprintf_acts_def on_con_def)
qed

lemma kprintf_acts_run:
  assumes "kprintf vbe fmt args (con k) = Some t"
  shows "run_acts (kprintf_acts vbe fmt args (g_cursor_col (con k), g_cursor_row (con k))) k = k\<lparr>con := t\<rparr>"
  using kprintf_acts_con [OF assms, of k] by simp

section \<open>Actions that use neither keyboard nor ports\<close>

definition port_free :: "(machine \<Rightarrow> machine) \<Rightarrow> bool" where
  "port_free g \<longleftrightarrow> (\<forall>s i w. g (s\<lparr>port_in := i, port_out := w\<rparr>) = (g s)\<lparr>port_in := i, port_out := w\<rparr>)"

lemma port_freeI:
  "port_free (putpixel vbe u v c)" "port_free (\<lambda>s. wr32 s a x)" "port_free (\<lambda>s. wr8 s a y)"
  by (simp_all add: port_free_def putpixel_def get_framebuffer_info_eq rd16_def rd8_def rd32_def wr8_def wr32_def Let_def)

text \<open>
  An action on the console that leaves the tables alone and commutes with setting the ports is
  oblivious, whether the keyboard is on or not.
\<close>

definition quiet :: "(nat \<Rightarrow> u32) \<Rightarrow> (nat \<Rightarrow> u32) \<Rightarrow> u32 \<Rightarrow> (kernel \<Rightarrow> kernel) \<Rightarrow> bool" where
  "quiet isr irqp isr128 f \<longleftrightarrow> oblivious set_ports (devices_idle isr irqp isr128) f \<and>
     oblivious set_input (booted isr irqp isr128) f"

lemma on_con_quiet:
  assumes "\<And>t i w. g (t\<lparr>hw := (hw t)\<lparr>port_in := i, port_out := w\<rparr>\<rparr>) =
    (g t)\<lparr>hw := (hw (g t))\<lparr>port_in := i, port_out := w\<rparr>\<rparr>"
  shows "quiet isr irqp isr128 (on_con g)"
proof -
  have "on_con g (set_ports p k) = set_ports p (on_con g k)" for p k
    using assms by (simp add: on_con_def set_ports_def on_hw_def)
  moreover have "on_con g (set_input d k) = set_input d (on_con g k)" for d k
    using assms by (simp add: on_con_def set_input_def set_ports_def on_hw_def)
  moreover have "devices_idle isr irqp isr128 (on_con g k) = devices_idle isr irqp isr128 k" for k
    using gates_ready_cong [of "on_con g k" k] by (simp add: devices_idle_def on_con_def)
  moreover have "booted isr irqp isr128 (on_con g k) = booted isr irqp isr128 k" for k
    using booted_cong [of "on_con g k" k] by (simp add: on_con_def)
  ultimately show ?thesis by (simp add: quiet_def oblivious_def)
qed

lemma on_hw_on_con: "on_hw g = on_con (\<lambda>t. t\<lparr>hw := g (hw t)\<rparr>)"
  by (rule ext) (simp add: on_hw_def on_con_def)

lemma on_hw_quiet: "port_free g \<Longrightarrow> quiet isr irqp isr128 (on_hw g)"
  unfolding on_hw_on_con by (rule on_con_quiet) (simp add: port_free_def)

lemma cursor_quiet: "quiet isr irqp isr128 (cursor_act p)"
  unfolding cursor_act_def by (rule on_con_quiet) simp

lemma pixel_quiet: "quiet isr irqp isr128 (pixel_act vbe x)"
  by (cases x) (simp add: pixel_act_def on_hw_quiet port_freeI)

lemma kprintf_acts_quiet: "f \<in> set (kprintf_acts vbe fmt args p) \<Longrightarrow> quiet isr irqp isr128 f"
proof -
  have one: "f \<in> set (kprint_acts vbe str p) \<Longrightarrow> quiet isr irqp isr128 f" for str p
    unfolding kprint_acts_def set_append set_map using pixel_quiet cursor_quiet by blast
  have "f \<in> set (kprints_acts vbe strs p) \<Longrightarrow> quiet isr irqp isr128 f" for strs
  proof (induction strs arbitrary: p)
    case (Cons str strs)
    then show ?case unfolding kprints_acts.simps set_append using one by blast
  qed simp
  then show "f \<in> set (kprintf_acts vbe fmt args p) \<Longrightarrow> quiet isr irqp isr128 f"
    by (cases "format_pieces fmt args") (auto simp: kprintf_acts_def)
qed

lemma quietD:
  assumes "quiet isr irqp isr128 f"
  shows "oblivious set_ports (devices_idle isr irqp isr128) f" "oblivious set_input (booted isr irqp isr128) f"
  using assms by (simp_all add: quiet_def)

lemmas quiet_simps = on_hw_quiet port_freeI pixel_quiet cursor_quiet

text \<open>A system call runs with interrupts off, as one action.\<close>

lemma port_free_fold: "(\<And>x. port_free (f x)) \<Longrightarrow> port_free (fold f xs)"
  by (induction xs) (auto simp: port_free_def)

lemma draw_char_port_free: "port_free (draw_char vbe chr x y fg bg)"
  unfolding port_free_def draw_char_cells
  using port_free_fold [of "\<lambda>(u, v). putpixel vbe u v (glyph_color chr x y fg bg u v)" "cells x y"]
  by (auto simp: port_free_def port_freeI(1) [unfolded port_free_def])

lemma kputc_port_free:
  "kputc vbe b (t\<lparr>hw := (hw t)\<lparr>port_in := i, port_out := w\<rparr>\<rparr>) =
   (kputc vbe b t)\<lparr>hw := (hw (kputc vbe b t))\<lparr>port_in := i, port_out := w\<rparr>\<rparr>"
  using draw_char_port_free by (simp add: kputc_def kprint_eq port_free_def Let_def)

lemma sys_write_loop_port_free:
  "sys_write_loop vbe args n (t\<lparr>hw := (hw t)\<lparr>port_in := i, port_out := w\<rparr>\<rparr>) =
   apsnd (\<lambda>t. t\<lparr>hw := (hw t)\<lparr>port_in := i, port_out := w\<rparr>\<rparr>) (sys_write_loop vbe args n t)"
proof (induction vbe args n t rule: sys_write_loop.induct)
  case (1 vbe args n t)
  show ?case
  proof (cases "n < args_count (hw t) args")
    case True
    with 1 [OF True refl refl] show ?thesis
      by (subst (1 2) sys_write_loop.simps)
        (simp add: args_count_def args_buf_def rd32_def rd8_def kputc_port_free)
  next
    case False
    then show ?thesis
      by (subst (1 2) sys_write_loop.simps) (simp add: args_count_def rd32_def)
  qed
qed

definition write_call_act :: "(nat \<Rightarrow> u32) \<Rightarrow> (nat \<Rightarrow> u32) \<Rightarrow> u32 \<Rightarrow> u32 \<Rightarrow> interrupt_frame \<Rightarrow> u32 \<Rightarrow> kernel \<Rightarrow> kernel" where
  "write_call_act isr irqp isr128 vbe regs wa k =
     (case syscall isr irqp isr128 vbe regs SYS_WRITE wa k of Some (res, k') \<Rightarrow> k' | None \<Rightarrow> k)"

lemma write_call_act_eq:
  assumes "booted isr irqp isr128 k"
  shows "write_call_act isr irqp isr128 vbe regs wa k = on_con (\<lambda>t. snd (sys_write_loop vbe wa 0 t)) k"
  unfolding write_call_act_def syscall_booted [OF assms]
  by (simp add: boot_table_def sys_write_def on_con_def split_beta)

lemma write_call_quiet: "oblivious set_input (booted isr irqp isr128) (write_call_act isr irqp isr128 vbe regs wa)"
proof -
  let ?g = "on_con (\<lambda>t. snd (sys_write_loop vbe wa 0 t))"
  have "quiet isr irqp isr128 ?g" by (rule on_con_quiet) (simp add: sys_write_loop_port_free)
  then have g: "oblivious set_input (booted isr irqp isr128) ?g" by (simp add: quiet_def)
  have "write_call_act isr irqp isr128 vbe regs wa k = ?g k" if "booted isr irqp isr128 k" for k
    using that by (rule write_call_act_eq)
  with g show ?thesis unfolding oblivious_def by (simp add: live.ok_set)
qed

section \<open>What the events add up to\<close>

definition keys :: "event list \<Rightarrow> u8 list" where
  "keys es = map snd (filter (\<lambda>e. fst e = 33) es)"

lemma fold_input_effect:
  "fold input_effect es d = (fold handle_scancode (keys es) (fst d), fold port_effect es (snd d))"
  by (induction es arbitrary: d) (auto simp: keys_def input_effect_def key_effect_def split_beta)

lemma fold_port_effect: "snd (fold port_effect es p) = snd p @ concat (map (eoi_writes \<circ> fst) es)"
  by (induction es arbitrary: p) (auto simp: port_effect_def split_beta)

lemma quiet_run:
  assumes "preempted (device_irq isr irqp isr128 vbe regs) fs k es k'" "booted isr irqp isr128 k"
    "\<forall>f \<in> set fs. oblivious set_input (booted isr irqp isr128) f"
  shows "k' = set_input (fold handle_scancode (keys es) (kb k), fold port_effect es (ports k)) (run_acts fs k)"
  using live.undisturbed [OF assms] by (simp add: fold_input_effect input_def)

section \<open>Properties\<close>

text \<open>
  C18. Formatted output is not disturbed by device interrupts.  However many interrupts (timer,
  keyboard, any of the sixteen lines) come between the pixels and cursor updates that \<open>kprintf\<close>
  consists of, memory and cursor end up as \<open>kprintf\<close> alone leaves them, the tables are as before,
  interrupts are on, the keyboard has been fed every scancode in order, and each interrupt has
  been acknowledged, in order.
\<close>

theorem kprintf_undisturbed:
  assumes "booted isr irqp isr128 k" "kprintf vbe fmt args (con k) = Some t"
    and "preempted (device_irq isr irqp isr128 vbe regs)
      (kprintf_acts vbe fmt args (g_cursor_col (con k), g_cursor_row (con k))) k es k'"
  shows "mem (hw (con k')) = mem (hw t) \<and> g_cursor_col (con k') = g_cursor_col t \<and> g_cursor_row (con k') = g_cursor_row t \<and>
    booted isr irqp isr128 k' \<and> int_flag k' = int_flag k \<and>
    kb k' = fold handle_scancode (keys es) (kb k) \<and>
    port_out (hw (con k')) = port_out (hw (con k)) @ concat (map (eoi_writes \<circ> fst) es)"
proof -
  have k': "k' = set_input (fold handle_scancode (keys es) (kb k), fold port_effect es (ports k)) (k\<lparr>con := t\<rparr>)"
    using quiet_run [OF assms(3,1)] quietD(2) [OF kprintf_acts_quiet] kprintf_acts_run [OF assms(2)] by simp
  have "booted isr irqp isr128 (k\<lparr>con := t\<rparr>)" using booted_cong [of "k\<lparr>con := t\<rparr>" k] assms(1) by simp
  then have "booted isr irqp isr128 k'" unfolding k' by (rule live.ok_set)
  then show ?thesis
    using fold_port_effect [of es "ports k"]
    by (simp add: k') (simp add: set_input_def set_ports_def ports_def)
qed

text \<open>The timer and the key \<open>a\<close> interrupt before the first pixel of a message.\<close>

theorem kprintf_undisturbed_witness:
  "\<exists>k'. preempted (device_irq demo_isr demo_irqp 0xC0003000 0x8000 some_regs)
       (kprintf_acts 0x8000 (bytes ''ok'') [] (g_cursor_col (con running), g_cursor_row (con running))) running
       [(32, 0), (33, 0x1E)] k' \<and>
     kb k' = handle_scancode 0x1E (kb running) \<and>
     port_out (hw (con k')) = port_out (hw (con running)) @ [Out8 PIC1_COMMAND PIC_EOI, Out8 PIC1_COMMAND PIC_EOI]"
proof -
  let ?irq = "device_irq demo_isr demo_irqp 0xC0003000 0x8000 some_regs"
  let ?k1 = "set_input (input_effect (32, 0) (input running)) running"
  let ?k2 = "set_input (input_effect (33, 0x1E) (input ?k1)) ?k1"
  let ?fs = "kprintf_acts 0x8000 (bytes ''ok'') [] (g_cursor_col (con running), g_cursor_row (con running))"
  have "booted demo_isr demo_irqp 0xC0003000 ?k1" by (rule live.ok_set [OF running_booted])
  moreover have "int_flag ?k1" using running_state(1) by (simp add: set_input_def)
  ultimately have i2: "?irq (33, 0x1E) ?k1 = Some ?k2" by (rule booted_irq) simp_all
  have "?irq (32, 0) running = Some ?k1" by (rule booted_irq [OF running_booted running_state(1)]) simp_all
  moreover have "preempted ?irq ?fs ?k1 [(33, 0x1E)] (run_acts ?fs ?k2)"
    by (rule preempted.interrupt [where irq = ?irq and fs = ?fs, OF i2]) (rule preempted_none)
  ultimately have run: "preempted ?irq ?fs running [(32, 0), (33, 0x1E)] (run_acts ?fs ?k2)"
    by (rule preempted.interrupt [where irq = ?irq and fs = ?fs])
  have "format_text (bytes ''ok'') [] = Some (bytes ''ok'')" by simp
  from kprintf_text [OF this] have p: "kprintf 0x8000 (bytes ''ok'') [] (con running) = Some (fold (kputc 0x8000) (bytes ''ok'') (con running))"
    by (simp del: bytes_simps)
  from kprintf_undisturbed [OF running_booted p run] run show ?thesis
    by (intro exI [of _ "run_acts ?fs ?k2"]) (simp add: keys_def eoi_writes_def del: bytes_simps)
qed

end
