(* ===== verification/Main_Interrupted.thy ===== *)
theory Main_Interrupted
  imports Preemption
begin

text \<open>
  \<^verbatim>\<open>kmain\<close> with interrupts between all of its actions, not only in its read loop: the part before
  the loop as a list of actions, down to pixels, cursor updates and stores.  Keys pressed before
  the keyboard handler is registered are lost; those pressed after it are read by the loop.
\<close>

section \<open>The part of kmain before its read loop, as actions\<close>

definition red_line :: "(int \<times> int \<times> u32) list" where
  "red_line = map (\<lambda>i. (10 + int i, 10 + int i, COLOR_RED)) [0..<91]"

lemma diagonal_loop:
  assumes "0 \<le> n" "3 * n \<le> 0x7FFFFFFF" "0 \<le> x" "0 \<le> y" "x + int m \<le> 0x7FFFFFFF" "y + int m \<le> 0x7FFFFFFF"
  shows "line_loop vbe n 1 (- n) 1 (x + int m) (y + int m) c 0 x y s =
    Some (fold (\<lambda>i. putpixel vbe (x + int i) (y + int i) c) [0..<Suc m] s)"
  using assms(3-6)
proof (induction m arbitrary: x y s)
  case 0
  then show ?case by (simp add: line_loop.simps)
next
  case (Suc m)
  have up: "[0..<Suc (Suc m)] = 0 # map Suc [0..<Suc m]" 
    using upt_conv_Cons [of 0 "Suc (Suc m)"] map_Suc_upt [of 0 "Suc m"] by (simp del: upt_Suc)
  have "fold (\<lambda>i. putpixel vbe (x + int i) (y + int i) c) [0..<Suc (Suc m)] s =
      fold (\<lambda>i. putpixel vbe (x + 1 + int i) (y + 1 + int i) c) [0..<Suc m] (putpixel vbe x y c s)"
    unfolding up fold_simps fold_map by (simp add: comp_def algebra_simps del: upt_Suc)
  moreover have "int_ok (x + 1)" "int_ok (y + 1)" using Suc.prems by (simp_all add: int_ok_def)
  then have "line_loop vbe n 1 (- n) 1 (x + int (Suc m)) (y + int (Suc m)) c 0 x y s =
      line_loop vbe n 1 (- n) 1 (x + 1 + int m) (y + 1 + int m) c 0 (x + 1) (y + 1) (putpixel vbe x y c s)"
    using assms(1,2) by (subst line_loop_round) (simp_all add: add.assoc)
  ultimately show ?case using Suc.IH [of "x + 1" "y + 1" "putpixel vbe x y c s"] Suc.prems by simp
qed

lemma red_line_run:
  "line vbe 10 10 100 100 COLOR_RED s = Some (fold (\<lambda>(u, v, c). putpixel vbe u v c) red_line s)"
proof -
  have "fold (\<lambda>(u, v, c). putpixel vbe u v c) red_line s =
      fold (\<lambda>i. putpixel vbe (10 + int i) (10 + int i) COLOR_RED) [0..<91] s"
    unfolding red_line_def fold_map by (simp add: comp_def)
  with diagonal_loop [of 90 10 10 90 vbe COLOR_RED s] show ?thesis
    by (simp add: line_def iabs_def int_val_def int_ok_def del: upt_Suc upt_rec_numeral)
qed

definition cursor_after :: "cstr \<Rightarrow> int \<times> int \<Rightarrow> int \<times> int" where
  "cursor_after str p = fold (\<lambda>b p. advance [b, 0] (fst p) (snd p)) str p"

lemma cursor_after_kputc:
  "cursor_after str (g_cursor_col t, g_cursor_row t) =
   (g_cursor_col (fold (kputc vbe) str t), g_cursor_row (fold (kputc vbe) str t))"
proof (induction str arbitrary: t)
  case (Cons b str)
  have "advance [b, 0] (g_cursor_col t) (g_cursor_row t) = (g_cursor_col (kputc vbe b t), g_cursor_row (kputc vbe b t))"
    by (simp add: kputc_def kprint_eq)
  with Cons.IH [of "kputc vbe b t"] show ?case by (simp add: cursor_after_def del: advance.simps)
qed (simp add: cursor_after_def)

text \<open>\<^verbatim>\<open>Keyboard::init\<close> assigns its four fields one by one, before the handler is registered.\<close>

definition kb_init_acts :: "(kernel \<Rightarrow> kernel) list" where
  "kb_init_acts = map (\<lambda>f k. k\<lparr>kb := f (kb k)\<rparr>)
     [\<lambda>q. q\<lparr>read_pos := 0\<rparr>, \<lambda>q. q\<lparr>write_pos := 0\<rparr>, \<lambda>q. q\<lparr>shift_held := False\<rparr>, \<lambda>q. q\<lparr>ctrl_held := False\<rparr>]"

definition register_act :: "kernel \<Rightarrow> kernel" where
  "register_act k = k\<lparr>handlers := register_handler 33 Keyboard_irq_handler (handlers k)\<rparr>"

definition acts_before :: "u32 \<Rightarrow> int \<times> int \<Rightarrow> (kernel \<Rightarrow> kernel) list" where
  "acts_before vbe p = kprintf_acts vbe hello_text [] p @ map (pixel_act vbe) red_line @ kb_init_acts"

definition store_acts :: "(u32 \<times> u32) list \<Rightarrow> (kernel \<Rightarrow> kernel) list" where
  "store_acts ws = map (\<lambda>(a, v). on_hw (\<lambda>s. wr32 s a v)) ws"

definition acts_after :: "(nat \<Rightarrow> u32) \<Rightarrow> (nat \<Rightarrow> u32) \<Rightarrow> u32 \<Rightarrow> u32 \<Rightarrow> interrupt_frame \<Rightarrow> u32 \<Rightarrow> u32 \<Rightarrow> u32 \<Rightarrow> u32 \<Rightarrow>
    int \<times> int \<Rightarrow> (kernel \<Rightarrow> kernel) list" where
  "acts_after isr irqp isr128 vbe regs wa buf_wa ra buf_ra p =
     kprintf_acts vbe ready_text [] p @
     store_acts [(wa, 4), (wa + 4, 0), (wa + 8, buf_wa)] @
     [write_call_act isr irqp isr128 vbe regs wa] @
     kprintf_acts vbe (bytes '' <-- %d characters written from syscall.'' @ [ch_nl]) [IntArg 4]
       (cursor_after (ready_text @ bytes ''TEST'') p) @
     map (\<lambda>i. on_hw (\<lambda>s. wr8 s (buf_ra + of_nat i) 0)) [0..<5] @
     store_acts [(ra + 4, 1)]"

definition kmain_acts :: "(nat \<Rightarrow> u32) \<Rightarrow> (nat \<Rightarrow> u32) \<Rightarrow> u32 \<Rightarrow> u32 \<Rightarrow> interrupt_frame \<Rightarrow> u32 \<Rightarrow> u32 \<Rightarrow> u32 \<Rightarrow> u32 \<Rightarrow>
    kernel \<Rightarrow> (kernel \<Rightarrow> kernel) list" where
  "kmain_acts isr irqp isr128 vbe regs wa buf_wa ra buf_ra k =
     (let p = (g_cursor_col (con k), g_cursor_row (con k))
      in acts_before vbe p @ [register_act] @
         acts_after isr irqp isr128 vbe regs wa buf_wa ra buf_ra (cursor_after hello_text p))"

section \<open>Without interrupts\<close>

lemma kmain_prints:
  "run_acts (kprintf_acts vbe hello_text [] (g_cursor_col (con k), g_cursor_row (con k))) k = on_con (fold (kputc vbe) hello_text) k"
  "run_acts (kprintf_acts vbe ready_text [] (g_cursor_col (con k), g_cursor_row (con k))) k = on_con (fold (kputc vbe) ready_text) k"
  "run_acts (kprintf_acts vbe (bytes '' <-- %d characters written from syscall.'' @ [ch_nl]) [IntArg 4]
      (g_cursor_col (con k), g_cursor_row (con k))) k =
    on_con (fold (kputc vbe) (bytes '' <-- 4 characters written from syscall.'' @ [ch_nl])) k"
proof -
  have f: "format_text hello_text [] = Some hello_text" "format_text ready_text [] = Some ready_text"
    using kmain_formats(1,2) by (simp_all only: hello_text_def ready_text_def)
  have "\<forall>a \<in> set [IntArg 4]. arg_plain a" by (simp add: arg_plain_def)
  note p = kprintf_text [OF f(1)] kprintf_text [OF f(2)] kprintf_text [OF kmain_formats(3) this]
  show "run_acts (kprintf_acts vbe hello_text [] (g_cursor_col (con k), g_cursor_row (con k))) k = on_con (fold (kputc vbe) hello_text) k"
    "run_acts (kprintf_acts vbe ready_text [] (g_cursor_col (con k), g_cursor_row (con k))) k = on_con (fold (kputc vbe) ready_text) k"
    "run_acts (kprintf_acts vbe (bytes '' <-- %d characters written from syscall.'' @ [ch_nl]) [IntArg 4]
      (g_cursor_col (con k), g_cursor_row (con k))) k =
    on_con (fold (kputc vbe) (bytes '' <-- 4 characters written from syscall.'' @ [ch_nl])) k"
    unfolding on_con_def
    by (rule kprintf_acts_run, rule p(1), simp, rule kprintf_acts_run, rule p(2), simp, rule kprintf_acts_run, rule p(3))
qed

lemma store_acts_run: "run_acts (store_acts ws) k = on_hw (fold (\<lambda>(a, v) s. wr32 s a v) ws) k"
  by (induction ws arbitrary: k) (auto simp: store_acts_def on_hw_def)

lemma fill_acts_run:
  "run_acts (map (\<lambda>i. on_hw (\<lambda>s. wr8 s (a + of_nat i) 0)) [0..<5]) k = on_hw (fill_bytes a 5 0) k"
proof -
  have "[0..<5] = [0, 1, 2, 3, 4 :: nat]" by (simp add: upt_rec)
  then show ?thesis by (simp add: fill_bytes_def on_hw_def)
qed

lemma acts_before_run:
  "run_acts (acts_before vbe (g_cursor_col (con k), g_cursor_row (con k))) k =
   k\<lparr>con := (fold (kputc vbe) hello_text (con k))\<lparr>hw := the (line vbe 10 10 100 100 COLOR_RED
       (hw (fold (kputc vbe) hello_text (con k))))\<rparr>, kb := kb_init (kb k)\<rparr>"
  by (simp add: acts_before_def kmain_prints pixel_acts_run kb_init_acts_def kb_init_def red_line_run on_con_def on_hw_def)

lemma cursor_after_append: "cursor_after (str @ str') p = cursor_after str' (cursor_after str p)"
  by (simp add: cursor_after_def)

lemma acts_after_run:
  fixes k :: kernel and vbe :: u32
  defines "t \<equiv> fold (kputc vbe) ready_text (con k)"
  assumes "booted isr irqp isr128 k" "fb_ok vbe fb (hw (con k))" "kmain_layout vbe fb wa buf_wa ra buf_ra"
    and "load_bytes (hw (con k)) buf_wa 4 = bytes ''TEST''"
  shows "run_acts (acts_after isr irqp isr128 vbe regs wa buf_wa ra buf_ra (g_cursor_col (con k), g_cursor_row (con k))) k =
    kmain_prepare ra buf_ra (k\<lparr>con := fold (kputc vbe) written_text (t\<lparr>hw := set_write_args wa buf_wa (hw t)\<rparr>)\<rparr>)"
proof -
  let ?k2 = "k\<lparr>con := t\<rparr>" and ?t3 = "t\<lparr>hw := set_write_args wa buf_wa (hw t)\<rparr>"
  let ?k4 = "k\<lparr>con := fold (kputc vbe) (bytes ''TEST'') ?t3\<rparr>"
  let ?p = "(g_cursor_col (con k), g_cursor_row (con k))"
  from assms(4) have l: "clear_block vbe fb wa 12" "clear_block vbe fb buf_wa 4"
    "unat buf_wa + 4 \<le> unat wa \<or> unat wa + 12 \<le> unat buf_wa" by (simp_all add: kmain_layout_def)
  have d: "draws vbe fb (hw (con k)) (hw t)" unfolding t_def by (rule kputcs_draws [OF assms(3)])
  have b: "booted isr irqp isr128 (on_hw (set_write_args wa buf_wa) ?k2)"
    using booted_cong [of "on_hw (set_write_args wa buf_wa) ?k2" k] assms(2) by simp
  have call: "write_call_act isr irqp isr128 vbe regs wa (on_hw (set_write_args wa buf_wa) ?k2) = ?k4"
    unfolding write_call_act_def using write_call [OF b _ l, of regs] draws_ok [OF d] draws_block [OF d l(2)] assms(5) by simp
  have st: "run_acts (store_acts [(wa, 4), (wa + 4, 0), (wa + 8, buf_wa)]) ?k2 = on_hw (set_write_args wa buf_wa) ?k2"
    unfolding store_acts_run by (simp add: set_write_args_def store_write_args_def Let_def on_hw_def)
  have "cursor_after ready_text ?p = (g_cursor_col ?t3, g_cursor_row ?t3)"
    using cursor_after_kputc [of ready_text "con k" vbe] by (simp add: t_def)
  then have p: "cursor_after (ready_text @ bytes ''TEST'') ?p = (g_cursor_col (con ?k4), g_cursor_row (con ?k4))"
    using cursor_after_kputc [of "bytes ''TEST''" ?t3 vbe] by (simp add: cursor_after_append del: bytes_simps)
  have w: "written_text = bytes ''TEST'' @ bytes '' <-- 4 characters written from syscall.'' @ [ch_nl]"
    by (simp add: written_text_def)
  have "run_acts (acts_after isr irqp isr128 vbe regs wa buf_wa ra buf_ra ?p) k =
      run_acts (store_acts [(ra + 4, 1)]) (on_hw (fill_bytes buf_ra 5 0)
        (on_con (fold (kputc vbe) (bytes '' <-- 4 characters written from syscall.'' @ [ch_nl])) ?k4))"
    unfolding acts_after_def run_acts_simps kmain_prints p st fill_acts_run
    using st call by (simp only: on_con_def t_def [symmetric] kmain_prints fill_acts_run)
  also have "\<dots> = kmain_prepare ra buf_ra (k\<lparr>con := fold (kputc vbe) written_text ?t3\<rparr>)"
    unfolding w store_acts_run kmain_prepare_def by (simp add: on_con_def on_hw_def del: bytes_simps)
  finally show ?thesis .
qed

section \<open>With interrupts\<close>

text \<open>A run of these actions that handled the events \<open>es2\<close> after the registration of the handler.\<close>

definition kmain_preempted :: "(nat \<Rightarrow> u32) \<Rightarrow> (nat \<Rightarrow> u32) \<Rightarrow> u32 \<Rightarrow> u32 \<Rightarrow> interrupt_frame \<Rightarrow> u32 \<Rightarrow> u32 \<Rightarrow> u32 \<Rightarrow> u32 \<Rightarrow>
    kernel \<Rightarrow> event list \<Rightarrow> event list \<Rightarrow> kernel \<Rightarrow> bool" where
  "kmain_preempted isr irqp isr128 vbe regs wa buf_wa ra buf_ra k es1 es2 kl \<longleftrightarrow>
     (let irq = device_irq isr irqp isr128 vbe regs; p = (g_cursor_col (con k), g_cursor_row (con k))
      in \<exists>u. preempted irq (acts_before vbe p) k es1 u \<and>
           preempted irq (acts_after isr irqp isr128 vbe regs wa buf_wa ra buf_ra (cursor_after hello_text p))
             (register_act u) es2 kl)"

lemma kmain_preempted_iff:
  "preempted (device_irq isr irqp isr128 vbe regs) (kmain_acts isr irqp isr128 vbe regs wa buf_wa ra buf_ra k) k es kl \<longleftrightarrow>
   (\<exists>es1 es2. es = es1 @ es2 \<and> kmain_preempted isr irqp isr128 vbe regs wa buf_wa ra buf_ra k es1 es2 kl)"
proof
  show "\<exists>es1 es2. es = es1 @ es2 \<and> kmain_preempted isr irqp isr128 vbe regs wa buf_wa ra buf_ra k es1 es2 kl"
    if "preempted (device_irq isr irqp isr128 vbe regs) (kmain_acts isr irqp isr128 vbe regs wa buf_wa ra buf_ra k) k es kl"
    using that unfolding kmain_acts_def Let_def by (rule preempted_around) (auto simp: kmain_preempted_def Let_def)
  show "preempted (device_irq isr irqp isr128 vbe regs) (kmain_acts isr irqp isr128 vbe regs wa buf_wa ra buf_ra k) k es kl"
    if "\<exists>es1 es2. es = es1 @ es2 \<and> kmain_preempted isr irqp isr128 vbe regs wa buf_wa ra buf_ra k es1 es2 kl"
    using that unfolding kmain_acts_def kmain_preempted_def Let_def by (elim exE conjE) (simp only: preempted_join)
qed

lemma kb_init_acts_quiet: "\<forall>f \<in> set kb_init_acts. oblivious set_ports (devices_idle isr irqp isr128) f"
proof -
  have "oblivious set_ports (devices_idle isr irqp isr128) (\<lambda>k. k\<lparr>kb := f (kb k)\<rparr>)" for f
    using gates_ready_cong [of "k\<lparr>kb := f (kb k)\<rparr>" k for k]
    by (simp add: oblivious_def devices_idle_def set_ports_def on_hw_def)
  then show ?thesis by (simp add: kb_init_acts_def)
qed

lemma acts_before_quiet: "\<forall>f \<in> set (acts_before vbe p). oblivious set_ports (devices_idle isr irqp isr128) f"
  using kb_init_acts_quiet by (auto simp: acts_before_def intro: quietD(1) kprintf_acts_quiet pixel_quiet)

lemma store_acts_quiet: "f \<in> set (store_acts ws) \<Longrightarrow> quiet isr irqp isr128 f"
  by (auto simp: store_acts_def quiet_simps)

lemma fill_acts_quiet: "f \<in> set (map (\<lambda>i. on_hw (\<lambda>s. wr8 s (a + of_nat i) 0)) is) \<Longrightarrow> quiet isr irqp isr128 f"
  by (auto simp: quiet_simps)

lemma acts_after_quiet:
  "\<forall>f \<in> set (acts_after isr irqp isr128 vbe regs wa buf_wa ra buf_ra p). oblivious set_input (booted isr irqp isr128) f"
proof
  fix f assume f: "f \<in> set (acts_after isr irqp isr128 vbe regs wa buf_wa ra buf_ra p)"
  show "oblivious set_input (booted isr irqp isr128) f"
  proof (cases "f = write_call_act isr irqp isr128 vbe regs wa")
    case False
    with f have "quiet isr irqp isr128 f"
      unfolding acts_after_def set_append Un_iff set_simps insert_iff empty_iff
      using kprintf_acts_quiet store_acts_quiet fill_acts_quiet by metis
    then show ?thesis by (rule quietD(2))
  qed (simp add: write_call_quiet)
qed

lemma kmain_acts_interrupted:
  assumes "kmain_ready isr irqp isr128 vbe fb wa buf_wa ra buf_ra k" "devices_idle isr irqp isr128 k"
    and "kmain_preempted isr irqp isr128 vbe regs wa buf_wa ra buf_ra k es1 es2 k0"
    and k1: "line vbe 10 10 100 100 COLOR_RED (hw (fold (kputc vbe) hello_text (con k))) = Some s"
      "con k1 = start_console vbe wa buf_wa (con k) s" "k1 = (init_keyboard k)\<lparr>con := con k1\<rparr>"
  shows "k0 = set_input (fold handle_scancode (keys es2) (kb_init (kb k)), fold port_effect (es1 @ es2) (ports k))
    (kmain_prepare ra buf_ra k1)"
proof -
  let ?p = "(g_cursor_col (con k), g_cursor_row (con k))"
  let ?t1 = "fold (kputc vbe) hello_text (con k)"
  let ?irq = "device_irq isr irqp isr128 vbe regs"
  let ?B = "acts_after isr irqp isr128 vbe regs wa buf_wa ra buf_ra (cursor_after hello_text ?p)"
  from assms(1) have r: "booted isr irqp isr128 (init_keyboard k)" "fb_ok vbe fb (hw (con k))"
    "kmain_layout vbe fb wa buf_wa ra buf_ra" "load_bytes (hw (con k)) buf_wa 4 = bytes ''TEST''"
    by (simp_all add: kmain_ready_def)
  obtain u where e: "preempted ?irq (acts_before vbe ?p) k es1 u" "preempted ?irq ?B (register_act u) es2 k0"
    using assms(3) by (auto simp: kmain_preempted_def Let_def)
  let ?r0 = "init_keyboard (k\<lparr>con := ?t1\<lparr>hw := s\<rparr>\<rparr>)" and ?P = "fold port_effect es1 (ports k)"
  have "u = set_ports ?P (k\<lparr>con := ?t1\<lparr>hw := s\<rparr>, kb := kb_init (kb k)\<rparr>)"
    using idle.undisturbed [OF e(1) assms(2) acts_before_quiet] k1(1) by (simp add: acts_before_run)
  then have u: "register_act u = set_input (kb ?r0, ?P) ?r0"
    by (cases k) (simp add: register_act_def init_keyboard_def set_input_def set_ports_def on_hw_def)
  have b: "booted isr irqp isr128 ?r0"
    using booted_cong [of ?r0 "init_keyboard k"] r(1) by (simp add: init_keyboard_fields)
  have "kb (register_act u) = kb ?r0" "ports (register_act u) = ?P"
    using input_laws(1) [of "(kb ?r0, ?P)" ?r0] by (simp_all add: u input_def)
  then have "k0 = set_input (fold handle_scancode (keys es2) (kb ?r0), fold port_effect es2 ?P) (run_acts ?B (register_act u))"
    using quiet_run [OF e(2) _ acts_after_quiet] live.ok_set [OF b] u by metis
  then have k0: "k0 = set_input (fold handle_scancode (keys es2) (kb_init (kb k)), fold port_effect (es1 @ es2) (ports k)) (run_acts ?B ?r0)"
    using live.run_oblivious [OF acts_after_quiet b] by (simp add: u init_keyboard_fields)
  have d: "draws vbe fb (hw (con k)) s"
    using draws_trans [OF kputcs_draws [OF r(2)]] line_draws [OF draws_ok [OF kputcs_draws [OF r(2)]]] k1(1) by (metis option.inject)
  have con0: "con ?r0 = ?t1\<lparr>hw := s\<rparr>" by (simp add: init_keyboard_fields)
  have cl: "clear_block vbe fb buf_wa 4" using r(3) by (simp add: kmain_layout_def)
  have l: "fb_ok vbe fb (hw (con ?r0))" "load_bytes (hw (con ?r0)) buf_wa 4 = bytes ''TEST''"
    using draws_ok [OF d] draws_block [OF d cl] r(4) by (simp_all add: con0)
  have c: "cursor_after hello_text ?p = (g_cursor_col (con ?r0), g_cursor_row (con ?r0))"
    using cursor_after_kputc [of hello_text "con k" vbe] by (simp add: con0)
  have "k1 = ?r0\<lparr>con := con k1\<rparr>" by (subst k1(3)) (simp add: init_keyboard_def Let_def)
  then have "run_acts ?B ?r0 = kmain_prepare ra buf_ra k1"
    unfolding c acts_after_run [OF b l(1) r(3) l(2)] using k1(2) by (simp add: start_console_def con0 Let_def)
  with k0 show ?thesis by simp
qed

section \<open>The read loop after it\<close>

lemma decode_nonzero: "0 \<notin> set (decode sh scs)"
  by (induction scs arbitrary: sh) (auto simp: char_of_def Let_def split: if_splits)

lemma decode_length: "length (decode sh scs) \<le> length scs"
proof (induction scs arbitrary: sh)
  case (Cons sc scs)
  from Cons.IH [of "shift_after sc sh"] char_of_length [of sc sh] show ?case by simp
qed simp

lemma set_input_fields [simp]:
  "mem (hw (con (set_input d k))) = mem (hw (con k))" "kb (set_input d k) = fst d" "int_flag (set_input d k) = int_flag k"
  "g_cursor_col (con (set_input d k)) = g_cursor_col (con k)" "g_cursor_row (con (set_input d k)) = g_cursor_row (con k)"
  "handlers (set_input d k) = handlers k"
  by (simp_all add: set_input_def)

lemma interrupted_loop_ready:
  assumes "kmain_ready isr irqp isr128 vbe fb wa buf_wa ra buf_ra k"
    and "fb_ok vbe fb (hw (con k1))" "k1 = (init_keyboard k)\<lparr>con := con k1\<rparr>"
    and "k0 = set_input (fold handle_scancode scs (kb_init (kb k)), p) (kmain_prepare ra buf_ra k1)" "length scs \<le> 256"
  shows "loop_ready isr irqp isr128 vbe fb buf_ra k0" "kb_contents (kb k0) = decode False scs"
proof -
  let ?k = "kmain_prepare ra buf_ra k1"
  have lay: "kmain_layout vbe fb wa buf_wa ra buf_ra" using assms(1) by (simp add: kmain_ready_def)
  note r = kmain_loop_ready [OF lay kmain_start_ready [OF assms(1,3)]]
  note e = kmain_prepare_effect [OF lay assms(2)]
  have "length (buffer (kb k)) = 256" using assms(1) by (simp add: kmain_ready_def)
  note i = kb_init_ok [OF this]
  have q: "kb_ok (kb k0) \<and> kb_contents (kb k0) = decode False scs"
    using scancodes_contents [of "kb_init (kb k)" scs] i decode_length [of False scs] assms(5) by (simp add: assms(4))
  then show "kb_contents (kb k0) = decode False scs" by simp
  have "booted isr irqp isr128 k0" unfolding assms(4) by (rule live.ok_set [OF r(2)])
  moreover have "fb_ok vbe fb (hw (con k0))" by (rule fb_ok_cong [OF e(1)]) (simp add: assms(4))
  moreover have "rd8 (hw (con k0)) (buf_ra + 4) = 0" using e(2) by (simp add: assms(4) rd8_def)
  ultimately show "loop_ready isr irqp isr128 vbe fb buf_ra k0"
    using q r(3) by (simp add: loop_ready_def decode_nonzero) (simp add: assms(4))
qed

text \<open>The translation the code needs is still there when the loop starts.\<close>

lemma interrupted_paging:
  assumes "kmain_ready isr irqp isr128 vbe fb wa buf_wa ra buf_ra k" "vmm_ok v (hw (con k))" "fb_clear fb v"
    and "kmain_below (unat (entries (vpd v))) wa buf_wa ra buf_ra" "paging_ok vbe (vpd v) (hw (con k))" "fb_apart fb"
    and "line vbe 10 10 100 100 COLOR_RED (hw (fold (kputc vbe) hello_text (con k))) = Some s"
      "con k1 = start_console vbe wa buf_wa (con k) s" "fb_ok vbe fb (hw (con k1))"
    and "mem (hw (con kl)) = mem (hw (con (kmain_prepare ra buf_ra k1)))"
  shows "paging_ok vbe (vpd v) (hw (con kl))"
proof -
  from assms(1) have r: "fb_ok vbe fb (hw (con k))" "kmain_layout vbe fb wa buf_wa ra buf_ra"
    by (simp_all add: kmain_ready_def)
  have low: "unat wa + 12 \<le> unat (entries (vpd v))" "clear_block vbe fb wa 12"
    using assms(4) r(2) by (simp_all add: kmain_below_def kmain_layout_def)
  have m1: "same_memory v (hw (con k)) (hw (con k1))"
    unfolding assms(8) by (rule kmain_start_memory [OF assms(2) r(1) assms(3) low(2,1) assms(7)])
  have m2: "same_memory v (hw (con k1)) (hw (con (kmain_prepare ra buf_ra k1)))"
    by (rule kmain_prepare_memory [OF assms(4)]) (use m1 in \<open>simp add: same_memory_def\<close>)
  have m3: "same_memory v (hw (con (kmain_prepare ra buf_ra k1))) (hw (con kl))"
    by (rule same_mem_memory [OF assms(10)]) (use m2 in \<open>simp add: same_memory_def\<close>)
  have m: "same_memory v (hw (con k)) (hw (con kl))"
    by (rule same_memory_trans [OF same_memory_trans [OF m1 m2] m3])
  have "fb_ok vbe fb (hw (con kl))"
    by (rule fb_ok_cong [OF kmain_prepare_effect(1) [OF r(2) assms(9)]]) (simp add: assms(10))
  then show ?thesis by (rule paging_ok_same [OF assms(5) m assms(2) r(1) _ assms(6)])
qed

text \<open>The report, printed with interrupts between its pixels.\<close>

definition report_acts :: "u32 \<Rightarrow> cstr \<Rightarrow> kernel \<Rightarrow> (kernel \<Rightarrow> kernel) list" where
  "report_acts vbe str k =
     (let p = (g_cursor_col (con k), g_cursor_row (con k));
          fmt = [ch_nl] @ bytes ''%d characters read from syscall.'' @ [ch_nl]
      in kprintf_acts vbe fmt [IntArg 4] p @
         kprintf_acts vbe (bytes ''%s --> read from syscall'') [StrArg (Some str)]
           (cursor_after ([ch_nl] @ bytes ''4 characters read from syscall.'' @ [ch_nl]) p))"

lemma report_acts_run:
  assumes "0 \<notin> set str"
  shows "run_acts (report_acts vbe str k) k = on_con (fold (kputc vbe) (report_text str)) k"
proof -
  let ?a = "[ch_nl] @ bytes ''4 characters read from syscall.'' @ [ch_nl]"
  let ?t = "fold (kputc vbe) ?a (con k)"
  have "\<forall>a \<in> set [IntArg 4]. arg_plain a" by (simp add: arg_plain_def)
  note p1 = kprintf_text [OF kmain_formats(4) this, of vbe "con k"]
  have col: "g_cursor_col ?t = 0" by simp
  have p2: "kprintf vbe (bytes ''%s --> read from syscall'') [StrArg (Some str)] ?t =
      Some (fold (kputc vbe) (bytes '' --> read from syscall'') (fold (kputc vbe) str ?t))"
    by (rule kprintf_report [OF col assms])
  have "cursor_after ?a (g_cursor_col (con k), g_cursor_row (con k)) = (g_cursor_col ?t, g_cursor_row ?t)"
    by (rule cursor_after_kputc)
  then show ?thesis
    unfolding report_acts_def Let_def run_acts_simps kprintf_acts_run [OF p1]
    using kprintf_acts_con [OF p2, of k] by (simp add: on_con_def report_text_def del: bytes_simps)
qed

lemma report_interrupted:
  assumes "booted isr irqp isr128 k" "0 \<notin> set str"
    and "preempted (device_irq isr irqp isr128 vbe regs) (report_acts vbe str k) k es k'"
  shows "mem (hw (con k')) = mem (hw (fold (kputc vbe) (report_text str) (con k)))"
    "kb k' = fold handle_scancode (keys es) (kb k)"
proof -
  have "\<forall>f \<in> set (report_acts vbe str k). oblivious set_input (booted isr irqp isr128) f"
    unfolding report_acts_def Let_def set_append using quietD(2) [OF kprintf_acts_quiet] by blast
  then have "k' = set_input (fold handle_scancode (keys es) (kb k), fold port_effect es (ports k))
      (on_con (fold (kputc vbe) (report_text str)) k)"
    using quiet_run [OF assms(3,1)] by (simp add: report_acts_run [OF assms(2)])
  then show "mem (hw (con k')) = mem (hw (fold (kputc vbe) (report_text str) (con k)))"
    "kb k' = fold handle_scancode (keys es) (kb k)" by (simp_all add: on_con_def)
qed

text \<open>
  The loop, at a moment with input \<open>str\<close>, is over or ends with its next round, and the report that
  follows is about the first four characters, with and without interrupts.
\<close>

definition reports :: "(nat \<Rightarrow> u32) \<Rightarrow> (nat \<Rightarrow> u32) \<Rightarrow> u32 \<Rightarrow> u32 \<Rightarrow> interrupt_frame \<Rightarrow> u32 \<Rightarrow> u32 \<Rightarrow> u32 \<Rightarrow> kernel \<Rightarrow> cstr \<Rightarrow> bool" where
  "reports isr irqp isr128 vbe regs ra buf_ra got k str \<longleftrightarrow>
     (\<exists>k3. (k3 = k \<and> got = 4 \<or> read_step isr irqp isr128 vbe regs ra buf_ra 4 (got, k) = Some (4, k3)) \<and>
        kmain_end vbe buf_ra 4 k3 = Some (k3\<lparr>con := fold (kputc vbe) (report_text (take 4 str)) (con k3)\<rparr>) \<and>
        (\<forall>es k4. preempted (device_irq isr irqp isr128 vbe regs) (report_acts vbe (take 4 str) k3) k3 es k4 \<longrightarrow>
           mem (hw (con k4)) = mem (hw (fold (kputc vbe) (report_text (take 4 str)) (con k3))) \<and>
           kb k4 = fold handle_scancode (keys es) (kb k3)))"

lemma loop_reports:
  assumes "kmain_layout vbe fb wa buf_wa ra buf_ra" "loop_ready isr irqp isr128 vbe fb buf_ra k0"
    and "read_run isr irqp isr128 vbe regs ra buf_ra k0 got k typed" "4 \<le> length (kb_contents (kb k0) @ typed)"
  shows "reports isr irqp isr128 vbe regs ra buf_ra got k (kb_contents (kb k0) @ typed)"
proof -
  let ?str = "kb_contents (kb k0) @ typed"
  obtain k3 where k3: "k3 = k \<and> got = 4 \<or> read_step isr irqp isr128 vbe regs ra buf_ra 4 (got, k) = Some (4, k3)"
    "kmain_end vbe buf_ra 4 k3 = Some (k3\<lparr>con := fold (kputc vbe) (report_text (take 4 ?str)) (con k3)\<rparr>)"
    "read_run isr irqp isr128 vbe regs ra buf_ra k0 4 k3 typed" "read_inv isr irqp isr128 ra buf_ra k0 4 k3 ?str"
    using loop_then_report [OF assms] by blast
  have "booted isr irqp isr128 k3" using k3(4) by (simp add: read_inv_def)
  moreover have "0 \<notin> set ?str" using read_run_nonzero [OF k3(3)] assms(2) by (simp add: loop_ready_def)
  then have "0 \<notin> set (take 4 ?str)" using set_take_subset [of 4 ?str] by blast
  ultimately have rep: "mem (hw (con k4)) = mem (hw (fold (kputc vbe) (report_text (take 4 ?str)) (con k3)))"
      "kb k4 = fold handle_scancode (keys es) (kb k3)"
    if "preempted (device_irq isr irqp isr128 vbe regs) (report_acts vbe (take 4 ?str) k3) k3 es k4" for es k4
    using report_interrupted that by blast+
  show ?thesis unfolding reports_def using k3(1,2) rep by (intro exI [of _ k3] conjI allI impI) assumption+
qed

section \<open>Properties\<close>

text \<open>
  C7. From power on to the report, with device interrupts between all actions of \<^verbatim>\<open>kmain\<close>: between
  the pixels, cursor updates, stores and field assignments before the read loop, between the
  calls of the loop and between the pixels of the report.  Memory and cursor are at the start of
  the loop what \<^verbatim>\<open>kmain\<close> leaves without interrupts, and the kernel, low memory and the screen are
  mapped as the code needs them.  The keyboard then holds exactly what was
  typed after its handler was registered (at most 256 keys); earlier keys are lost.  When there are
  four characters of input, typed ahead or during the loop, the loop is over or ends with its
  next round, and the report shows the first four, whatever interrupts come while it is printed;
  keys pressed then go into the keyboard.
\<close>

theorem boot_to_report_interrupted:
  fixes k :: kernel and vbe bi :: u32
  defines "fb \<equiv> get_framebuffer_info vbe (hw (con k))"
  assumes "good_boot vbe bi n (hw (con k))" "kernel_ok k" "length (buffer (kb k)) = 256"
    and "distinct (map (stub_addr isr irqp isr128) stub_vectors)"
    and "kmain_layout vbe fb wa buf_wa ra buf_ra"
    and "kmain_below (unat (bi_page_directory (hw (con k)) bi)) wa buf_wa ra buf_ra"
    and "load_bytes (hw (con k)) buf_wa 4 = bytes ''TEST''"
  shows "\<exists>v k0 k1. platform_init vbe bi gdt_addr idt_addr isr irqp isr128 self k = Some (v, k0) \<and>
    kmain_start vbe isr irqp isr128 regs wa buf_wa k0 = Some k1 \<and>
    (\<forall>es1 es2 kl. length (keys es2) \<le> 256 \<and>
         kmain_preempted isr irqp isr128 vbe regs wa buf_wa ra buf_ra k0 es1 es2 kl \<longrightarrow>
       mem (hw (con kl)) = mem (hw (con (kmain_prepare ra buf_ra k1))) \<and> paging_ok vbe (vpd v) (hw (con kl)) \<and>
       g_cursor_col (con kl) = g_cursor_col (con k1) \<and> g_cursor_row (con kl) = g_cursor_row (con k1) \<and>
       kb_contents (kb kl) = decode False (keys es2) \<and>
       (\<forall>got k2 typed. read_run isr irqp isr128 vbe regs ra buf_ra kl got k2 typed \<and>
          4 \<le> length (decode False (keys es2) @ typed) \<longrightarrow>
          reports isr irqp isr128 vbe regs ra buf_ra got k2 (decode False (keys es2) @ typed)))"
proof -
  obtain v k0 where i: "platform_init vbe bi gdt_addr idt_addr isr irqp isr128 self k = Some (v, k0)"
    "kmain_ready isr irqp isr128 vbe fb wa buf_wa ra buf_ra k0" "handlers k0 ! 33 = Default_irq_handler"
    "vmm_ok v (hw (con k0))" "fb_clear fb v" "kmain_below (unat (entries (vpd v))) wa buf_wa ra buf_ra"
    "paging_ok vbe (vpd v) (hw (con k0))" "fb_apart fb"
    unfolding fb_def by (rule boot_ready [OF assms(2-5) assms(6-8) [unfolded fb_def], of gdt_addr idt_addr self])
  from i(2) have r: "booted isr irqp isr128 (init_keyboard k0)" "fb_ok vbe fb (hw (con k0))"
    "kmain_layout vbe fb wa buf_wa ra buf_ra" "load_bytes (hw (con k0)) buf_wa 4 = bytes ''TEST''"
    by (simp_all add: kmain_ready_def)
  have idle: "devices_idle isr irqp isr128 k0" by (rule devices_idleI [OF r(1) i(3)])
  obtain s k1 where k1: "line vbe 10 10 100 100 COLOR_RED (hw (fold (kputc vbe) hello_text (con k0))) = Some s"
    "kmain_start vbe isr irqp isr128 regs wa buf_wa k0 = Some k1" "con k1 = start_console vbe wa buf_wa (con k0) s"
    "fb_ok vbe fb (hw (con k1))" "k1 = (init_keyboard k0)\<lparr>con := con k1\<rparr>"
    by (rule kmain_start_run [OF r])
  have "mem (hw (con kl)) = mem (hw (con (kmain_prepare ra buf_ra k1))) \<and> paging_ok vbe (vpd v) (hw (con kl)) \<and>
      g_cursor_col (con kl) = g_cursor_col (con k1) \<and> g_cursor_row (con kl) = g_cursor_row (con k1) \<and>
      kb_contents (kb kl) = decode False (keys es2) \<and>
      (\<forall>got k2 typed. read_run isr irqp isr128 vbe regs ra buf_ra kl got k2 typed \<and>
         4 \<le> length (decode False (keys es2) @ typed) \<longrightarrow>
         reports isr irqp isr128 vbe regs ra buf_ra got k2 (decode False (keys es2) @ typed))"
    if "length (keys es2) \<le> 256" "kmain_preempted isr irqp isr128 vbe regs wa buf_wa ra buf_ra k0 es1 es2 kl" for es1 es2 kl
  proof -
    have kl: "kl = set_input (fold handle_scancode (keys es2) (kb_init (kb k0)), fold port_effect (es1 @ es2) (ports k0))
        (kmain_prepare ra buf_ra k1)"
      by (rule kmain_acts_interrupted [OF i(2) idle that(2) k1(1,3,5)])
    note l = interrupted_loop_ready [OF i(2) k1(4,5) kl that(1)]
    have pg: "paging_ok vbe (vpd v) (hw (con kl))"
      by (rule interrupted_paging [OF i(2,4-8) k1(1,3,4)]) (simp add: kl)
    have "mem (hw (con kl)) = mem (hw (con (kmain_prepare ra buf_ra k1)))"
      "g_cursor_col (con kl) = g_cursor_col (con k1)" "g_cursor_row (con kl) = g_cursor_row (con k1)"
      by (simp_all add: kl kmain_prepare_def)
    with pg l(2) loop_reports [OF r(3) l(1)] show ?thesis by (simp only: l(2)) blast
  qed
  with i(1) k1(2) show ?thesis by blast
qed

text \<open>Any keys can be pressed once the handler is registered: such a run exists.\<close>

lemma kmain_preempted_exists:
  assumes "kmain_ready isr irqp isr128 vbe fb wa buf_wa ra buf_ra k" "\<forall>e \<in> set es. 32 \<le> fst e \<and> fst e < 48"
  shows "\<exists>kl. kmain_preempted isr irqp isr128 vbe regs wa buf_wa ra buf_ra k [] es kl"
proof -
  let ?p = "(g_cursor_col (con k), g_cursor_row (con k))"
  let ?u = "run_acts (acts_before vbe ?p) k"
  have "booted isr irqp isr128 (register_act ?u)" "int_flag (register_act ?u)"
    using booted_cong [of "register_act ?u" "init_keyboard k"] assms(1)
    by (simp_all add: acts_before_run register_act_def init_keyboard_fields register_handler_def kmain_ready_def)
  then obtain kl where "preempted (device_irq isr irqp isr128 vbe regs)
      (acts_after isr irqp isr128 vbe regs wa buf_wa ra buf_ra (cursor_after hello_text ?p)) (register_act ?u) es kl"
    using booted_irqs [OF _ _ assms(2)] by metis
  moreover have "preempted (device_irq isr irqp isr128 vbe regs) (acts_before vbe ?p) k [] ?u" by (rule preempted_none)
  ultimately show ?thesis unfolding kmain_preempted_def Let_def by (intro exI [of _ kl] exI [of _ ?u] conjI)
qed

text \<open>The example machine boots, \<open>abcd\<close> is typed right after the keyboard is registered, and the
first round of the loop reads it.\<close>

theorem boot_to_report_interrupted_witness:
  "\<exists>v k0 kl. platform_init 0x8000 0x7000 0xC0021000 0xC0020000 demo_isr demo_irqp 0xC0003000 0xC0005000
       (power_on\<lparr>con := boot_tty\<lparr>hw := plat_machine\<rparr>\<rparr>) = Some (v, k0) \<and>
     kmain_preempted demo_isr demo_irqp 0xC0003000 0x8000 some_regs 0xB000 0xA000 0xB010 0xB020 k0 []
       [(33, 0x1E), (33, 0x30), (32, 0), (33, 0x2E), (33, 0x20)] kl \<and>
     reports demo_isr demo_irqp 0xC0003000 0x8000 some_regs 0xB010 0xB020 0 kl (bytes ''abcd'')"
proof -
  let ?k = "power_on\<lparr>con := boot_tty\<lparr>hw := plat_machine\<rparr>\<rparr>"
  let ?es = "[(33, 0x1E), (33, 0x30), (32, 0), (33, 0x2E), (33, 0x20)] :: event list"
  note hyps = plat_kmain_hyps
  have keys: "decode False (keys ?es) = bytes ''abcd''" "length (keys ?es) \<le> 256"
    by (simp_all add: keys_def char_of_def shift_after_def scancode_to_ascii_def)
  obtain v k0 where i: "platform_init 0x8000 0x7000 0xC0021000 0xC0020000 demo_isr demo_irqp 0xC0003000 0xC0005000 ?k = Some (v, k0)"
    "kmain_ready demo_isr demo_irqp 0xC0003000 0x8000 (get_framebuffer_info 0x8000 (hw (con ?k))) 0xB000 0xA000 0xB010 0xB020 k0"
    by (rule boot_ready [OF hyps, of "0xC0021000" "0xC0020000" "0xC0005000"])
  obtain kl where kl: "kmain_preempted demo_isr demo_irqp 0xC0003000 0x8000 some_regs 0xB000 0xA000 0xB010 0xB020 k0 [] ?es kl"
    using kmain_preempted_exists [OF i(2), of ?es some_regs] by auto
  from boot_to_report_interrupted [OF hyps, of "0xC0021000" "0xC0020000" "0xC0005000" some_regs] i(1)
  have "kmain_preempted demo_isr demo_irqp 0xC0003000 0x8000 some_regs 0xB000 0xA000 0xB010 0xB020 k0 es1 es2 kl \<Longrightarrow>
      length (keys es2) \<le> 256 \<Longrightarrow> read_run demo_isr demo_irqp 0xC0003000 0x8000 some_regs 0xB010 0xB020 kl got k2 typed \<Longrightarrow>
      4 \<le> length (decode False (keys es2) @ typed) \<Longrightarrow>
      reports demo_isr demo_irqp 0xC0003000 0x8000 some_regs 0xB010 0xB020 got k2 (decode False (keys es2) @ typed)"
    for es1 es2 kl got k2 typed by (metis option.inject prod.inject)
  from this [OF kl keys(2) read_start, unfolded keys(1)] i(1) kl show ?thesis by auto
qed

end
