(* ===== verification/Checked_Access.thy ===== *)
theory Checked_Access
  imports Interrupts
begin

text \<open>
  The interrupt side of the kernel once more, with every access to one of its arrays checked: \<open>None\<close>
  is a read or a write outside \<^verbatim>\<open>g_IDT\<close>, \<^verbatim>\<open>handlers\<close>, \<^verbatim>\<open>exception_names\<close>, \<^verbatim>\<open>syscall_table\<close>, the two
  scancode tables or the buffer of the keyboard.  (In the plain definitions a list read at an
  index that is too large has an unspecified value, and a write there does nothing.)  When the
  arrays have the sizes of the source, the checked operations return what the plain ones
  return: no access is out of bounds.
\<close>

section \<open>Checked arrays\<close>

definition array_get :: "'a list \<Rightarrow> nat \<Rightarrow> 'a option" where
  "array_get xs i = (if i < length xs then Some (xs ! i) else None)"

definition array_set :: "'a list \<Rightarrow> nat \<Rightarrow> 'a \<Rightarrow> 'a list option" where
  "array_set xs i v = (if i < length xs then Some (xs[i := v]) else None)"

lemma array_get_in [simp]: "i < length xs \<Longrightarrow> array_get xs i = Some (xs ! i)"
  by (simp add: array_get_def)

lemma array_set_in [simp]: "i < length xs \<Longrightarrow> array_set xs i v = Some (xs[i := v])"
  by (simp add: array_set_def)

lemma array_out [simp]: "length xs \<le> i \<Longrightarrow> array_get xs i = None" "length xs \<le> i \<Longrightarrow> array_set xs i v = None"
  by (simp_all add: array_get_def array_set_def)

section \<open>The keyboard\<close>

definition kb_put_d :: "u8 \<Rightarrow> keyboard \<Rightarrow> keyboard option" where
  "kb_put_d c q =
     Option.bind (array_set (buffer q) (unat (write_pos q mod KB_BUFFER_SIZE)) c) (\<lambda>buf.
     let q = q\<lparr>buffer := buf\<rparr> in Some (q\<lparr>write_pos := write_pos q + 1\<rparr>))"

definition handle_scancode_d :: "u8 \<Rightarrow> keyboard \<Rightarrow> keyboard option" where
  "handle_scancode_d scancode q =
     (if scancode = SC_LSHIFT_PRESS \<or> scancode = SC_RSHIFT_PRESS then Some (q\<lparr>shift_held := True\<rparr>)
      else if scancode = SC_LSHIFT_RELEASE \<or> scancode = SC_RSHIFT_RELEASE then Some (q\<lparr>shift_held := False\<rparr>)
      else if scancode = SC_CTRL_PRESS then Some (q\<lparr>ctrl_held := True\<rparr>)
      else if scancode = SC_CTRL_RELEASE then Some (q\<lparr>ctrl_held := False\<rparr>)
      else if scancode AND KB_RELEASED \<noteq> 0 then Some q
      else Option.bind (if shift_held q then array_get scancode_to_ascii_shift (unat scancode)
                        else array_get scancode_to_ascii (unat scancode)) (\<lambda>c.
           if c \<noteq> 0 then kb_put_d c q else Some q))"

definition handle_interrupt_d :: "machine \<Rightarrow> keyboard \<Rightarrow> keyboard option" where
  "handle_interrupt_d s q = handle_scancode_d (io_read8 s KB_DATA_PORT) q"

definition read_char_d :: "keyboard \<Rightarrow> (u8 \<times> keyboard) option" where
  "read_char_d q =
     (if read_pos q = write_pos q then Some (0, q)
      else Option.bind (array_get (buffer q) (unat (read_pos q mod KB_BUFFER_SIZE))) (\<lambda>c.
           Some (c, q\<lparr>read_pos := read_pos q + 1\<rparr>)))"

definition keyboard_read_char_d :: "kernel \<Rightarrow> (u8 \<times> kernel) option" where
  "keyboard_read_char_d k = Option.bind (read_char_d (kb k)) (\<lambda>(c, q). Some (c, k\<lparr>kb := q\<rparr>))"

section \<open>System calls\<close>

partial_function (option) sys_read_loop_d :: "u32 \<Rightarrow> u32 \<Rightarrow> kernel \<Rightarrow> (u32 \<times> kernel) option" where
  "sys_read_loop_d args chars_processed k =
     (if chars_processed < args_count (hw (con k)) args then
        if \<not> keyboard_has_input k then Some (chars_processed, k)
        else Option.bind (keyboard_read_char_d k) (\<lambda>(c, k).
          let k = on_hw (\<lambda>s. wr8 s (args_buf s args + chars_processed) c) k
          in sys_read_loop_d args (chars_processed + 1) k)
      else Some (chars_processed, k))"

definition sys_read_d :: "u32 \<Rightarrow> kernel \<Rightarrow> (u32 \<times> kernel) option" where
  "sys_read_d arg1 k = sys_read_loop_d arg1 0 k"

fun run_syscall_d :: "u32 \<Rightarrow> syscall_imp \<Rightarrow> u32 \<Rightarrow> kernel \<Rightarrow> (u32 \<times> kernel) option" where
  "run_syscall_d vbe Sys_read arg1 k = sys_read_d arg1 k"
| "run_syscall_d vbe Sys_write arg1 k = Some (sys_write vbe arg1 k)"
| "run_syscall_d vbe Sys_default arg1 k = Some (sys_default arg1 k)"

section \<open>Dispatch\<close>

definition default_exception_handler_d :: "u32 \<Rightarrow> interrupt_frame \<Rightarrow> kernel \<Rightarrow> outcome option" where
  "default_exception_handler_d vbe frame k =
     Option.bind (array_get exception_names (unat (interrupt_number frame))) (\<lambda>name.
     Option.bind (kprintf vbe (bytes ''Exception %d: %s'' @ [ch_nl])
       [IntArg (interrupt_number frame), StrArg (Some (bytes name))] (con k)) (\<lambda>t.
     Option.bind (kprintf vbe (bytes ''Error code: 0x%x'' @ [ch_nl]) [IntArg (error_code frame)] t) (\<lambda>t.
     Option.bind (kprintf vbe (bytes ''EIP: 0x%x'' @ [ch_nl]) [IntArg (eip frame)] t) (\<lambda>t.
     Some (Halted (interrupts_disable (k\<lparr>con := t\<rparr>)))))))"

definition keyboard_irq_handler_d :: "interrupt_frame \<Rightarrow> kernel \<Rightarrow> outcome option" where
  "keyboard_irq_handler_d frame k =
     Option.bind (handle_interrupt_d (hw (con k)) (kb k)) (\<lambda>q. Some (Returned frame (k\<lparr>kb := q\<rparr>)))"

definition syscall_handler_d :: "u32 \<Rightarrow> interrupt_frame \<Rightarrow> kernel \<Rightarrow> outcome option" where
  "syscall_handler_d vbe frame k =
     (let syscall_number = eax frame AND 0xFF
      in Option.bind (array_get (syscall_table k) (unat syscall_number)) (\<lambda>f.
         Option.bind (run_syscall_d vbe f (ebx frame) k) (\<lambda>(r, k).
         Some (Returned (frame\<lparr>eax := r\<rparr>) k))))"

fun run_handler_d :: "u32 \<Rightarrow> isr_t \<Rightarrow> interrupt_frame \<Rightarrow> kernel \<Rightarrow> outcome option" where
  "run_handler_d vbe Null_handler frame k = Some (Returned frame k)"
| "run_handler_d vbe Default_handler frame k = default_handler frame k"
| "run_handler_d vbe Default_exception_handler frame k = default_exception_handler_d vbe frame k"
| "run_handler_d vbe Default_irq_handler frame k = default_irq_handler frame k"
| "run_handler_d vbe Keyboard_irq_handler frame k = keyboard_irq_handler_d frame k"
| "run_handler_d vbe Syscall_handler frame k = syscall_handler_d vbe frame k"

definition isr_handler_d :: "u32 \<Rightarrow> interrupt_frame \<Rightarrow> kernel \<Rightarrow> outcome option" where
  "isr_handler_d vbe frame k =
     (let intno = interrupt_number frame
      in Option.bind (array_get (handlers k) (unat intno)) (\<lambda>h.
         case run_handler_d vbe h frame k of
           Some (Returned frame' k') \<Rightarrow>
             Some (Returned frame'
               (if intno \<ge> 32 \<and> intno < 48 then on_hw (pic_send_eoi (ucast (intno - 32))) k' else k'))
         | r \<Rightarrow> r))"

definition vector_entry_d :: "kernel \<Rightarrow> nat \<Rightarrow> u32 option" where
  "vector_entry_d k n =
     (if 8 * n + 7 \<le> unat (limit (idtr k)) then
        Option.bind (array_get (g_IDT k) n) (\<lambda>e. if gate_present e then Some (gate_target e) else None)
      else None)"

definition deliver_d :: "(nat \<Rightarrow> u32) \<Rightarrow> (nat \<Rightarrow> u32) \<Rightarrow> u32 \<Rightarrow> u32 \<Rightarrow> nat \<Rightarrow> u32 \<Rightarrow> interrupt_frame \<Rightarrow>
    kernel \<Rightarrow> outcome option" where
  "deliver_d isr irqp isr128 vbe n err regs k =
     Option.bind (Option.bind (vector_entry_d k n) (stub_vector isr irqp isr128)) (\<lambda>v.
       case isr_handler_d vbe (regs\<lparr>interrupt_number := of_nat v, error_code := stub_error v err\<rparr>)
           (interrupts_disable k) of
         Some (Returned frame k') \<Rightarrow> Some (Returned frame (k'\<lparr>int_flag := int_flag k\<rparr>))
       | r \<Rightarrow> r)"

section \<open>Setting up the tables\<close>

text \<open>A loop of writes stops at the first one that is out of bounds.\<close>

primrec fold_d :: "('i \<Rightarrow> 's \<Rightarrow> 's option) \<Rightarrow> 'i list \<Rightarrow> 's \<Rightarrow> 's option" where
  "fold_d f [] s = Some s"
| "fold_d f (i # is) s = Option.bind (f i s) (fold_d f is)"

definition fill_d :: "'a list \<Rightarrow> 'a \<Rightarrow> nat \<Rightarrow> nat \<Rightarrow> 'a list option" where
  "fill_d arr val start stop = fold_d (\<lambda>i arr. array_set arr i val) [start..<stop] arr"

definition register_handler_d :: "u8 \<Rightarrow> isr_t \<Rightarrow> isr_t list \<Rightarrow> isr_t list option" where
  "register_handler_d intno handler hs = array_set hs (unat intno) handler"

definition fill_handlers_d :: "isr_t list \<Rightarrow> isr_t list option" where
  "fill_handlers_d hs =
     Option.bind (fill_d hs Default_handler 0 256) (\<lambda>hs.
     Option.bind (fill_d hs Default_exception_handler 0 32) (\<lambda>hs.
     fill_d hs Default_irq_handler 32 48))"

definition idt_set_entry_d :: "u8 \<Rightarrow> u32 \<Rightarrow> u8 \<Rightarrow> idt_entry list \<Rightarrow> idt_entry list option" where
  "idt_set_entry_d index handler fl idt =
     array_set idt (unat index) \<lparr>offset_low = ucast (handler AND 0xFFFF), selector = GDT_CODE_SEGMENT,
       reserved = 0, flags = fl, offset_high = ucast (drop_bit 16 handler AND 0xFFFF)\<rparr>"

definition set_gates_d :: "(nat \<Rightarrow> u32) \<Rightarrow> (nat \<Rightarrow> u32) \<Rightarrow> u32 \<Rightarrow> idt_entry list \<Rightarrow> idt_entry list option" where
  "set_gates_d isr irqp isr128 idt =
     Option.bind (fold_d (\<lambda>i. idt_set_entry_d (of_nat i) (isr i) IDT_FLAG_GATE_INTERRUPT) [0..<32] idt) (\<lambda>idt.
     Option.bind (fold_d (\<lambda>i. idt_set_entry_d (of_nat i) (irqp (i - 32)) IDT_FLAG_GATE_INTERRUPT) [32..<48] idt) (\<lambda>idt.
     idt_set_entry_d 128 isr128 IDT_FLAG_GATE_INTERRUPT idt))"

definition idt_init_d :: "u32 \<Rightarrow> (nat \<Rightarrow> u32) \<Rightarrow> (nat \<Rightarrow> u32) \<Rightarrow> u32 \<Rightarrow> kernel \<Rightarrow> kernel option" where
  "idt_init_d idt_addr isr irqp isr128 k =
     (let k = k\<lparr>g_IDTDescriptor := \<lparr>limit = of_nat (8 * IDT_MAX_ENTRIES - 1), base = idt_addr\<rparr>\<rparr>
      in Option.bind (fill_handlers_d (handlers k)) (\<lambda>hs. let k = k\<lparr>handlers := hs\<rparr>
      in Option.bind (set_gates_d isr irqp isr128 (g_IDT k)) (\<lambda>idt. let k = k\<lparr>g_IDT := idt\<rparr>;
          k = on_hw (pic_remap 32 40) k
      in Some (load_idt (g_IDTDescriptor k) k))))"

definition init_keyboard_d :: "kernel \<Rightarrow> kernel option" where
  "init_keyboard_d k =
     (let k = k\<lparr>kb := kb_init (kb k)\<rparr>
      in map_option (\<lambda>hs. k\<lparr>handlers := hs\<rparr>) (register_handler_d 33 Keyboard_irq_handler (handlers k)))"

definition syscalls_init_d :: "kernel \<Rightarrow> kernel option" where
  "syscalls_init_d k =
     Option.bind (register_handler_d 0x80 Syscall_handler (handlers k)) (\<lambda>hs. let k = k\<lparr>handlers := hs\<rparr>
     in Option.bind (fill_d (syscall_table k) Sys_default 0 256) (\<lambda>st. let k = k\<lparr>syscall_table := st\<rparr>
     in Option.bind (array_set (syscall_table k) 0 Sys_read) (\<lambda>st. let k = k\<lparr>syscall_table := st\<rparr>
     in map_option (\<lambda>st. k\<lparr>syscall_table := st\<rparr>) (array_set (syscall_table k) 1 Sys_write))))"

section \<open>No access is out of bounds\<close>

lemma u8_index: "unat (n :: u8) < 256"
  using unsigned_less [of n, where ?'a = nat] by simp

lemma buffer_index: "unat (p mod KB_BUFFER_SIZE) < 256"
  by (simp add: unat_mod)

lemma scancode_tables_length [simp]: "length scancode_to_ascii = 128" "length scancode_to_ascii_shift = 128"
  by (simp_all add: scancode_to_ascii_def scancode_to_ascii_shift_def)

lemma kb_put_checked: "length (buffer q) = 256 \<Longrightarrow> kb_put_d c q = Some (kb_put c q)"
  using buffer_index [of "write_pos q"] by (simp add: kb_put_d_def kb_put_def)

lemma handle_interrupt_checked:
  assumes "length (buffer q) = 256"
  shows "handle_interrupt_d s q = Some (handle_interrupt s q)"
proof -
  have "unat sc < 128" if "sc AND KB_RELEASED = 0" for sc :: u8 using that released_iff [of sc] by simp
  then show ?thesis
    by (simp add: handle_interrupt_d_def handle_interrupt_def handle_scancode_d_def handle_scancode_def
        kb_put_checked [OF assms] Let_def)
qed

lemma read_char_checked: "length (buffer q) = 256 \<Longrightarrow> read_char_d q = Some (read_char q)"
  using buffer_index [of "read_pos q"] by (simp add: read_char_d_def read_char_def Let_def)

lemma sys_read_loop_checked:
  "length (buffer (kb k)) = 256 \<Longrightarrow> sys_read_loop_d args n k = Some (sys_read_loop args n k)"
proof (induction "kb_pending (kb k)" arbitrary: n k rule: less_induct)
  case less
  show ?case
  proof (cases "n < args_count (hw (con k)) args \<and> has_input (kb k)")
    case True
    have b: "length (buffer (kb (read_round args n k))) = 256"
      using less.prems by (simp add: read_round_def read_char_def split_beta Let_def)
    have "sys_read_loop_d args n k = sys_read_loop_d args (n + 1) (read_round args n k)"
      using True less.prems
      by (subst sys_read_loop_d.simps)
        (simp add: keyboard_has_input_def keyboard_read_char_d_def read_char_checked read_round_def Let_def split_beta)
    also have "\<dots> = Some (sys_read_loop args (n + 1) (read_round args n k))"
      using less.hyps [OF read_round_pending b] True by simp
    finally show ?thesis using True by (subst sys_read_loop_round) simp
  qed (subst sys_read_loop_round, subst sys_read_loop_d.simps, auto simp: keyboard_has_input_def)
qed

lemma run_syscall_checked:
  "length (buffer (kb k)) = 256 \<Longrightarrow> run_syscall_d vbe f arg1 k = Some (run_syscall vbe f arg1 k)"
  by (cases f) (simp_all add: sys_read_d_def sys_read_def sys_read_loop_checked)

lemma default_exception_handler_checked:
  "default_exception_handler_d vbe frame k = default_exception_handler vbe frame k"
  by (simp add: default_exception_handler_d_def default_exception_handler_def array_get_def)

text \<open>The sizes of the source.\<close>

definition array_sizes :: "kernel \<Rightarrow> bool" where
  "array_sizes k \<longleftrightarrow> kernel_ok k \<and> length (buffer (kb k)) = 256"

lemma syscall_index: "unat (x AND 0xFF :: u32) < 256"
proof -
  have "x AND 0xFF \<le> 0xFF" by (rule word_and_le1)
  then show ?thesis by (simp add: word_le_nat_alt)
qed

lemma run_handler_checked:
  assumes "array_sizes k"
  shows "run_handler_d vbe h frame k = run_handler vbe h frame k"
  using assms syscall_index [of "eax frame"]
  by (cases h) (simp_all add: array_sizes_def kernel_ok_def default_exception_handler_checked
      keyboard_irq_handler_d_def keyboard_irq_handler_def handle_interrupt_checked
      syscall_handler_d_def syscall_handler_def run_syscall_checked Let_def split_beta)

lemma isr_handler_checked:
  assumes "array_sizes k"
  shows "isr_handler_d vbe frame k = isr_handler vbe frame k"
  using assms
  by (auto simp: isr_handler_d_def isr_handler_def run_handler_checked [OF assms] array_get_def
      array_sizes_def kernel_ok_def Let_def)

lemma deliver_checked:
  assumes "array_sizes k" "n < 256"
  shows "deliver_d isr irqp isr128 vbe n err regs k = deliver isr irqp isr128 vbe n err regs k"
proof -
  have "array_sizes (interrupts_disable k)" using assms(1) by (simp add: array_sizes_def interrupts_disable_def kernel_ok_def)
  note h = isr_handler_checked [OF this]
  have "vector_entry_d k n = vector_entry k n"
    using assms by (simp add: vector_entry_d_def vector_entry_def array_sizes_def kernel_ok_def)
  then show ?thesis by (simp add: deliver_d_def deliver_def h)
qed

section \<open>The set-up is in bounds\<close>

lemma fold_d_some:
  assumes "P s" "\<And>i s. i \<in> set is \<Longrightarrow> P s \<Longrightarrow> f i s = Some (g i s) \<and> P (g i s)"
  shows "fold_d f is s = Some (fold g is s) \<and> P (fold g is s)"
  using assms by (induction "is" arbitrary: s) auto

lemma fill_checked:
  assumes "stop \<le> length arr"
  shows "fill_d arr v start stop = Some (fill arr v start stop) \<and> length (fill arr v start stop) = length arr"
  unfolding fill_d_def fill_def
  by (rule fold_d_some [where P = "\<lambda>xs. length xs = length arr"]) (use assms in auto)

lemma idt_set_entry_checked:
  "length idt = 256 \<Longrightarrow> idt_set_entry_d i h fl idt = Some (idt_set_entry i h fl idt) \<and> length (idt_set_entry i h fl idt) = 256"
  using u8_index [of i] by (simp add: idt_set_entry_d_def idt_set_entry_def)

lemma set_gates_checked:
  assumes "length idt = 256"
  shows "set_gates_d isr irqp isr128 idt = Some (set_gates isr irqp isr128 idt)"
proof -
  have f: "fold_d (\<lambda>i. idt_set_entry_d (of_nat i) (h i) fl) is xs = Some (fold (\<lambda>i. idt_set_entry (of_nat i) (h i) fl) is xs) \<and>
      length (fold (\<lambda>i. idt_set_entry (of_nat i) (h i) fl) is xs) = 256"
    if "length xs = 256" for h fl "is" xs
    by (rule fold_d_some [where P = "\<lambda>xs. length xs = 256"]) (use that idt_set_entry_checked in auto)
  show ?thesis
    using f [OF assms, of isr IDT_FLAG_GATE_INTERRUPT "[0..<32]"]
      f [of "fold (\<lambda>i. idt_set_entry (of_nat i) (isr i) IDT_FLAG_GATE_INTERRUPT) [0..<32] idt"
        "\<lambda>i. irqp (i - 32)" IDT_FLAG_GATE_INTERRUPT "[32..<48]"] idt_set_entry_checked
    by (simp add: set_gates_d_def set_gates_def Let_def del: upt_rec_numeral)
qed

lemma setup_checked:
  assumes "kernel_ok k"
  shows "register_handler_d n h (handlers k) = Some (register_handler n h (handlers k))"
    "idt_init_d a isr irqp isr128 k = Some (idt_init a isr irqp isr128 k)"
    "init_keyboard_d k = Some (init_keyboard k)" "syscalls_init_d k = Some (syscalls_init k)"
proof -
  have l: "length (handlers k) = 256" "length (g_IDT k) = 256" "length (syscall_table k) = 256"
    using assms by (simp_all add: kernel_ok_def)
  show r: "register_handler_d n h (handlers k) = Some (register_handler n h (handlers k))" for n h
    using l u8_index [of n] by (simp add: register_handler_d_def register_handler_def)
  have "fill_handlers_d (handlers k) = Some (fill_handlers (handlers k))"
    using fill_checked [of 256 "handlers k" Default_handler 0]
      fill_checked [of 32 "fill (handlers k) Default_handler 0 256" Default_exception_handler 0]
      fill_checked [of 48 "fill (fill (handlers k) Default_handler 0 256) Default_exception_handler 0 32" Default_irq_handler 32] l
    by (simp add: fill_handlers_d_def fill_handlers_def Let_def)
  then show "idt_init_d a isr irqp isr128 k = Some (idt_init a isr irqp isr128 k)"
    using set_gates_checked [OF l(2)] by (simp add: idt_init_d_def idt_init_def Let_def)
  show "init_keyboard_d k = Some (init_keyboard k)"
    by (simp add: init_keyboard_d_def init_keyboard_def r Let_def)
  show "syscalls_init_d k = Some (syscalls_init k)"
    using fill_checked [of 256 "syscall_table k" Sys_default 0] l
    by (simp add: syscalls_init_d_def syscalls_init_def r Let_def)
qed

end
