(* ===== verification/Kernel_Safety.thy ===== *)
theory Kernel_Safety
  imports Checked_Access
begin

text \<open>
  The interrupt side of the kernel as a transition system: any operation on the tables, console
  output, devices changing their ports, interrupts and system calls, in any order.  A state is
  well typed (\<open>wt_kernel\<close>) when its arrays have the sizes of the source and the gates lead to the
  stubs; every step keeps that, and in such a state every interrupt is handled, by the checked
  operations of \<open>Checked_Access\<close> as by the plain ones: no access outside an array and no gate that is
  missing (\<open>can_handle\<close>).  The operations that set the tables up stay in bounds as well (\<open>can_set_up\<close>).
\<close>

section \<open>Type soundness\<close>

locale typed_system =
  fixes step :: "'s \<Rightarrow> 's \<Rightarrow> bool" and wt safe :: "'s \<Rightarrow> bool"
  assumes preservation: "step s t \<Longrightarrow> wt s \<Longrightarrow> wt t"
    and progress: "wt s \<Longrightarrow> safe s"
begin

lemma run_typed: "step\<^sup>*\<^sup>* s t \<Longrightarrow> wt s \<Longrightarrow> wt t"
  by (induction rule: rtranclp_induct) (auto intro: preservation)

lemma type_sound: "step\<^sup>*\<^sup>* s t \<Longrightarrow> wt s \<Longrightarrow> wt t \<and> safe t"
  using run_typed progress by blast

end

section \<open>Well-typed states\<close>

definition wt_kernel :: "(nat \<Rightarrow> u32) \<Rightarrow> (nat \<Rightarrow> u32) \<Rightarrow> u32 \<Rightarrow> kernel \<Rightarrow> bool" where
  "wt_kernel isr irqp isr128 k \<longleftrightarrow> kernel_ok k \<and> length (buffer (kb k)) = 256 \<and>
     distinct (map (stub_addr isr irqp isr128) stub_vectors) \<and>
     (\<forall>n \<in> set stub_vectors. vector_entry k n = Some (stub_addr isr irqp isr128 n)) \<and>
     (\<forall>n < 256. 32 \<le> n \<longrightarrow> handlers k ! n \<noteq> Default_exception_handler)"

definition can_handle :: "(nat \<Rightarrow> u32) \<Rightarrow> (nat \<Rightarrow> u32) \<Rightarrow> u32 \<Rightarrow> kernel \<Rightarrow> bool" where
  "can_handle isr irqp isr128 k \<longleftrightarrow> (\<forall>vbe n err regs. n \<in> set stub_vectors \<longrightarrow>
     (\<exists>r. deliver_d isr irqp isr128 vbe n err regs k = Some r \<and> deliver isr irqp isr128 vbe n err regs k = Some r \<and>
        ((\<exists>k'. r = Halted k') \<longleftrightarrow> handlers k ! n = Default_exception_handler)))"

definition can_set_up :: "(nat \<Rightarrow> u32) \<Rightarrow> (nat \<Rightarrow> u32) \<Rightarrow> u32 \<Rightarrow> kernel \<Rightarrow> bool" where
  "can_set_up isr irqp isr128 k \<longleftrightarrow>
     (\<forall>n h. register_handler_d n h (handlers k) = Some (register_handler n h (handlers k))) \<and>
     (\<forall>a. idt_init_d a isr irqp isr128 k = Some (idt_init a isr irqp isr128 k)) \<and>
     init_keyboard_d k = Some (init_keyboard k) \<and> syscalls_init_d k = Some (syscalls_init k)"

section \<open>Steps\<close>

inductive kernel_step :: "(nat \<Rightarrow> u32) \<Rightarrow> (nat \<Rightarrow> u32) \<Rightarrow> u32 \<Rightarrow> kernel \<Rightarrow> kernel \<Rightarrow> bool"
  for isr irqp isr128 where
  step_interrupt: "deliver isr irqp isr128 vbe n err regs k = Some (Returned frame k') \<Longrightarrow>
    kernel_step isr irqp isr128 k k'"
| step_syscall: "syscall isr irqp isr128 vbe regs number arg1 k = Some (r, k') \<Longrightarrow>
    kernel_step isr irqp isr128 k k'"
| step_device: "kernel_step isr irqp isr128 k (on_hw f k)"
| step_print: "kprintf vbe fmt args (con k) = Some t \<Longrightarrow> kernel_step isr irqp isr128 k (k\<lparr>con := t\<rparr>)"
| step_register: "unat n < 32 \<or> h \<noteq> Default_exception_handler \<Longrightarrow>
    kernel_step isr irqp isr128 k (k\<lparr>handlers := register_handler n h (handlers k)\<rparr>)"
| step_gdt: "kernel_step isr irqp isr128 k (gdt_init a k)"
| step_idt: "kernel_step isr irqp isr128 k (idt_init a isr irqp isr128 k)"
| step_keyboard: "kernel_step isr irqp isr128 k (init_keyboard k)"
| step_syscalls: "kernel_step isr irqp isr128 k (syscalls_init k)"
| step_enable: "kernel_step isr irqp isr128 k (interrupts_enable k)"
| step_disable: "kernel_step isr irqp isr128 k (interrupts_disable k)"

section \<open>Preservation\<close>

lemma wt_kernelI:
  assumes "wt_kernel isr irqp isr128 k" "g_IDT k' = g_IDT k" "idtr k' = idtr k" "kernel_ok k'"
    and "length (buffer (kb k')) = length (buffer (kb k))"
    and "\<And>n. n < 256 \<Longrightarrow> 32 \<le> n \<Longrightarrow> handlers k' ! n \<noteq> Default_exception_handler"
  shows "wt_kernel isr irqp isr128 k'"
proof -
  have "vector_entry k' n = vector_entry k n" for n using assms(2,3) by (simp add: vector_entry_def)
  with assms show ?thesis by (simp add: wt_kernel_def)
qed

lemma wt_kernel_cong:
  assumes "g_IDT k' = g_IDT k" "idtr k' = idtr k" "handlers k' = handlers k" "syscall_table k' = syscall_table k"
    and "length (buffer (kb k')) = length (buffer (kb k))"
  shows "wt_kernel isr irqp isr128 k' = wt_kernel isr irqp isr128 k"
  using assms by (simp add: wt_kernel_def kernel_ok_def vector_entry_def)

lemma kb_puts_buffer: "length (buffer (fold kb_put str q)) = length (buffer q)"
  by (induction str arbitrary: q) (simp_all add: kb_put_def Let_def)

lemma handle_interrupt_buffer [simp]: "length (buffer (handle_interrupt s q)) = length (buffer q)"
  by (simp add: handle_interrupt_def handle_scancode_char kb_puts_buffer)

lemma sys_read_loop_buffer:
  "length (buffer (kb (snd (sys_read_loop args n k)))) = length (buffer (kb k))"
  by (rule sys_read_loop_keeps) (simp_all add: read_round_def read_char_def split_beta Let_def)

lemma run_syscall_wt:
  "wt_kernel isr irqp isr128 (snd (run_syscall vbe f arg1 k)) = wt_kernel isr irqp isr128 k"
proof -
  obtain q s where "snd (sys_read arg1 k) = k\<lparr>kb := q, con := (con k)\<lparr>hw := s\<rparr>\<rparr>"
    using sys_read_loop_tables unfolding sys_read_def by blast
  moreover have "length (buffer (kb (snd (sys_read arg1 k)))) = length (buffer (kb k))"
    by (simp add: sys_read_def sys_read_loop_buffer)
  ultimately show ?thesis
    by (intro wt_kernel_cong; cases f) (simp_all add: sys_write_def sys_default_def split_beta)
qed

lemma run_handler_wt:
  assumes "run_handler vbe h frame k = Some (Returned frame' k')"
  shows "wt_kernel isr irqp isr128 k' = wt_kernel isr irqp isr128 k"
  using assms run_syscall_wt [of isr irqp isr128 vbe "syscall_table k ! unat (eax frame AND 0xFF)" "ebx frame" k]
    wt_kernel_cong [of "k\<lparr>kb := handle_interrupt (hw (con k)) (kb k)\<rparr>" k isr irqp isr128]
  by (cases h) (auto simp: default_handler_def default_irq_handler_def keyboard_irq_handler_def
      syscall_handler_def Let_def split_beta default_exception_handler_def bind_eq_Some_conv split: if_splits)

lemma wt_flag [simp]:
  "wt_kernel isr irqp isr128 (k\<lparr>int_flag := b\<rparr>) = wt_kernel isr irqp isr128 k"
  "wt_kernel isr irqp isr128 (on_hw f k) = wt_kernel isr irqp isr128 k"
  "wt_kernel isr irqp isr128 (k\<lparr>con := t\<rparr>) = wt_kernel isr irqp isr128 k"
  by (rule wt_kernel_cong; simp)+

lemma deliver_wt:
  assumes "deliver isr irqp isr128 vbe n err regs k = Some (Returned frame k')" "wt_kernel isr irqp isr128 k"
  shows "wt_kernel isr irqp isr128 k'"
proof -
  let ?f = "\<lambda>v. regs\<lparr>interrupt_number := of_nat v, error_code := stub_error v err\<rparr>"
  from assms(1) obtain v where "(case isr_handler vbe (?f v) (k\<lparr>int_flag := False\<rparr>) of
      Some (Returned frame k') \<Rightarrow> Some (Returned frame (k'\<lparr>int_flag := int_flag k\<rparr>)) | r \<Rightarrow> r) = Some (Returned frame k')"
    unfolding deliver_def interrupts_disable_def bind_eq_Some_conv by blast
  then obtain k1 where r: "isr_handler vbe (?f v) (k\<lparr>int_flag := False\<rparr>) = Some (Returned frame k1)"
      "k' = k1\<lparr>int_flag := int_flag k\<rparr>"
    by (auto split: option.split_asm outcome.split_asm)
  from r(1) have "wt_kernel isr irqp isr128 k1"
    using run_handler_wt assms(2)
    by (auto simp: isr_handler_def Let_def split: if_splits option.splits outcome.splits)
  then show ?thesis by (simp add: r(2))
qed

lemma syscall_wt:
  assumes "syscall isr irqp isr128 vbe regs number arg1 k = Some (r, k')" "wt_kernel isr irqp isr128 k"
  shows "wt_kernel isr irqp isr128 k'"
  using assms deliver_wt
  by (auto simp: syscall_def syscalls_send_def send_syscall_def split: option.splits outcome.splits)

lemma idt_init_wt:
  assumes "wt_kernel isr irqp isr128 k"
  shows "wt_kernel isr irqp isr128 (idt_init a isr irqp isr128 k)"
proof -
  from assms have ok: "kernel_ok k" "length (handlers k) = 256" by (simp_all add: wt_kernel_def kernel_ok_def)
  have kb: "kb (idt_init a isr irqp isr128 k) = kb k" by (simp add: idt_init_def Let_def load_idt_def)
  have "\<forall>n \<in> set stub_vectors. n < 256" by (simp add: stub_vectors_def)
  then show ?thesis
    using assms ok fill_handlers_nth(2) [OF ok(2)]
    by (simp add: wt_kernel_def kb vector_entry_idt_init idt_init_fields(1))
qed

lemma register_wt:
  assumes "wt_kernel isr irqp isr128 k" "unat n < 32 \<or> h \<noteq> Default_exception_handler"
  shows "wt_kernel isr irqp isr128 (k\<lparr>handlers := register_handler n h (handlers k)\<rparr>)"
proof (rule wt_kernelI [OF assms(1)])
  have l: "length (handlers k) = 256" "unat n < 256"
    using assms(1) unsigned_less [of n] by (simp_all add: wt_kernel_def kernel_ok_def)
  show "handlers (k\<lparr>handlers := register_handler n h (handlers k)\<rparr>) ! i \<noteq> Default_exception_handler"
    if "i < 256" "32 \<le> i" for i
    using that assms l by (auto simp: wt_kernel_def register_handler_def nth_list_update)
qed (use assms(1) in \<open>simp_all add: wt_kernel_def kernel_ok_def register_handler_def\<close>)

lemma setup_wt:
  assumes "wt_kernel isr irqp isr128 k"
  shows "wt_kernel isr irqp isr128 (gdt_init a k)" "wt_kernel isr irqp isr128 (init_keyboard k)"
    "wt_kernel isr irqp isr128 (syscalls_init k)"
proof -
  show "wt_kernel isr irqp isr128 (gdt_init a k)"
    using wt_kernel_cong [of "gdt_init a k" k] assms by (simp add: gdt_init_def load_gdt_def Let_def)
  have "wt_kernel isr irqp isr128 (k\<lparr>kb := kb_init (kb k)\<rparr>)"
    using wt_kernel_cong [of "k\<lparr>kb := kb_init (kb k)\<rparr>" k] assms by (simp add: kb_init_def)
  from register_wt [OF this, of 33 Keyboard_irq_handler] show "wt_kernel isr irqp isr128 (init_keyboard k)"
    by (simp add: init_keyboard_def Let_def)
  show "wt_kernel isr irqp isr128 (syscalls_init k)"
    by (rule wt_kernelI [OF register_wt [OF assms, of "0x80" Syscall_handler]])
      (use assms register_wt [OF assms, of "0x80" Syscall_handler] kernel_ok_ops(4) [of k]
        in \<open>simp_all add: wt_kernel_def syscalls_init_fields\<close>, simp_all add: syscalls_init_def Let_def register_handler_def)
qed

section \<open>Progress\<close>

lemma wt_can_handle:
  assumes "wt_kernel isr irqp isr128 k"
  shows "can_handle isr irqp isr128 k"
  unfolding can_handle_def
proof (intro allI impI)
  fix vbe n err and regs :: interrupt_frame
  assume n: "n \<in> set stub_vectors"
  let ?f = "regs\<lparr>interrupt_number := of_nat n, error_code := stub_error n err\<rparr>"
  let ?k = "k\<lparr>int_flag := False\<rparr>"
  have n256: "n < 256" using n by (auto simp: stub_vectors_iff)
  have un: "unat (of_nat n :: u32) = n" using n256 by (simp add: unat_u32_of_nat)
  have v: "Option.bind (vector_entry k n) (stub_vector isr irqp isr128) = Some n"
    using assms n by (simp add: wt_kernel_def stub_vector_addr)
  have h: "\<exists>r. run_handler vbe (handlers k ! n) ?f ?k = Some r \<and>
      ((\<exists>k'. r = Halted k') \<longleftrightarrow> handlers k ! n = Default_exception_handler)"
  proof (cases "handlers k ! n = Default_exception_handler")
    case True
    then have "n < 32" using assms n256 by (force simp: wt_kernel_def)
    with True default_exception_handler_eq [of ?f vbe ?k] un show ?thesis by simp
  next
    case False
    then show ?thesis
      by (cases "handlers k ! n") (simp_all add: default_handler_def default_irq_handler_def
          keyboard_irq_handler_def syscall_handler_def Let_def split_beta)
  qed
  then obtain r where r: "run_handler vbe (handlers k ! n) ?f ?k = Some r"
    "(\<exists>k'. r = Halted k') \<longleftrightarrow> handlers k ! n = Default_exception_handler" by blast
  have "array_sizes k" using assms by (simp add: wt_kernel_def array_sizes_def)
  note d = deliver_checked [OF this n256, of isr irqp isr128 vbe err regs]
  show "\<exists>r. deliver_d isr irqp isr128 vbe n err regs k = Some r \<and> deliver isr irqp isr128 vbe n err regs k = Some r \<and>
      ((\<exists>k'. r = Halted k') \<longleftrightarrow> handlers k ! n = Default_exception_handler)"
    unfolding d using r n256 v un
    by (cases r) (simp_all add: deliver_def isr_handler_def interrupts_disable_def Let_def)
qed

lemma wt_can_set_up: "wt_kernel isr irqp isr128 k \<Longrightarrow> can_set_up isr irqp isr128 k"
  using setup_checked [of k] by (simp add: wt_kernel_def can_set_up_def)

interpretation ks: typed_system "kernel_step isr irqp isr128" "wt_kernel isr irqp isr128"
    "\<lambda>k. can_handle isr irqp isr128 k \<and> can_set_up isr irqp isr128 k"
  for isr irqp isr128
proof (unfold_locales, goal_cases)
  case (1 s t)
  then show ?case
    by (induction rule: kernel_step.induct)
      (auto intro: deliver_wt syscall_wt idt_init_wt register_wt setup_wt simp: interrupts_enable_def interrupts_disable_def)
next
  case (2 s)
  then show ?case using wt_can_handle wt_can_set_up by blast
qed

section \<open>Properties\<close>

text \<open>C20. Type soundness of the interrupt side.  From a state whose arrays have the sizes of the
source, whose gates lead to the stubs and which has the exception handler at exception vectors only, any
sequence of interrupts, system calls, device input, output, registrations and set-up calls leads
to such a state again.  In it every vector that has a stub is handled, with all accesses to
\<^verbatim>\<open>g_IDT\<close>, \<^verbatim>\<open>handlers\<close>, \<^verbatim>\<open>exception_names\<close>, \<^verbatim>\<open>syscall_table\<close>, the scancode tables and the buffer of the
keyboard checked: none of them is out of bounds, whatever the registers and the ports hold, and the result is
that of the unchecked code; it stops the machine exactly when the exception handler is
registered for the vector.  The writes of the set-up operations to these arrays are in bounds too.\<close>

theorem kernel_type_sound:
  assumes "(kernel_step isr irqp isr128)\<^sup>*\<^sup>* k k'" "wt_kernel isr irqp isr128 k"
  shows "wt_kernel isr irqp isr128 k' \<and> can_handle isr irqp isr128 k' \<and> can_set_up isr irqp isr128 k'"
  by (rule ks.type_sound [OF assms])

text \<open>The freshly started kernel is well typed, and stays so after an undefined system call.\<close>

lemma running_wt: "wt_kernel demo_isr demo_irqp 0xC0003000 running"
proof -
  let ?k = "power_on\<lparr>con := boot_tty\<lparr>hw := call_machine\<rparr>\<rparr>"
  let ?i = "idt_init 0xC0020000 demo_isr demo_irqp 0xC0003000 ?k"
  have ok: "kernel_ok ?k" "length (handlers ?k) = 256" by (simp_all add: power_on_def kernel_ok_def)
  have "kb ?i = blank_keyboard" by (simp add: idt_init_def Let_def load_idt_def power_on_def)
  moreover have "\<forall>n \<in> set stub_vectors. n < 256" by (simp add: stub_vectors_def)
  ultimately have "wt_kernel demo_isr demo_irqp 0xC0003000 ?i"
    using ok fill_handlers_nth(2) [OF ok(2)] running_booted
    by (simp add: wt_kernel_def vector_entry_idt_init idt_init_fields(1) blank_keyboard_def booted_def)
  then show ?thesis
    using setup_wt by (simp add: running_def boot_sequence_def interrupts_enable_def)
qed

theorem kernel_type_sound_witness:
  "\<exists>k'. (kernel_step demo_isr demo_irqp 0xC0003000)\<^sup>*\<^sup>* running k' \<and>
     syscall demo_isr demo_irqp 0xC0003000 0x8000 some_regs 7 0 running = Some (- 1, k') \<and>
     can_handle demo_isr demo_irqp 0xC0003000 k'"
proof -
  have s: "syscall demo_isr demo_irqp 0xC0003000 0x8000 some_regs 7 0 running = Some (- 1, running)"
    by (simp add: syscall_booted [OF running_booted] boot_table_def sys_default_def)
  then have run: "(kernel_step demo_isr demo_irqp 0xC0003000)\<^sup>*\<^sup>* running running"
    by (intro r_into_rtranclp step_syscall)
  from kernel_type_sound [OF run running_wt] run s show ?thesis by blast
qed

end
