(* ===== verification/Page_Runs.thy ===== *)
theory Page_Runs
  imports Virtual_Memory
begin

text \<open>
  Clients of the virtual memory manager: any sequence of allocations, releases and byte writes
  through allocated addresses.  The manager's data refine a map from pages to frames; live
  ranges are disjoint, no two live addresses share a byte of memory, what a client wrote stays
  until it writes again or gives the page back, and no frame is lost.
\<close>

section \<open>Runs\<close>

definition pages_of :: "u32 \<times> u32 \<Rightarrow> nat set" where
  "pages_of r = {unat (fst r) div 4096 ..< unat (fst r) div 4096 + unat (snd r)}"

text \<open>A run has the live ranges, as returned and requested, and the bytes written through them.\<close>

inductive vmm_run :: "vmm \<Rightarrow> machine \<Rightarrow> machine \<Rightarrow> (u32 \<times> u32) list \<Rightarrow> (u32 \<rightharpoonup> u8) \<Rightarrow> bool"
  for v s0 where
  run_start: "vmm_run v s0 s0 [] Map.empty"
| run_alloc: "vmm_run v s0 s L D \<Longrightarrow> n \<noteq> 0 \<Longrightarrow> unat n \<le> card (free_frames v s) \<Longrightarrow>
    alloc_pages v n s = (a, t) \<Longrightarrow> vmm_run v s0 t (if a = 0 then L else (a, n) # L) D"
| run_free: "vmm_run v s0 s L D \<Longrightarrow> (a, n) \<in> set L \<Longrightarrow>
    vmm_run v s0 (free_pages v a n s) (remove1 (a, n) L) (D |` {w. unat w div 4096 \<notin> pages_of (a, n)})"
| run_write: "vmm_run v s0 s L D \<Longrightarrow> r \<in> set L \<Longrightarrow> unat w div 4096 \<in> pages_of r \<Longrightarrow>
    walk s (vpd v) w = Some p \<Longrightarrow> vmm_run v s0 (wr8 s p b) L (D(w \<mapsto> b))"

section \<open>The invariant\<close>

text \<open>A frame outside the fixed tables and the page bitmap.\<close>

definition clear_frame :: "vmm \<Rightarrow> nat \<Rightarrow> bool" where
  "clear_frame v f \<longleftrightarrow> fa_end (vfa v) \<le> 4096 * f \<and> f < 1048576 \<and>
     (4096 * (f + 1) \<le> unat (vbitmap v) \<or> unat (vbitmap v) + 16384 \<le> 4096 * f)"

text \<open>The page map \<open>M\<close> that bitmaps and page tables represent.\<close>

definition maps_pages :: "vmm \<Rightarrow> machine \<Rightarrow> machine \<Rightarrow> (nat \<rightharpoonup> nat) \<Rightarrow> bool" where
  "maps_pages v s0 s M \<longleftrightarrow> vmm_ok v s \<and>
     dom M = {j. region_page \<le> j \<and> j < region_page + 131072 \<and> vused v s (j - region_page)} \<and>
     (\<forall>w f. M (unat w div 4096) = Some f \<longrightarrow> pte s w = page_addr f OR 3) \<and>
     inj_on M (dom M) \<and> ran M \<subseteq> free_frames v s0 \<and>
     (\<forall>f < scanned (vfa v). fa_used s f \<longleftrightarrow> fa_used s0 f \<or> f \<in> ran M)"

definition live_ranges :: "(u32 \<times> u32) list \<Rightarrow> (nat \<rightharpoonup> nat) \<Rightarrow> bool" where
  "live_ranges L M \<longleftrightarrow> sorted_wrt (\<lambda>r q. pages_of r \<inter> pages_of q = {}) L \<and>
     (\<Union>r \<in> set L. pages_of r) = dom M \<and>
     (\<forall>(a, n) \<in> set L. n \<noteq> 0 \<and> (\<exists>k. a = page_addr (region_page + k) \<and> k + unat n \<le> 131072))"

definition phys :: "nat \<Rightarrow> u32 \<Rightarrow> u32" where
  "phys f w = page_addr f OR (w AND 0xFFF)"

definition holds_data :: "machine \<Rightarrow> (nat \<rightharpoonup> nat) \<Rightarrow> (u32 \<rightharpoonup> u8) \<Rightarrow> bool" where
  "holds_data s M D \<longleftrightarrow>
     (\<forall>w b. D w = Some b \<longrightarrow> (\<exists>f. M (unat w div 4096) = Some f \<and> mem s (phys f w) = b))"

section \<open>Addresses\<close>

lemma phys_inj:
  assumes "f < 1048576" "g < 1048576" "phys f w = phys g u" "unat w div 4096 = unat u div 4096 \<or> f \<noteq> g"
  shows "w = u"
proof -
  have e: "4096 * f + unat w mod 4096 = 4096 * g + unat u mod 4096"
    using assms(3) unat_page_or [OF assms(1), of w] unat_page_or [OF assms(2), of u] by (simp add: phys_def)
  then have "(4096 * f + unat w mod 4096) div 4096 = (4096 * g + unat u mod 4096) div 4096" by simp
  then have fg: "f = g" by simp
  then have "unat w mod 4096 = unat u mod 4096" using e by simp
  with fg assms(4) have "unat w = unat u" by (metis mod_div_mult_eq)
  then show ?thesis by (simp add: word_unat_eq_iff)
qed

lemma page_addr_div: "j < 1048576 \<Longrightarrow> unat (page_addr j) div 4096 = j"
  by (simp add: unat_page_addr)

lemma pages_of_range:
  "k + unat n \<le> 131072 \<Longrightarrow> n \<noteq> 0 \<Longrightarrow>
   pages_of (page_addr (region_page + k), n) = {region_page + k ..< region_page + k + unat n}"
  using unat_gt_0 [of n] by (simp add: pages_of_def page_addr_div)

lemma maps_pagesD:
  assumes "maps_pages v s0 s M"
  shows "vmm_ok v s" "\<And>j. j < 131072 \<Longrightarrow> M (region_page + j) \<noteq> None \<longleftrightarrow> vused v s j"
    "\<And>w f. M (unat w div 4096) = Some f \<Longrightarrow> pte s w = page_addr f OR 3"
    "\<And>i j f. M i = Some f \<Longrightarrow> M j = Some f \<Longrightarrow> i = j" "\<And>j f. M j = Some f \<Longrightarrow> f \<in> free_frames v s0"
    "\<And>f. f < scanned (vfa v) \<Longrightarrow> fa_used s f \<longleftrightarrow> fa_used s0 f \<or> f \<in> ran M"
    "\<And>j f. M j = Some f \<Longrightarrow> region_page \<le> j \<and> j < region_page + 131072 \<and> f < 1048576"
proof -
  note m = assms [unfolded maps_pages_def]
  show ok: "vmm_ok v s" using m by blast
  show "M (region_page + j) \<noteq> None \<longleftrightarrow> vused v s j" if "j < 131072" for j
  proof -
    have "region_page + j \<in> dom M \<longleftrightarrow> vused v s j" using m that by simp
    then show ?thesis by (simp add: domIff)
  qed
  show "pte s w = page_addr f OR 3" if "M (unat w div 4096) = Some f" for w f using m that by blast
  show "i = j" if "M i = Some f" "M j = Some f" for i j f
    using m that by (auto dest!: inj_onD [of M "dom M" i j])
  show fr: "f \<in> free_frames v s0" if "M j = Some f" for j f using m that by (blast intro: ranI)
  show "fa_used s f \<longleftrightarrow> fa_used s0 f \<or> f \<in> ran M" if "f < scanned (vfa v)" for f using m that by blast
  show "region_page \<le> j \<and> j < region_page + 131072 \<and> f < 1048576" if "M j = Some f" for j f
  proof -
    have "j \<in> dom M" using that by blast
    moreover have "f < scanned (vfa v)" using fr [OF that] by (simp add: free_frames_def)
    ultimately show ?thesis using m vmm_okD(4) [OF ok] by auto
  qed
qed

lemma walk_mapped:
  assumes "maps_pages v s0 s M" "M (unat w div 4096) = Some f"
  shows "walk s (vpd v) w = Some (phys f w)"
  using maps_pagesD(3) [OF assms] vmm_okD(3) [OF maps_pagesD(1) [OF assms(1)]]
  by (simp add: walk_pte flags_3 page_simps phys_def)

text \<open>Writes to the managers' own tables do not reach the data of clients.\<close>

lemma clear_phys:
  assumes "clear_frame v f" "tables_only v s t"
  shows "mem t (phys f w) = mem s (phys f w)"
proof -
  have "unat (phys f w) = 4096 * f + unat w mod 4096"
    using unat_page_or [of f w] assms(1) by (simp add: phys_def clear_frame_def)
  moreover have "unat w mod 4096 < 4096" by simp
  ultimately show ?thesis
    using assms unfolding tables_only_def clear_frame_def by auto
qed

lemma holds_data_tables:
  assumes "holds_data s M D" "maps_pages v s0 s M" "\<forall>f \<in> free_frames v s0. clear_frame v f" "tables_only v s t"
  shows "holds_data t M D"
  using assms(1) clear_phys [OF _ assms(4)] assms(3) maps_pagesD(5) [OF assms(2)]
  unfolding holds_data_def by metis

section \<open>Steps keep the invariant\<close>

definition add_pages :: "nat \<Rightarrow> nat list \<Rightarrow> (nat \<rightharpoonup> nat) \<Rightarrow> nat \<rightharpoonup> nat" where
  "add_pages B fs M = (\<lambda>j. if B \<le> j \<and> j < B + length fs then Some (fs ! (j - B)) else M j)"

lemma add_pages_dom: "dom (add_pages B fs M) = {B ..< B + length fs} \<union> dom M"
  by (auto simp: add_pages_def split: if_splits)

lemma add_pages_ran:
  assumes "{B ..< B + length fs} \<inter> dom M = {}"
  shows "ran (add_pages B fs M) = set fs \<union> ran M"
proof
  show "ran (add_pages B fs M) \<subseteq> set fs \<union> ran M"
    by (auto simp: add_pages_def ran_def split: if_splits)
  show "set fs \<union> ran M \<subseteq> ran (add_pages B fs M)"
  proof
    fix f assume "f \<in> set fs \<union> ran M"
    then consider i where "i < length fs" "f = fs ! i" | j where "M j = Some f"
      by (auto simp: in_set_conv_nth ran_def)
    then show "f \<in> ran (add_pages B fs M)"
    proof cases
      case 1
      then have "add_pages B fs M (B + i) = Some f" by (simp add: add_pages_def)
      then show ?thesis by (rule ranI)
    next
      case 2
      then have "j \<notin> {B ..< B + length fs}" using assms by blast
      with 2 have "add_pages B fs M j = Some f" by (auto simp: add_pages_def)
      then show ?thesis by (rule ranI)
    qed
  qed
qed

lemma add_pages_inj:
  assumes "inj_on M (dom M)" "distinct fs" "set fs \<inter> ran M = {}"
  shows "inj_on (add_pages B fs M) (dom (add_pages B fs M))"
proof (rule inj_onI)
  fix i j assume "i \<in> dom (add_pages B fs M)" "add_pages B fs M i = add_pages B fs M j"
  then obtain f where f: "add_pages B fs M i = Some f" "add_pages B fs M j = Some f" by (metis domD)
  have old: "M x = Some f" if "add_pages B fs M x = Some f" "\<not> (B \<le> x \<and> x < B + length fs)" for x
    using that by (auto simp: add_pages_def)
  have new: "f \<in> set fs" "fs ! (x - B) = f" if "add_pages B fs M x = Some f" "B \<le> x \<and> x < B + length fs" for x
    using that by (auto simp: add_pages_def)
  show "i = j"
  proof (cases "f \<in> ran M")
    case True
    then have "f \<notin> set fs" using assms(3) by blast
    then have "M i = Some f" "M j = Some f" using old new f by blast+
    then show ?thesis using assms(1) by (auto dest!: inj_onD [of M "dom M" i j])
  next
    case False
    then have r: "B \<le> i \<and> i < B + length fs" "B \<le> j \<and> j < B + length fs"
      using old f by (blast intro: ranI)+
    then have "fs ! (i - B) = fs ! (j - B)" using new(2) f by simp
    then have "i - B = j - B" using r assms(2) by (subst (asm) nth_eq_iff_index_eq) auto
    then show ?thesis using r by linarith
  qed
qed

lemma maps_pages_free:
  assumes "maps_pages v s0 s M"
  shows "free_frames v s = free_frames v s0 - ran M"
  using maps_pagesD(6) [OF assms] by (auto simp: free_frames_def)

lemma alloc_keeps:
  assumes m: "maps_pages v s0 s M" and L: "live_ranges L M" and D: "holds_data s M D"
    and clr: "\<forall>f \<in> free_frames v s0. clear_frame v f"
    and n: "n \<noteq> 0" "unat n \<le> card (free_frames v s)" and a: "alloc_pages v n s = (a, t)"
  shows "\<exists>M. maps_pages v s0 t M \<and> live_ranges (if a = 0 then L else (a, n) # L) M \<and> holds_data t M D"
  using maps_pagesD(1) [OF m] n
proof (cases rule: alloc_pages_run [of v s n])
  case none
  then show ?thesis using a m L D by auto
next
  case (range k fs t')
  have t: "t' = t" "a = page_addr (region_page + k)" using range(3) a by auto
  have k: "k + unat n \<le> 131072" using free_run_bound [OF maps_pagesD(1) [OF m] range(1)] .
  have a0: "a \<noteq> 0" using k n(1) unat_gt_0 [of n] unat_page_addr [of "region_page + k"] by (auto simp: t(2))
  let ?B = "region_page + k" let ?M = "add_pages ?B fs M"
  have len: "length fs = unat n" by (rule range(5))
  have new: "{?B ..< ?B + length fs} \<inter> dom M = {}"
  proof -
    have "M (region_page + (k + i)) = None" if "i < unat n" for i
      using maps_pagesD(2) [OF m, of "k + i"] range(1) that k by (auto simp: free_run_def)
    then have "M j = None" if "?B \<le> j" "j < ?B + unat n" for j
      using that by (metis add.assoc le_Suc_ex nat_add_left_cancel_less)
    then show ?thesis by (auto simp: len domIff)
  qed
  have fs: "set fs \<subseteq> free_frames v s0 - ran M" using range(7) maps_pages_free [OF m] by simp
  have "maps_pages v s0 t ?M"
    unfolding maps_pages_def
  proof (intro conjI)
    show "vmm_ok v t" using range(4) t(1) by simp
    have "dom M = {j. region_page \<le> j \<and> j < region_page + 131072 \<and> vused v s (j - region_page)}"
      using m by (simp add: maps_pages_def)
    then show "dom ?M = {j. region_page \<le> j \<and> j < region_page + 131072 \<and> vused v t (j - region_page)}"
      unfolding add_pages_dom len using range(10) t(1) k by (auto, arith+)
    show "\<forall>w f. ?M (unat w div 4096) = Some f \<longrightarrow> pte t w = page_addr f OR 3"
      using range(8) t(1) maps_pagesD(3) [OF m] by (auto simp: backed_def add_pages_def split: if_splits)
    show "inj_on ?M (dom ?M)"
      by (rule add_pages_inj) (use m range(6) fs in \<open>auto simp: maps_pages_def\<close>)
    show "ran ?M \<subseteq> free_frames v s0" unfolding add_pages_ran [OF new] using m fs by (auto simp: maps_pages_def)
    show "\<forall>f < scanned (vfa v). fa_used t f \<longleftrightarrow> fa_used s0 f \<or> f \<in> ran ?M"
      unfolding add_pages_ran [OF new] using range(9) t(1) maps_pagesD(6) [OF m] by auto
  qed
  moreover have pg: "pages_of (a, n) = {?B ..< ?B + length fs}" using pages_of_range [OF k n(1)] t(2) len by simp
  have "\<forall>r \<in> set L. pages_of r \<subseteq> dom M" using L by (auto simp: live_ranges_def)
  then have "\<forall>r \<in> set L. pages_of (a, n) \<inter> pages_of r = {}" using new pg by blast
  then have "live_ranges ((a, n) # L) ?M"
    using L pg n(1) k t(2) unfolding live_ranges_def add_pages_dom by auto
  moreover have "tables_only v s t" using alloc_pages_tables [OF maps_pagesD(1) [OF m] n] a by simp
  then have "holds_data t M D" by (rule holds_data_tables [OF D m clr])
  then have "holds_data t ?M D"
    using new unfolding holds_data_def add_pages_def by (force simp: domIff)
  ultimately show ?thesis using a0 by auto
qed

lemma sorted_wrt_remove1: "sorted_wrt P xs \<Longrightarrow> sorted_wrt P (remove1 x xs)"
proof (induction xs)
  case (Cons y xs)
  then show ?case using set_remove1_subset [of x xs] by auto
qed simp

lemma remove_range:
  assumes "sorted_wrt (\<lambda>r q. pages_of r \<inter> pages_of q = {}) L" "r \<in> set L"
  shows "(\<Union>q \<in> set (remove1 r L). pages_of q) = (\<Union>q \<in> set L. pages_of q) - pages_of r"
  using assms by (induction L) auto

lemma ran_restrict_iff: "f \<in> ran (M |` A) \<longleftrightarrow> (\<exists>i \<in> A. M i = Some f)"
  by (auto simp: ran_def restrict_map_def)

lemma restrict_ran:
  assumes "inj_on M (dom M)"
  shows "ran (M |` (- A)) = ran M - ran (M |` A)"
proof -
  have "i = j" if "M i = Some f" "M j = Some f" for i j f using assms that by (metis domI inj_onD)
  moreover have "f \<in> ran M \<longleftrightarrow> (\<exists>i. M i = Some f)" for f by (auto simp: ran_def)
  ultimately show ?thesis unfolding set_eq_iff Diff_iff ran_restrict_iff by blast
qed

lemma live_range_frames:
  assumes m: "maps_pages v s0 s M" and clr: "\<forall>f \<in> free_frames v s0. clear_frame v f"
    and sub: "{region_page + k ..< region_page + k + n} \<subseteq> dom M" and k: "k + n \<le> 131072"
  obtains fs where "length fs = n" "distinct fs" "set fs \<subseteq> free_frames v s0" "set fs \<subseteq> {0<..<scanned (vfa v)}"
    "ran (M |` {region_page + k ..< region_page + k + n}) = set fs"
    "\<forall>i < n. pte s (page_addr (region_page + k + i)) = page_addr (fs ! i) OR 3"
proof -
  let ?B = "region_page + k"
  define fs where "fs = map (\<lambda>i. the (M (?B + i))) [0..<n]"
  have M: "M (?B + i) = Some (fs ! i)" if "i < n" for i
  proof -
    have "?B + i \<in> {?B ..< ?B + n}" using that by simp
    then have "?B + i \<in> dom M" using sub by blast
    then show ?thesis using that by (auto simp: fs_def)
  qed
  have len: "length fs = n" by (simp add: fs_def)
  have "fs ! i \<noteq> fs ! j" if "i < n" "j < n" "i \<noteq> j" for i j
    using that maps_pagesD(4) [OF m, of "?B + i" "fs ! i" "?B + j"] M by auto
  then have dist: "distinct fs" by (simp add: distinct_conv_nth len)
  have "(\<exists>j \<in> {?B ..< ?B + n}. M j = Some f) \<longleftrightarrow> (\<exists>i < n. M (?B + i) = Some f)" for f
    by (auto simp: Bex_def) (metis le_Suc_ex nat_add_left_cancel_less, metis le_add1 nat_add_left_cancel_less)
  also have "(\<exists>i < n. M (?B + i) = Some f) \<longleftrightarrow> f \<in> set fs" for f
    using M by (auto simp: in_set_conv_nth len)
  finally have "ran (M |` {?B ..< ?B + n}) = set fs" by (auto simp: ran_restrict_iff)
  moreover have free: "set fs \<subseteq> free_frames v s0"
    using maps_pagesD(5) [OF m M] by (auto simp: in_set_conv_nth len)
  moreover have "set fs \<subseteq> {0<..<scanned (vfa v)}"
    using free clr fa_end_bounds [OF vmm_okD(2) [OF maps_pagesD(1) [OF m]]]
    by (fastforce simp: free_frames_def clear_frame_def)
  moreover have "\<forall>i < n. pte s (page_addr (?B + i)) = page_addr (fs ! i) OR 3"
    using maps_pagesD(3) [OF m, of "page_addr (?B + i)" for i] M k by (simp add: page_addr_div)
  ultimately show ?thesis using that [OF len dist] by blast
qed

lemma free_keeps:
  assumes m: "maps_pages v s0 s M" and L: "live_ranges L M" and D: "holds_data s M D"
    and clr: "\<forall>f \<in> free_frames v s0. clear_frame v f" and r: "(a, n) \<in> set L"
  defines "t \<equiv> free_pages v a n s" and "P \<equiv> pages_of (a, n)"
  shows "\<exists>M. maps_pages v s0 t M \<and> live_ranges (remove1 (a, n) L) M \<and> holds_data t M (D |` {w. unat w div 4096 \<notin> P})"
proof -
  from L r obtain k where k: "a = page_addr (region_page + k)" "k + unat n \<le> 131072" "n \<noteq> 0"
    by (auto simp: live_ranges_def)
  let ?M = "M |` (- P)"
  have pg: "P = {region_page + k ..< region_page + k + unat n}" using pages_of_range [OF k(2,3)] by (simp add: P_def k(1))
  have "P \<subseteq> dom M" using L r by (auto simp: live_ranges_def P_def)
  then obtain fs where len: "length fs = unat n" "distinct fs" and free: "set fs \<subseteq> free_frames v s0"
    and fs0: "set fs \<subseteq> {0<..<scanned (vfa v)}" and rfs: "ran (M |` P) = set fs"
    and pt: "\<forall>i < unat n. pte s (page_addr (region_page + k + i)) = page_addr (fs ! i) OR 3"
    unfolding pg by (rule live_range_frames [OF m clr _ k(2)])
  note ok = maps_pagesD(1) [OF m]
  note fr = free_pages_run [OF ok k(2,3) len fs0 pt, folded k(1) t_def]
  have inj: "inj_on M (dom M)" using m unfolding maps_pages_def by blast
  have ran: "ran ?M = ran M - set fs" using restrict_ran [OF inj, of P] rfs by simp
  have "maps_pages v s0 t ?M"
    unfolding maps_pages_def
  proof (intro conjI)
    show "vmm_ok v t" by (rule fr(1))
    have "dom M = {j. region_page \<le> j \<and> j < region_page + 131072 \<and> vused v s (j - region_page)}"
      using m by (simp add: maps_pages_def)
    then show "dom ?M = {j. region_page \<le> j \<and> j < region_page + 131072 \<and> vused v t (j - region_page)}"
      unfolding dom_restrict pg using fr(4) by auto
    show "\<forall>w f. ?M (unat w div 4096) = Some f \<longrightarrow> pte t w = page_addr f OR 3"
      using fr(2) maps_pagesD(3) [OF m] by (auto simp: restrict_map_def pg split: if_splits)
    show "inj_on ?M (dom ?M)"
      using inj by (auto simp: inj_on_def restrict_map_def dom_def split: if_splits)
    show "ran ?M \<subseteq> free_frames v s0" unfolding ran using m by (auto simp: maps_pages_def)
    show "\<forall>f < scanned (vfa v). fa_used t f \<longleftrightarrow> fa_used s0 f \<or> f \<in> ran ?M"
      unfolding ran using fr(3) maps_pagesD(6) [OF m] free by (auto simp: free_frames_def)
  qed
  moreover have "live_ranges (remove1 (a, n) L) ?M"
    using L sorted_wrt_remove1 remove_range [of L "(a, n)"] r set_remove1_subset [of "(a, n)" L]
    unfolding live_ranges_def dom_restrict P_def by auto
  moreover have "tables_only v s t"
    using free_pages_tables [OF ok k(2,3) len fs0 pt] by (simp add: t_def k(1))
  then have "holds_data t M D" by (rule holds_data_tables [OF D m clr])
  then have "holds_data t ?M (D |` {w. unat w div 4096 \<notin> P})"
    by (auto simp: holds_data_def restrict_map_def)
  ultimately show ?thesis by blast
qed

lemma write_keeps:
  assumes m: "maps_pages v s0 s M" and L: "live_ranges L M" and D: "holds_data s M D"
    and clr: "\<forall>f \<in> free_frames v s0. clear_frame v f"
    and r: "r \<in> set L" "unat w div 4096 \<in> pages_of r" "walk s (vpd v) w = Some p"
  shows "maps_pages v s0 (wr8 s p b) M \<and> holds_data (wr8 s p b) M (D(w \<mapsto> b))"
proof -
  have "unat w div 4096 \<in> dom M" using L r(1,2) by (auto simp: live_ranges_def)
  then obtain f where f: "M (unat w div 4096) = Some f" by blast
  have p: "p = phys f w" using walk_mapped [OF m f] r(3) by simp
  have c: "clear_frame v f" using clr maps_pagesD(5) [OF m f] by blast
  then have up: "unat p = 4096 * f + unat w mod 4096"
    using unat_page_or [of f w] by (simp add: p phys_def clear_frame_def)
  have off: "unat w mod 4096 < 4096" by simp
  have u: "unchanged_outside (unat p) (unat p + 1) s (wr8 s p b)" by (rule unchanged_wr8) simp_all
  have lo: "fa_end (vfa v) \<le> unat p" "unat p + 1 \<le> unat (vbitmap v) \<or> unat (vbitmap v) + 16384 \<le> unat p"
    using c up off by (auto simp: clear_frame_def)
  note o = vmm_other_change [OF maps_pagesD(1) [OF m] u lo]
  have sc: "scanned (vfa v) \<le> 1048576" by (rule vmm_okD(4) [OF maps_pagesD(1) [OF m]])
  have "maps_pages v s0 (wr8 s p b) M"
    using m o sc unfolding maps_pages_def by auto
  moreover have "holds_data (wr8 s p b) M (D(w \<mapsto> b))"
    unfolding holds_data_def
  proof (intro allI impI)
    fix u c assume uc: "(D(w \<mapsto> b)) u = Some c"
    show "\<exists>g. M (unat u div 4096) = Some g \<and> mem (wr8 s p b) (phys g u) = c"
    proof (cases "u = w")
      case True
      with uc f show ?thesis by (simp add: p wr8_def store8_def)
    next
      case False
      with uc D obtain g where g: "M (unat u div 4096) = Some g" "mem s (phys g u) = c"
        by (auto simp: holds_data_def)
      have "unat u div 4096 = unat w div 4096 \<or> g \<noteq> f" using maps_pagesD(4) [OF m f] g(1) by metis
      then have "phys g u \<noteq> p"
        using phys_inj [of g f u w] maps_pagesD(7) [OF m f] maps_pagesD(7) [OF m g(1)] False by (auto simp: p)
      with g show ?thesis by (simp add: wr8_def store8_def)
    qed
  qed
  ultimately show ?thesis by blast
qed

lemma run_invariant:
  assumes "vmm_run v s0 s L D" "vmm_ok v s0" "\<forall>j < 131072. \<not> vused v s0 j"
    and clr: "\<forall>f \<in> free_frames v s0. clear_frame v f"
  shows "\<exists>M. maps_pages v s0 s M \<and> live_ranges L M \<and> holds_data s M D"
  using assms(1)
proof (induction rule: vmm_run.induct)
  case run_start
  have "maps_pages v s0 s0 Map.empty" using assms(2,3) by (auto simp: maps_pages_def)
  then show ?case by (intro exI [of _ Map.empty]) (simp add: live_ranges_def holds_data_def)
next
  case (run_alloc s L D n a t)
  then show ?case using alloc_keeps [OF _ _ _ clr] by blast
next
  case (run_free s L D a n)
  then show ?case using free_keeps [OF _ _ _ clr] by blast
next
  case (run_write s L D r w p b)
  then show ?case using write_keeps [OF _ _ _ clr] by blast
qed

section \<open>Counting frames\<close>

lemma card_pages:
  "sorted_wrt (\<lambda>r q. pages_of r \<inter> pages_of q = {}) L \<Longrightarrow>
   card (\<Union>r \<in> set L. pages_of r) = (\<Sum>r \<leftarrow> L. unat (snd r))"
proof (induction L)
  case (Cons r L)
  have "card (pages_of r) = unat (snd r)" by (simp add: pages_of_def)
  moreover have "pages_of r \<inter> (\<Union>q \<in> set L. pages_of q) = {}" using Cons.prems by auto
  moreover have "finite (pages_of q)" for q by (simp add: pages_of_def)
  ultimately show ?case using Cons by (simp add: card_Un_disjoint)
qed simp

lemma card_ran: "inj_on M (dom M) \<Longrightarrow> card (ran M) = card (dom M)"
proof -
  assume inj: "inj_on M (dom M)"
  have "ran M = (\<lambda>j. the (M j)) ` dom M" by (force simp: ran_def)
  moreover have "inj_on (\<lambda>j. the (M j)) (dom M)"
    using inj unfolding inj_on_def by (metis domIff option.expand)
  ultimately show ?thesis by (simp add: card_image)
qed

lemma frames_counted:
  assumes m: "maps_pages v s0 s M" and L: "live_ranges L M"
  shows "card (free_frames v s) + (\<Sum>r \<leftarrow> L. unat (snd r)) = card (free_frames v s0)"
proof -
  have r: "ran M \<subseteq> free_frames v s0" "inj_on M (dom M)" using m unfolding maps_pages_def by blast+
  have f: "finite (ran M)" "card (ran M) \<le> card (free_frames v s0)"
    using finite_subset [OF r(1) finite_free_frames] card_mono [OF finite_free_frames r(1)] .
  have "(\<Sum>r \<leftarrow> L. unat (snd r)) = card (ran M)"
    using card_pages [of L] L card_ran [OF r(2)] by (simp add: live_ranges_def)
  with f show ?thesis
    unfolding maps_pages_free [OF m] by (simp add: card_Diff_subset [OF f(1) r(1)])
qed

lemma live_mapped:
  assumes "live_ranges L M" "\<exists>r \<in> set L. unat w div 4096 \<in> pages_of r"
  obtains f where "M (unat w div 4096) = Some f"
proof -
  have "unat w div 4096 \<in> dom M" using assms by (auto simp: live_ranges_def)
  with that show ?thesis by blast
qed

section \<open>Properties\<close>

text \<open>C3. Clients of the virtual memory manager are isolated.  From a manager with no page in use
whose free frames lie outside its own tables, in every run of allocations (with enough free
frames), releases and byte writes: the live ranges lie in the region and do not overlap; every
address of a live range translates, and two of them never to the same byte; every byte read
back is the one last written there; the frames in use are those in use at the start and
one for each live page, so that when everything has been released exactly the frames that were free
at the start are free.\<close>

theorem vmm_run_isolated:
  assumes "vmm_run v s0 s L D" "vmm_ok v s0" "\<forall>j < 131072. \<not> vused v s0 j"
    and "\<forall>f \<in> free_frames v s0. clear_frame v f"
  shows "vmm_ok v s \<and> sorted_wrt (\<lambda>r q. pages_of r \<inter> pages_of q = {}) L \<and>
    (\<forall>r \<in> set L. pages_of r \<noteq> {} \<and> pages_of r \<subseteq> {0xD0000 ..< 0xF0000}) \<and>
    (\<forall>w u. w \<noteq> u \<and> (\<exists>r \<in> set L. unat w div 4096 \<in> pages_of r) \<and> (\<exists>r \<in> set L. unat u div 4096 \<in> pages_of r) \<longrightarrow>
       (\<exists>p q. walk s (vpd v) w = Some p \<and> walk s (vpd v) u = Some q \<and> p \<noteq> q)) \<and>
    (\<forall>w b. D w = Some b \<longrightarrow> (\<exists>p. walk s (vpd v) w = Some p \<and> rd8 s p = b)) \<and>
    card (free_frames v s) + (\<Sum>r \<leftarrow> L. unat (snd r)) = card (free_frames v s0) \<and>
    (L = [] \<longrightarrow> free_frames v s = free_frames v s0)"
proof -
  obtain M where m: "maps_pages v s0 s M" and L: "live_ranges L M" and D: "holds_data s M D"
    using run_invariant [OF assms] by blast
  have "pages_of r \<noteq> {} \<and> pages_of r \<subseteq> {0xD0000 ..< 0xF0000}" if r: "r \<in> set L" for r
  proof -
    obtain a n k where k: "r = (a, n)" "a = page_addr (region_page + k)" "k + unat n \<le> 131072" "n \<noteq> 0"
      using L r by (cases r) (auto simp: live_ranges_def)
    with pages_of_range [OF k(3,4)] unat_gt_0 [of n] show ?thesis by auto
  qed
  moreover have "\<exists>p q. walk s (vpd v) w = Some p \<and> walk s (vpd v) u = Some q \<and> p \<noteq> q"
    if wu: "w \<noteq> u" and lw: "\<exists>r \<in> set L. unat w div 4096 \<in> pages_of r"
      and lu: "\<exists>r \<in> set L. unat u div 4096 \<in> pages_of r" for w u
  proof -
    obtain f g where f: "M (unat w div 4096) = Some f" and g: "M (unat u div 4096) = Some g"
      using live_mapped [OF L lw] live_mapped [OF L lu] by metis
    have "unat w div 4096 = unat u div 4096 \<or> f \<noteq> g" using maps_pagesD(4) [OF m f] g by metis
    then have "phys f w \<noteq> phys g u"
      using phys_inj [of f g w u] maps_pagesD(7) [OF m f] maps_pagesD(7) [OF m g] wu by auto
    then show ?thesis using walk_mapped [OF m f] walk_mapped [OF m g] by blast
  qed
  moreover have "\<exists>p. walk s (vpd v) w = Some p \<and> rd8 s p = b" if "D w = Some b" for w b
    using D that walk_mapped [OF m] by (fastforce simp: holds_data_def rd8_def load8_def)
  moreover have "free_frames v s = free_frames v s0" if "L = []"
  proof -
    have "dom M = {}" using L that unfolding live_ranges_def by simp
    then have "M = Map.empty" by simp
    then show ?thesis using maps_pages_free [OF m] by simp
  qed
  moreover have "sorted_wrt (\<lambda>r q. pages_of r \<inter> pages_of q = {}) L" using L by (simp add: live_ranges_def)
  ultimately show ?thesis using maps_pagesD(1) [OF m] frames_counted [OF m L] by blast
qed

text \<open>Two pages of the example manager, and a byte written to the first.\<close>

lemma boot_clear: "\<forall>f \<in> free_frames boot_vmm boot_vm. clear_frame boot_vmm f"
proof -
  have sc: "scanned boot_fa = 2048" by (simp add: scanned_def boot_fa_def)
  have b: "unat (vbitmap boot_vmm) = 0x600000" by (simp add: boot_vmm_run unat_page_addr)
  have "free_frames boot_vmm boot_vm = {0x604..<2048}" by (auto simp: free_frames_def boot_vmm_run sc)
  then show ?thesis by (auto simp: clear_frame_def b boot_vmm_run(3) boot_fa_end)
qed

lemma boot_alloc_two:
  obtains t where "alloc_pages boot_vmm 2 boot_vm = (0xD0000000, t)"
proof -
  have n: "(2 :: u32) \<noteq> 0" "unat (2 :: u32) \<le> card (free_frames boot_vmm boot_vm)" by (simp_all add: boot_free_frames)
  show ?thesis
    using boot_vmm_run(1) n
  proof (cases rule: alloc_pages_run [of boot_vmm boot_vm 2])
    case none
    from none(1) [rule_format, of 0] show ?thesis by (simp add: boot_free_run)
  next
    case (range k fs t)
    have "k = 0" using range(2) [rule_format, of 0] by (cases k) (simp_all add: boot_free_run)
    with range(3) that show ?thesis by (simp add: page_addr_def)
  qed
qed

theorem vmm_run_isolated_witness:
  "\<exists>s. vmm_run boot_vmm boot_vm s [(0xD0000000, 2)] [0xD0000123 \<mapsto> 0x41] \<and>
     (\<exists>p. walk s (vpd boot_vmm) 0xD0000123 = Some p \<and> rd8 s p = 0x41)"
proof -
  obtain t where t: "alloc_pages boot_vmm 2 boot_vm = (0xD0000000, t)" by (rule boot_alloc_two)
  have fresh: "\<forall>j < 131072. \<not> vused boot_vmm boot_vm j" using boot_vmm_run(2) by blast
  have run: "vmm_run boot_vmm boot_vm t [(0xD0000000, 2)] Map.empty"
    using run_alloc [OF run_start _ _ t] by (simp add: boot_free_frames)
  have pg: "pages_of (0xD0000000, 2) = {0xD0000, 0xD0001}" by (auto simp: pages_of_def)
  obtain p where p: "walk t (vpd boot_vmm) 0xD0000123 = Some p"
    using vmm_run_isolated [OF run boot_vmm_run(1) fresh boot_clear] pg
    by (elim conjE) (drule spec [of _ "0xD0000123"], drule spec [of _ "0xD0000124"], auto)
  let ?s = "wr8 t p 0x41"
  have run2: "vmm_run boot_vmm boot_vm ?s [(0xD0000000, 2)] [0xD0000123 \<mapsto> 0x41]"
    using run_write [OF run, of "(0xD0000000, 2)"] pg p by simp
  have "\<exists>q. walk ?s (vpd boot_vmm) 0xD0000123 = Some q \<and> rd8 ?s q = 0x41"
    using vmm_run_isolated [OF run2 boot_vmm_run(1) fresh boot_clear] by auto
  with run2 show ?thesis by blast
qed

end
