(* ===== verification/Spec2Isabelle.thy ===== *)
theory Spec2Isabelle
  imports Main_Interrupted Kernel_Safety Page_Runs
begin

text \<open>
  \<^bold>\<open>Sapphire: a verification of a small x86 kernel.\<close>

  The program is a 32-bit kernel for one processor (\<^verbatim>\<open>src/src\<close>).  A boot loader in assembly
  loads it, \<^verbatim>\<open>bootstrap_paging\<close> turns on 4 MiB pages, \<^verbatim>\<open>platform_init\<close> builds page tables, a
  frame allocator, a heap, a virtual memory manager, the descriptor tables and the system call
  table, and \<^verbatim>\<open>kmain\<close> prints, draws a line, starts the keyboard and makes two system calls.

  \<^bold>\<open>How the parts interact.\<close>  All of them work on one memory.  The frame allocator keeps a bitmap
  at \<^verbatim>\<open>0x500000\<close>; the page tables are the fixed array at \<^verbatim>\<open>0x100000\<close>; the heap takes frames and
  identity-maps them; the virtual memory manager takes frames for its own bitmap, then maps
  frames at pages of its region.  Text output goes through the cursor of the console to glyphs
  and pixels in the framebuffer.  Keyboard interrupts fill a ring buffer that \<^verbatim>\<open>sys_read\<close>
  empties; interrupts and system calls share gates, stubs, dispatch table and \<^verbatim>\<open>isr_handler\<close>.

  \<^bold>\<open>State.\<close>  \<open>machine\<close> (theory \<open>Machine\<close>) is byte-addressed memory (\<open>u32 \<Rightarrow> u8\<close>) with the control
  registers and port input and output; what the source keeps in memory (page tables, bitmaps,
  heap blocks, E820 table, argument blocks, framebuffer) is there, at the addresses of the
  source, and aliasing is real.  C++ statics outside it (console cursor, keyboard, interrupt and
  call tables) are the fields of the records \<open>tty\<close>, \<open>keyboard\<close> and \<open>kernel\<close>.  Machine integers
  are words of their width, so wrap-around is the one of the code.  Signed \<^verbatim>\<open>int\<close> computations whose
  overflow is possible (\<^verbatim>\<open>line.cpp\<close>) are checked: \<open>int_val\<close> is \<open>None\<close> outside 32 bits.

  \<^bold>\<open>Theories, the sources they model, and what is proved.\<close>
  \<^item> \<open>Kernel_Prelude\<close>: named collections, arithmetic of 32-bit words, page rounding, the
    page-stride loop of paging and frame allocator, generic facts on folds.
  \<^item> \<open>Machine\<close> (\<^verbatim>\<open>arch/x86/io\<close>, \<^verbatim>\<open>cr0\<close>, \<^verbatim>\<open>cr3\<close>, \<^verbatim>\<open>cr4\<close>): reads over writes, which bytes an operation may
    touch (\<open>unchanged_outside\<close>), and the locale \<open>dword_array\<close> of C arrays.
  \<^item> \<open>Bitmap\<close>: the bit operations that the frame allocator and the virtual memory manager share, as
    the locale \<open>bitmap_ops\<close>, interpreted on the words in memory.
  \<^item> \<open>Paging\<close> (\<^verbatim>\<open>paging.cpp\<close>): every operation of \<^verbatim>\<open>PageDirectory\<close>; \<open>walk\<close> is the translation of the
    processor, and each operation is characterised by the translation it leaves.
  \<^item> \<open>Memory_Map\<close> (\<^verbatim>\<open>memory_map.cpp\<close>, \<^verbatim>\<open>constants.hpp\<close>): the E820 table in memory.
  \<^item> \<open>Frame_Alloc\<close> (\<^verbatim>\<open>frame_alloc.cpp\<close>): first fit, initialisation against the E820 table, no double
    allocation in any run of operations, the wrap-around at 4 GiB and the frames never scanned.
  \<^item> \<open>Kernel_Heap\<close> (\<^verbatim>\<open>heap.cpp\<close>): the linked list of blocks in memory refines a list of sizes and free
    flags; first fit with splitting, merging, no leak; in any run no block is handed out twice and
    live blocks do not overlap, with the live allocations as a list.  \<^verbatim>\<open>Heap::init\<close> is specified
    for any free frames, also when they are not consecutive.  The loops over the list are
    \<^theory_text>\<open>partial_function (option)\<close>, and the theorems say that they return.
  \<^item> \<open>Virtual_Memory\<close> (\<^verbatim>\<open>vmm.cpp\<close>): least free page run, allocation and release against translation,
    frame bitmap and page bitmap, round trip, exhaustion of frames for requests of any size.
  \<^item> \<open>Page_Runs\<close>: clients of the virtual memory manager in any sequence of allocations, releases and
    writes; bitmaps and page tables refine a map from pages to frames, clients are isolated, no
    frame is lost.
  \<^item> \<open>Keyboard\<close> (\<^verbatim>\<open>keyboard.cpp\<close>): the ring buffer as an interpretation of the locale \<open>char_queue\<close>,
    typed text against a reference decoder, interleavings, overflow.
  \<^item> \<open>Framebuffer\<close> (\<^verbatim>\<open>fb.cpp\<close>, \<^verbatim>\<open>line.cpp\<close>, \<^verbatim>\<open>color.hpp\<close>), \<open>Font\<close> (the whole table of \<^verbatim>\<open>ibm_vga8x16.h\<close>) and
    \<open>Console\<close> (\<^verbatim>\<open>char.cpp\<close>, \<^verbatim>\<open>string.cpp\<close>, \<^verbatim>\<open>kprint.cpp\<close>, \<^verbatim>\<open>MemoryMap::print\<close>): pixels, termination and
    accuracy of line drawing, glyphs, the cursor, number conversion, formatted output as text.
  \<^item> \<open>Bootstrap\<close> (\<^verbatim>\<open>bootstrap.cpp\<close>): the translation before the kernel proper starts.
  \<^item> \<open>Interrupt_Tables\<close> (\<^verbatim>\<open>gdt.cpp\<close>, \<^verbatim>\<open>idt.cpp\<close> as far as tables go, \<^verbatim>\<open>pic.cpp\<close>, \<^verbatim>\<open>fill.hpp\<close>): descriptors
    and what the processor reads out of them; what the interrupt controllers make of the port
    writes (\<open>pic8259\<close>); the locale \<open>dispatch_table\<close>.
  \<^item> \<open>Kernel_State\<close> (\<^verbatim>\<open>gdt::init\<close>, \<^verbatim>\<open>idt::init\<close>, \<^verbatim>\<open>keyboard::init_keyboard\<close>, \<^verbatim>\<open>syscalls::init\<close>, the debug port):
    every vector reaches its stub and its handler.
  \<^item> \<open>Syscalls\<close> (\<^verbatim>\<open>read.cpp\<close>, \<^verbatim>\<open>write.cpp\<close>, \<^verbatim>\<open>syscall.cpp\<close>): both loops, total, with the argument block read
    again in every round.
  \<^item> \<open>Interrupts\<close> (\<^verbatim>\<open>isr_handler\<close> and the handlers of \<^verbatim>\<open>idt.cpp\<close>, the stubs of \<^verbatim>\<open>idt.asm\<close>, \<^verbatim>\<open>kernel/syscall\<close>,
    the read loop of \<^verbatim>\<open>kmain\<close>): dispatch and acknowledgement, exceptions, system calls end to
    end, and the read loop with device interrupts between its calls as a step relation.
  \<^item> \<open>Checked_Access\<close>: the interrupt path, the keyboard, the system calls and the set-up of the tables
    again with every access to their arrays checked; they agree with the plain definitions.
  \<^item> \<open>Kernel_Safety\<close>: interrupts, system calls, output, registrations and set-up calls as one transition
    system; type soundness by progress and preservation, through the locale \<open>typed_system\<close>, where
    progress is for the checked operations: no access is out of bounds.
  \<^item> \<open>Platform\<close> (\<^verbatim>\<open>platform.cpp\<close>): the composition at boot, and the translation that \<^verbatim>\<open>pd.enable()\<close>
    switches to.  After it every step of \<^verbatim>\<open>platform_init\<close> is preceded by a check that the pages it uses
    are mapped as it needs them, with a page fault (\<open>None\<close>) otherwise.
  \<^item> \<open>Boot\<close>: on a boot that has what it needs (\<open>good_boot\<close>) \<^verbatim>\<open>platform_init\<close> as a whole returns, no step
    faults, and the invariants of all components hold.
  \<^item> \<open>Kernel_Main\<close> (\<^verbatim>\<open>main.cpp\<close>): \<^verbatim>\<open>kmain\<close> around its read loop and as a whole, composed with
    \<^verbatim>\<open>platform_init\<close>: from power on to the report of the characters typed.
  \<^item> \<open>Preemption\<close>: device interrupts in the middle of other code.  A program is a list of actions;
    the locale \<open>handlers_apart\<close> says that handlers and program use different parts of the state and
    gives that the program is not disturbed.  It is interpreted twice, before and after the
    keyboard handler is registered.  \<^verbatim>\<open>kprintf\<close> is such a program, down to its pixels.
  \<^item> \<open>Main_Interrupted\<close>: \<^verbatim>\<open>kmain\<close> with interrupts between all of its actions, from power on to the
    report, with keys typed ahead.

  \<^bold>\<open>Bounds and termination.\<close>  No fuel is used.  Loops whose end depends on memory contents (heap
  list, number conversion with base 0 or 1, line drawing) are \<^theory_text>\<open>partial_function (option)\<close> with
  theorems that they return; the other loops are total functions with a measure.

  \<^bold>\<open>Physical and virtual addresses.\<close>  The operations of the components work on physical memory.  That
  is what the code does as long as \<open>paging_ok\<close> holds: the first five megabytes (boot information,
  page directory, page tables) and the screen are mapped to themselves and the kernel range to the
  image.  Nothing gives this for the frame bitmap at \<^verbatim>\<open>0x500000\<close>, which is mapped only where
  usable memory covers it, nor for the kernel range when usable memory lies there; \<open>platform_init\<close>
  checks both and faults, and \<open>good_boot\<close> excludes them.  The heap and the page bitmap are mapped
  by the code itself, which is checked as well; the access to \<^verbatim>\<open>p1\<close> is translated explicitly.
  \<open>paging_ok\<close> is shown to hold after \<^verbatim>\<open>platform_init\<close> and after \<^verbatim>\<open>kmain\<close>.

  \<^bold>\<open>Assumptions.\<close>  Pixel theorems are for the 16, 24 and 32-bit video modes (\<open>fb_ok\<close>).  Cursor
  positions and the coordinates of text, \<^verbatim>\<open>int\<close> in the source, are unbounded integers; overflowing
  them, undefined in C++, takes more than \<open>2^27\<close> characters of output or such a position as the
  argument of \<^verbatim>\<open>kprint_at\<close>.  A string argument is the list of its bytes up to the terminator.  The interrupt frame is
  a value and not placed on the stack in memory.  Addresses fixed by the linker, the addresses
  of the assembly stubs and of stack objects are parameters, with the hypotheses (distinct
  stubs, blocks apart) that the theorems state; an object of the kernel image or the stack is
  named by the address at which its bytes are in memory, below one megabyte.  Interrupts come
  between the actions of \<^verbatim>\<open>kmain\<close> (a pixel, a cursor update, a store, a field assignment, a system
  call) and between the rounds of its read loop; inside a system call and a handler they are off.
  In \<^verbatim>\<open>platform_init\<close> only \<^verbatim>\<open>syscalls::init\<close> runs with interrupts on, and it is one action.

  \<^bold>\<open>Not modelled.\<close>  The real-mode boot stages (\<^verbatim>\<open>boot/*.asm\<close>: disk, A20, VBE and E820 calls of the
  BIOS), of which only the memory they leave behind matters here; the translation caches of the
  processor; processor faults other than the interrupts delivered through the tables and the page
  faults of \<^verbatim>\<open>platform_init\<close>; build and linker scripts.
\<close>

end
